(* ===== verification/Prelude.thy ===== *)
theory Prelude
  imports Main "HOL-Library.Word" "HOL-Library.Char_ord" "HOL-Library.List_Lexorder"
begin

text \<open>
  What every component shares: bytes and fixed-width integers, the exceptions of the program as
  values of a sum type, the sequencing of operations that may throw (\<open>bindE\<close>) and of operations
  that may throw and change a state (\<open>bindP\<close>), decimal formatting, and the string searches of
  \<^verbatim>\<open>std::string_view\<close> that the sources use.
\<close>

section \<open>Types\<close>

text \<open>
  A \<^verbatim>\<open>std::string\<close>, \<^verbatim>\<open>std::u8string\<close>, \<^verbatim>\<open>[ubyte]\<close> vector or slice is a list of 8-bit characters:
  the sources convert between them by \<^verbatim>\<open>reinterpret_cast\<close> only. A 64-bit identifier is a 64-bit
  word, compared with \<open>sint\<close>.
\<close>

type_synonym bytes = string
type_synonym int64 = "64 word"

abbreviation NUL :: char where
  "NUL \<equiv> CHR 0x00"

section \<open>Exceptions\<close>

text \<open>
  Every exception the sources throw, with the text it carries, an exception thrown by a library
  (\<open>LibraryError\<close>), and \<open>Undefined\<close> for a read that C++
  leaves undefined (a view one byte shorter than an empty vector, a C string without terminator).
\<close>

datatype exn =
    RuntimeError string
  | LogicError string
  | HttpError nat string
  | UpnpError int string
  | SystemError string
  | FilesystemError string
  | LibraryError string
  | Undefined

type_synonym 'a result = "exn + 'a"
type_synonym ('s, 'a) proc = "'s \<Rightarrow> 'a result \<times> 's"

named_theorems monad_simps \<open>unfolding of sequenced operations\<close>

fun bindE :: "'a result \<Rightarrow> ('a \<Rightarrow> 'b result) \<Rightarrow> 'b result" where
  "bindE (Inl e) f = Inl e"
| "bindE (Inr x) f = f x"

lemma bindE_eq_Inr [monad_simps]:
  "bindE m f = Inr y \<longleftrightarrow> (\<exists>x. m = Inr x \<and> f x = Inr y)"
  by (cases m) auto

lemma bindE_eq_Inl [monad_simps]:
  "bindE m f = Inl e \<longleftrightarrow> m = Inl e \<or> (\<exists>x. m = Inr x \<and> f x = Inl e)"
  by (cases m) auto

definition returnP :: "'a \<Rightarrow> ('s, 'a) proc" where
  "returnP x s = (Inr x, s)"

definition raiseP :: "exn \<Rightarrow> ('s, 'a) proc" where
  "raiseP e s = (Inl e, s)"

text \<open>A state change made before an exception stays, as it does in the program.\<close>

definition bindP :: "('s, 'a) proc \<Rightarrow> ('a \<Rightarrow> ('s, 'b) proc) \<Rightarrow> ('s, 'b) proc" where
  "bindP m f s = (case m s of (Inl e, s') \<Rightarrow> (Inl e, s') | (Inr x, s') \<Rightarrow> f x s')"

lemma bindP_simps [simp]:
  "m s = (Inl e, s') \<Longrightarrow> bindP m f s = (Inl e, s')"
  "m s = (Inr x, s') \<Longrightarrow> bindP m f s = f x s'"
  by (simp_all add: bindP_def)

lemma bindP_returnP [simp]: "bindP (returnP x) f s = f x s"
  by (simp add: returnP_def)

lemma bindP_raiseP [simp]: "bindP (raiseP e) f s = (Inl e, s)"
  by (simp add: raiseP_def)

lemma bindP_eq_Inr [monad_simps]:
  "bindP m f s = (Inr y, t) \<longleftrightarrow> (\<exists>x u. m s = (Inr x, u) \<and> f x u = (Inr y, t))"
  by (auto simp: bindP_def split: prod.splits sum.splits)

lemma returnP_eq [monad_simps]: "returnP x s = (r, t) \<longleftrightarrow> r = Inr x \<and> t = s"
  by (auto simp: returnP_def)

lemma raiseP_eq [monad_simps]: "raiseP e s = (r, t) \<longleftrightarrow> r = Inl e \<and> t = s"
  by (auto simp: raiseP_def)

lemma bindP_assoc: "bindP (bindP m f) g = bindP m (\<lambda>x. bindP (f x) g)"
  by (rule ext) (auto simp: bindP_def split: prod.splits sum.splits)

lemma bindP_returnP_left: "bindP (returnP x) f = f x"
  by (rule ext) simp

lemma bindP_returnP_right: "bindP m returnP = m"
  by (rule ext) (auto simp: bindP_def returnP_def split: prod.splits sum.splits)

lemmas bindP_laws = bindP_assoc bindP_returnP_left bindP_returnP_right

text \<open>
  A triple: from a state with the precondition, a normal result satisfies \<open>Q\<close> and an exception
  satisfies \<open>E\<close>, each with the state it leaves.
\<close>

definition triple ::
  "('s \<Rightarrow> bool) \<Rightarrow> ('s, 'a) proc \<Rightarrow> ('a \<Rightarrow> 's \<Rightarrow> bool) \<Rightarrow> (exn \<Rightarrow> 's \<Rightarrow> bool) \<Rightarrow> bool" where
  "triple P m Q E \<longleftrightarrow>
     (\<forall>s r t. P s \<longrightarrow> m s = (r, t) \<longrightarrow> (case r of Inl e \<Rightarrow> E e t | Inr x \<Rightarrow> Q x t))"

lemma tripleI:
  "(\<And>s x t. P s \<Longrightarrow> m s = (Inr x, t) \<Longrightarrow> Q x t) \<Longrightarrow>
   (\<And>s e t. P s \<Longrightarrow> m s = (Inl e, t) \<Longrightarrow> E e t) \<Longrightarrow> triple P m Q E"
  by (auto simp: triple_def split: sum.splits)

lemma triple_Inr: "triple P m Q E \<Longrightarrow> P s \<Longrightarrow> m s = (Inr x, t) \<Longrightarrow> Q x t"
  by (force simp: triple_def)

lemma triple_Inl: "triple P m Q E \<Longrightarrow> P s \<Longrightarrow> m s = (Inl e, t) \<Longrightarrow> E e t"
  by (force simp: triple_def)

lemma triple_bindP:
  assumes "triple P m R E" and "\<And>x. triple (R x) (f x) Q E"
  shows "triple P (bindP m f) Q E"
proof (rule tripleI)
  fix s x t assume P: "P s" and b: "bindP m f s = (Inr x, t)"
  then obtain y u where "m s = (Inr y, u)" "f y u = (Inr x, t)"
    by (auto simp: bindP_eq_Inr)
  with assms P show "Q x t" by (meson triple_Inr)
next
  fix s e t assume P: "P s" and b: "bindP m f s = (Inl e, t)"
  show "E e t"
  proof (cases "m s")
    case (Pair r u)
    with b assms P show ?thesis
      by (cases r) (auto dest: triple_Inl triple_Inr)
  qed
qed

lemma triple_returnP: "(\<And>s. P s \<Longrightarrow> Q x s) \<Longrightarrow> triple P (returnP x) Q E"
  by (rule tripleI) (auto simp: returnP_def)

lemma triple_raiseP: "(\<And>s. P s \<Longrightarrow> E e s) \<Longrightarrow> triple P (raiseP e) Q E"
  by (rule tripleI) (auto simp: raiseP_def)

lemma triple_conseq:
  assumes "triple P m Q E" and "\<And>s. P' s \<Longrightarrow> P s" and "\<And>x s. Q x s \<Longrightarrow> Q' x s"
    and "\<And>e s. E e s \<Longrightarrow> E' e s"
  shows "triple P' m Q' E'"
  using assms by (intro tripleI) (blast dest: triple_Inr triple_Inl)+

lemma triple_pre: "triple P m Q E \<Longrightarrow> (\<And>s. P' s \<Longrightarrow> P s) \<Longrightarrow> triple P' m Q E"
  by (rule triple_conseq)

lemma triple_assume: "(\<And>s. P s \<Longrightarrow> triple (\<lambda>s'. s' = s) m Q E) \<Longrightarrow> triple P m Q E"
  by (auto simp: triple_def)

section \<open>String searches\<close>

fun starts_with :: "string \<Rightarrow> string \<Rightarrow> bool" where
  "starts_with s [] = True"
| "starts_with [] (c # cs) = False"
| "starts_with (x # xs) (c # cs) = (x = c \<and> starts_with xs cs)"

lemma starts_with_append: "starts_with s p \<longleftrightarrow> (\<exists>r. s = p @ r)"
  by (induction s p rule: starts_with.induct) auto

lemma starts_with_drop: "starts_with s p \<Longrightarrow> p @ drop (length p) s = s"
  by (auto simp: starts_with_append)

text \<open>\<^verbatim>\<open>s.find(needle) != npos\<close>.\<close>

fun contains :: "string \<Rightarrow> string \<Rightarrow> bool" where
  "contains [] needle = (needle = [])"
| "contains (c # cs) needle = (starts_with (c # cs) needle \<or> contains cs needle)"

lemma contains_infix: "contains s needle \<longleftrightarrow> (\<exists>l r. s = l @ needle @ r)"
proof (induction s)
  case Nil
  then show ?case by simp
next
  case (Cons c cs)
  show ?case
  proof
    assume "contains (c # cs) needle"
    then consider "starts_with (c # cs) needle" | "contains cs needle" by auto
    then show "\<exists>l r. c # cs = l @ needle @ r"
    proof cases
      case 1
      then obtain r where "c # cs = needle @ r" by (auto simp: starts_with_append)
      then have "c # cs = [] @ needle @ r" by simp
      then show ?thesis by blast
    next
      case 2
      with Cons obtain l r where "cs = l @ needle @ r" by blast
      then have "c # cs = (c # l) @ needle @ r" by simp
      then show ?thesis by blast
    qed
  next
    assume "\<exists>l r. c # cs = l @ needle @ r"
    then obtain l r where eq: "c # cs = l @ needle @ r" by blast
    show "contains (c # cs) needle"
    proof (cases l)
      case Nil
      with eq have "starts_with (c # cs) needle" by (auto simp: starts_with_append)
      then show ?thesis by simp
    next
      case (Cons d l')
      with eq have "cs = l' @ needle @ r" by simp
      with Cons.IH show ?thesis by auto
    qed
  qed
qed

text \<open>A string read as a C string ends at its first zero byte.\<close>

definition c_str :: "string \<Rightarrow> string" where
  "c_str s = takeWhile (\<lambda>c. c \<noteq> NUL) s"

lemma c_str_terminated [simp]: "c_str (s @ [NUL]) = c_str s"
  by (induction s) (auto simp: c_str_def)

lemma c_str_no_NUL [simp]: "NUL \<notin> set s \<Longrightarrow> c_str s = s"
  by (auto simp: c_str_def takeWhile_eq_all_conv)

lemma NUL_c_str [simp]: "NUL \<notin> set (c_str s)"
  by (auto simp: c_str_def dest: set_takeWhileD)

section \<open>Decimal formatting\<close>

definition digit_char :: "nat \<Rightarrow> char" where
  "digit_char d = char_of (48 + d mod 10)"

fun show_nat :: "nat \<Rightarrow> string" where
  "show_nat n = (if n < 10 then [digit_char n] else show_nat (n div 10) @ [digit_char n])"

declare show_nat.simps [simp del]

definition show_int :: "int \<Rightarrow> string" where
  "show_int i = (if i < 0 then CHR ''-'' # show_nat (nat (- i)) else show_nat (nat i))"

definition is_digit :: "char \<Rightarrow> bool" where
  "is_digit c \<longleftrightarrow> 48 \<le> (of_char c :: nat) \<and> (of_char c :: nat) \<le> 57"

lemma is_digit_digit_char [simp]: "is_digit (digit_char d)"
proof -
  have "48 + d mod 10 < 256" by (simp add: less_imp_le_nat trans_less_add1)
  then show ?thesis by (simp add: is_digit_def digit_char_def less_Suc_eq_le)
qed

lemma show_nat_digits: "c \<in> set (show_nat n) \<Longrightarrow> is_digit c"
  by (induction n rule: show_nat.induct) (subst (asm) (2) show_nat.simps, auto split: if_splits)

lemma show_nat_nonempty [simp]: "show_nat n \<noteq> []"
  by (subst show_nat.simps) simp

lemma show_int_chars: "c \<in> set (show_int i) \<Longrightarrow> is_digit c \<or> c = CHR ''-''"
  using show_nat_digits [of c] by (auto simp: show_int_def split: if_splits)

lemma show_int_plain:
  "show_int i \<noteq> []" "CHR ''/'' \<notin> set (show_int i)" "CHR ''?'' \<notin> set (show_int i)" "NUL \<notin> set (show_int i)"
proof -
  show "show_int i \<noteq> []" by (simp add: show_int_def)
qed (use show_int_chars in \<open>force simp: is_digit_def\<close>)+

section \<open>Signed 64-bit values\<close>

definition int64_max :: int64 where
  "int64_max = 0x7FFFFFFFFFFFFFFF"

definition increment :: "int64 \<Rightarrow> int64 result" where
  "increment x = (if x = int64_max then Inl Undefined else Inr (x + 1))"

lemma sint_int64_max [simp]: "sint int64_max = 2 ^ 63 - 1"
  by (simp add: int64_max_def)

lemma sint_int64_le: "sint (x :: int64) \<le> 2 ^ 63 - 1"
  using sint_lt [of x] by simp

lemma sint_int64_ge: "- (2 ^ 63) \<le> sint (x :: int64)"
  using sint_ge [of x] by simp

lemma sint_inject: "sint (x :: int64) = sint y \<longleftrightarrow> x = y"
  by (auto intro: signed_word_eqI)

lemma sint_plus1:
  assumes "x \<noteq> int64_max"
  shows "sint (x + 1) = sint x + 1"
proof -
  have "sint x \<noteq> sint int64_max" using assms by (simp only: sint_inject not_False_eq_True)
  then have "sint x < 2 ^ 63 - 1" using sint_int64_le [of x] by simp
  then show ?thesis
    using sint_int64_ge [of x] by (simp add: sint_word_ariths(1) signed_take_bit_int_eq_self)
qed

lemma increment_Inr: "increment x = Inr y \<longleftrightarrow> x \<noteq> int64_max \<and> y = x + 1"
  by (auto simp: increment_def)

lemma sint_increment: "increment x = Inr y \<Longrightarrow> sint y = sint x + 1"
  by (auto simp: increment_Inr sint_plus1)

end
