(* ===== verification/Libraries.thy ===== *)
theory Libraries
  imports Prelude
begin

text \<open>
  The small third-party routines the sources call, as fields of \<open>util_lib\<close>: Boost.Spirit's number
  parsers, Boost's \<^verbatim>\<open>trim\<close> and the calendar conversions of the \<^verbatim>\<open>date\<close> library. A number
  parser reads a prefix of its text and returns the value with what is left, or fails. The locale
  \<open>util\<close> states their documented behaviour, as far as the sources rely on it. The function
  \<open>parse\<close> is the repository's own wrapper, \<^verbatim>\<open>src/spirit.h\<close>.
\<close>

type_synonym 'a parser = "string \<Rightarrow> ('a \<times> string) option"

record util_lib =
  x3_int64 :: "int parser"
  x3_uint32 :: "nat parser"
  x3_uintmax :: "nat parser"
  algo_trim :: "string \<Rightarrow> string"
  date_sys_days :: "int \<Rightarrow> nat \<Rightarrow> nat \<Rightarrow> int"
  date_ymd :: "int \<Rightarrow> int \<times> nat \<times> nat"

section \<open>Parsing a whole text\<close>

text \<open>The parser must match and must use the whole text.\<close>

definition parse :: "'a parser \<Rightarrow> string \<Rightarrow> 'a option" where
  "parse p text =
     (case p text of
        None \<Rightarrow> None
      | Some (attr, rest) \<Rightarrow> if rest \<noteq> [] then None else Some attr)"

lemma parse_Some: "parse p text = Some a \<longleftrightarrow> p text = Some (a, [])"
  by (auto simp: parse_def split: option.splits prod.splits if_splits)

section \<open>The grammar operators\<close>

text \<open>
  The operators of Spirit's grammars that the sources combine these parsers with: a literal, a
  sequence, an optional part, one or more characters of a class.
\<close>

definition lit :: "string \<Rightarrow> unit parser" where
  "lit s text = (if starts_with text s then Some ((), drop (length s) text) else None)"

definition seq :: "'a parser \<Rightarrow> 'b parser \<Rightarrow> ('a \<times> 'b) parser" where
  "seq p q text =
     (case p text of None \<Rightarrow> None
      | Some (a, rest) \<Rightarrow> (case q rest of None \<Rightarrow> None | Some (b, rest') \<Rightarrow> Some ((a, b), rest')))"

definition opt :: "'a parser \<Rightarrow> 'a option parser" where
  "opt p text = (case p text of None \<Rightarrow> Some (None, text) | Some (a, rest) \<Rightarrow> Some (Some a, rest))"

definition plus_chars :: "(char \<Rightarrow> bool) \<Rightarrow> string parser" where
  "plus_chars cls text =
     (let s = takeWhile cls text in if s = [] then None else Some (s, drop (length s) text))"

section \<open>What the sources rely on\<close>

definition is_space :: "char \<Rightarrow> bool" where
  "is_space c \<longleftrightarrow> c = CHR '' '' \<or> 9 \<le> (of_char c :: nat) \<and> (of_char c :: nat) \<le> 13"

definition no_digit_first :: "string \<Rightarrow> bool" where
  "no_digit_first r \<longleftrightarrow> (case r of [] \<Rightarrow> True | c # _ \<Rightarrow> \<not> is_digit c)"

lemma no_digit_first_simps [simp]:
  "no_digit_first []"
  "no_digit_first (c # cs) \<longleftrightarrow> \<not> is_digit c"
  by (simp_all add: no_digit_first_def)

locale util =
  fixes U :: "'m util_lib_scheme"
  assumes int64_parses: "- (2 ^ 63) \<le> i \<Longrightarrow> i < 2 ^ 63 \<Longrightarrow> no_digit_first r \<Longrightarrow>
      x3_int64 U (show_int i @ r) = Some (i, r)"
    and int64_range: "x3_int64 U s = Some (i, r) \<Longrightarrow> - (2 ^ 63) \<le> i \<and> i < 2 ^ 63"
    and uint32_parses: "n < 2 ^ 32 \<Longrightarrow> no_digit_first r \<Longrightarrow> x3_uint32 U (show_nat n @ r) = Some (n, r)"
    and uint32_range: "x3_uint32 U s = Some (n, r) \<Longrightarrow> n < 2 ^ 32"
    and uintmax_parses: "n < 2 ^ 64 \<Longrightarrow> no_digit_first r \<Longrightarrow> x3_uintmax U (show_nat n @ r) = Some (n, r)"
    and uintmax_range: "x3_uintmax U s = Some (n, r) \<Longrightarrow> n < 2 ^ 64"
    and uintmax_digit: "no_digit_first s \<Longrightarrow> x3_uintmax U s = None"
    and trim_substring: "\<exists>l r. s = l @ algo_trim U s @ r \<and> list_all is_space l \<and> list_all is_space r"
    and trim_ends: "algo_trim U s \<noteq> [] \<Longrightarrow>
      \<not> is_space (hd (algo_trim U s)) \<and> \<not> is_space (last (algo_trim U s))"
    and ymd_new_year: "- 32767 \<le> y \<Longrightarrow> y \<le> 32767 \<Longrightarrow> date_ymd U (date_sys_days U y 1 1) = (y, 1, 1)"
    and days_range: "- 32767 \<le> y \<Longrightarrow> y \<le> 32767 \<Longrightarrow>
      - (2 ^ 63) \<le> date_sys_days U y 1 1 \<and> date_sys_days U y 1 1 < 2 ^ 63"
    and epoch: "date_sys_days U 1970 1 1 = 0"
begin

lemma parse_int64 [simp]:
  "- (2 ^ 63) \<le> i \<Longrightarrow> i < 2 ^ 63 \<Longrightarrow> parse (x3_int64 U) (show_int i) = Some i"
  using int64_parses [of i "[]"] by (simp add: parse_Some)

lemma parse_int64_sint [simp]: "parse (x3_int64 U) (show_int (sint (w :: int64))) = Some (sint w)"
  using sint_int64_ge [of w] sint_int64_le [of w] by (intro parse_int64) auto

lemma parse_uint32 [simp]: "n < 2 ^ 32 \<Longrightarrow> parse (x3_uint32 U) (show_nat n) = Some n"
  using uint32_parses [of n "[]"] by (simp add: parse_Some)

lemma new_year_nonzero:
  assumes "- 32767 \<le> y" "y \<le> 32767" "y \<noteq> 1970"
  shows "date_sys_days U y 1 1 \<noteq> 0"
  using ymd_new_year [OF assms(1,2)] ymd_new_year [of 1970] epoch assms(3) by auto

end

end
