(* ===== verification/Http.thy ===== *)
theory Http
  imports Libraries
begin

text \<open>
  HTTP messages as the services build and read them (\<^verbatim>\<open>src/http_messages.h\<close>,
  \<^verbatim>\<open>src/http_messages.cpp\<close>), and the interface to the outside: header fields of Beast's messages,
  the stream a response is written to, and the files that are served. A header field is looked up
  without regard to case; setting one replaces every field of that name. Whether the connection is
  kept is what Beast derived from a request, and what a response was told, if it was.
\<close>

section \<open>Messages\<close>

datatype verb = Get | Head | Post | Msearch | OtherVerb string

type_synonym fields = "(string \<times> string) list"

record http_request =
  rq_method :: verb
  rq_target :: string
  rq_version :: nat
  rq_keep_alive :: bool
  rq_fields :: fields
  rq_body :: bytes

record http_response =
  rs_status :: nat
  rs_version :: nat
  rs_keep_alive :: "bool option"
  rs_fields :: fields
  rs_body :: bytes

definition lower :: "char \<Rightarrow> char" where
  "lower c = (let n = of_char c :: nat in if 65 \<le> n \<and> n \<le> 90 then char_of (n + 32) else c)"

definition iequals :: "string \<Rightarrow> string \<Rightarrow> bool" where
  "iequals a b \<longleftrightarrow> map lower a = map lower b"

text \<open>\<^verbatim>\<open>req[name]\<close>: the first field of that name, empty if there is none.\<close>

fun field_value :: "fields \<Rightarrow> string \<Rightarrow> string" where
  "field_value [] name = []"
| "field_value ((n, v) # fs) name = (if iequals n name then v else field_value fs name)"

definition set_field :: "string \<Rightarrow> string \<Rightarrow> http_response \<Rightarrow> http_response" where
  "set_field name v resp =
     resp\<lparr>rs_fields := filter (\<lambda>f. \<not> iequals (fst f) name) (rs_fields resp) @ [(name, v)]\<rparr>"

definition content_length :: "nat \<Rightarrow> http_response \<Rightarrow> http_response" where
  "content_length n = set_field ''Content-Length'' (show_nat n)"

definition new_response :: "nat \<Rightarrow> nat \<Rightarrow> http_response" where
  "new_response status version =
     \<lparr>rs_status = status, rs_version = version, rs_keep_alive = None, rs_fields = [], rs_body = []\<rparr>"

text \<open>\<open>beast\<close> is the text of \<^verbatim>\<open>BOOST_BEAST_VERSION_STRING\<close>, which Beast defines.\<close>

definition make_error_response :: "string \<Rightarrow> nat \<Rightarrow> string \<Rightarrow> http_request \<Rightarrow> http_response" where
  "make_error_response beast code reason req =
     content_length (length reason)
       (((set_field ''Content-Type'' ''text/html''
          (set_field ''Server'' beast (new_response code (rq_version req))))
           \<lparr>rs_keep_alive := Some (rq_keep_alive req)\<rparr>)
           \<lparr>rs_body := reason\<rparr>)"

section \<open>Field laws\<close>

lemma iequals_refl [simp]: "iequals a a"
  by (simp add: iequals_def)

lemma iequals_sym: "iequals a b \<longleftrightarrow> iequals b a"
  by (auto simp: iequals_def)

lemma iequals_trans: "iequals a b \<Longrightarrow> iequals b c \<Longrightarrow> iequals a c"
  by (simp add: iequals_def)

lemma field_value_append:
  "field_value (fs @ [(n, v)]) name =
     (if \<exists>f \<in> set fs. iequals (fst f) name then field_value fs name
      else if iequals n name then v else [])"
proof (induction fs)
  case Nil
  then show ?case by simp
next
  case (Cons f fs)
  then show ?case
    by (cases f; cases "iequals (fst f) name") (simp_all only: append_Cons field_value.simps fst_conv
        list.set bex_simps if_True if_False simp_thms)
qed

lemma field_value_filter:
  "field_value (filter (\<lambda>f. \<not> iequals (fst f) n) fs) name =
     (if iequals n name then [] else field_value fs name)"
proof (induction fs)
  case Nil
  then show ?case by simp
next
  case (Cons f fs)
  have "iequals (fst f) name \<Longrightarrow> iequals (fst f) n \<Longrightarrow> iequals n name"
    using iequals_sym iequals_trans by blast
  moreover have "iequals n name \<Longrightarrow> iequals (fst f) name \<Longrightarrow> iequals (fst f) n"
    using iequals_sym iequals_trans by blast
  ultimately show ?case using Cons by (cases f) auto
qed

lemma field_value_none: "\<not> (\<exists>f \<in> set fs. iequals (fst f) name) \<Longrightarrow> field_value fs name = []"
  by (induction fs) auto

lemma set_field_value [simp]:
  "field_value (rs_fields (set_field n v resp)) name =
     (if iequals n name then v else field_value (rs_fields resp) name)"
proof -
  let ?fs = "filter (\<lambda>f. \<not> iequals (fst f) n) (rs_fields resp)"
  have gone: "\<not> (\<exists>f \<in> set ?fs. iequals (fst f) name)" if "iequals n name"
    using that unfolding iequals_def by auto
  show ?thesis
  proof (cases "iequals n name")
    case True
    with gone show ?thesis by (auto simp: set_field_def field_value_append)
  next
    case False
    have "field_value (rs_fields (set_field n v resp)) name = field_value ?fs name"
      using False field_value_none [of ?fs name] by (auto simp: set_field_def field_value_append)
    with False show ?thesis by (simp add: field_value_filter)
  qed
qed

lemma set_field_simps [simp]:
  "rs_status (set_field n v r) = rs_status r" "rs_version (set_field n v r) = rs_version r"
  "rs_keep_alive (set_field n v r) = rs_keep_alive r" "rs_body (set_field n v r) = rs_body r"
  by (simp_all add: set_field_def)

lemma content_length_simps [simp]:
  "rs_status (content_length k r) = rs_status r" "rs_version (content_length k r) = rs_version r"
  "rs_keep_alive (content_length k r) = rs_keep_alive r" "rs_body (content_length k r) = rs_body r"
  "field_value (rs_fields (content_length k r)) name =
     (if iequals ''Content-Length'' name then show_nat k else field_value (rs_fields r) name)"
  by (simp_all add: content_length_def)

lemma new_response_simps [simp]:
  "rs_status (new_response s v) = s" "rs_version (new_response s v) = v"
  "rs_fields (new_response s v) = []" "rs_body (new_response s v) = []"
  by (simp_all add: new_response_def)

lemma rs_fields_updates [simp]:
  "rs_fields (r\<lparr>rs_keep_alive := k\<rparr>) = rs_fields r" "rs_fields (r\<lparr>rs_body := b\<rparr>) = rs_fields r"
  "rs_fields (r\<lparr>rs_status := s\<rparr>) = rs_fields r"
  by simp_all

end
