(* ===== verification/NetLib.thy ===== *)
theory NetLib
  imports Http
begin

text \<open>
  The interface to the outside that the services share: the files that are served
  (\<^verbatim>\<open>beast::file\<close>), the stream of a connection (\<^verbatim>\<open>beast::tcp_stream\<close> with Beast's and Asio's
  read and write functions), and the serialisation of a response. They are fields of \<open>net_lib\<close>, and
  the locale \<open>net_io\<close> states the documented behaviour the code relies on, over what a file contains,
  where its handle stands and what a stream has sent.
\<close>

datatype 'f file_open = FileOpen 'f | FileMissing | FileError string

record ('f, 's) net_lib = util_lib +
  beast_version :: string
  f_open :: "string \<Rightarrow> 'f file_open"
  f_size :: "'f \<Rightarrow> string + 64 word"
  f_seek :: "64 word \<Rightarrow> 'f \<Rightarrow> string + 'f"
  f_read :: "nat \<Rightarrow> 'f \<Rightarrow> (string + bytes) \<times> 'f"
  header_bytes :: "http_response \<Rightarrow> bytes"
  message_bytes :: "http_response \<Rightarrow> bytes"
  s_write :: "bytes \<Rightarrow> 's \<Rightarrow> string option \<times> 's"
  s_close :: "'s \<Rightarrow> 's"
  s_expires_after :: "nat \<Rightarrow> 's \<Rightarrow> 's"
  s_read_request :: "'s \<Rightarrow> (string + http_request) \<times> 's"

locale net_io =
  fixes L :: "('f, 's, 'm) net_lib_scheme"
    and file_data :: "'f \<Rightarrow> bytes"
    and file_pos :: "'f \<Rightarrow> nat"
    and sent :: "'s \<Rightarrow> bytes"
  assumes open_pos: "f_open L path = FileOpen f \<Longrightarrow> file_pos f = 0"
    and size_ok: "f_size L f = Inr len \<Longrightarrow> unat len = length (file_data f)"
    and seek_ok: "f_seek L p f = Inr f' \<Longrightarrow> file_data f' = file_data f \<and> file_pos f' = unat p"
    and read_ok: "f_read L k f = (Inr bs, f') \<Longrightarrow>
      bs = take k (drop (file_pos f) (file_data f)) \<and> file_data f' = file_data f
      \<and> file_pos f' = file_pos f + length bs"
    and write_ok: "s_write L bs s = (None, s') \<Longrightarrow> sent s' = sent s @ bs"
    and write_failed: "s_write L bs s = (Some e, s') \<Longrightarrow> \<exists>i. sent s' = sent s @ take i bs"
    and close_sent: "sent (s_close L s) = sent s"
    and expires_sent: "sent (s_expires_after L n s) = sent s"
    and read_request_sent: "s_read_request L s = (r, s') \<Longrightarrow> sent s' = sent s"

text \<open>
  The next request of a connection: the stream's expiry is set to 30 seconds, then a request is read.
  What the expiry does is the stream's affair: when it has passed, the calls on the stream fail.
\<close>

definition read_request :: "('f, 's, 'm) net_lib_scheme \<Rightarrow> 's \<Rightarrow> (string + http_request) \<times> 's" where
  "read_request L s = s_read_request L (s_expires_after L 30 s)"

context net_io
begin

lemma read_request_keeps: "read_request L s = (r, s') \<Longrightarrow> sent s' = sent s"
  using read_request_sent expires_sent by (fastforce simp: read_request_def)

end

text \<open>A run in which no system call fails; in particular no expiry passes.\<close>

definition calls_succeed :: "('f, 's, 'm) net_lib_scheme \<Rightarrow> bool" where
  "calls_succeed L \<longleftrightarrow>
     (\<forall>bs s. fst (s_write L bs s) = None)
     \<and> (\<forall>n f. \<exists>bs. fst (f_read L n f) = Inr bs)
     \<and> (\<forall>f. \<exists>n. f_size L f = Inr n) \<and> (\<forall>p f. \<exists>f'. f_seek L p f = Inr f')"

text \<open>
  \<^verbatim>\<open>co_await http::async_write(stream, response)\<close>: an error of the stream is thrown.
\<close>

definition write_response :: "('f, 's, 'm) net_lib_scheme \<Rightarrow> http_response \<Rightarrow> ('s, unit) proc" where
  "write_response L resp s =
     (case s_write L (message_bytes L resp) s of
        (None, s') \<Rightarrow> (Inr (), s')
      | (Some e, s') \<Rightarrow> (Inl (SystemError e), s'))"

end
