(* ===== verification/Paths.thy ===== *)
theory Paths
  imports Prelude
begin

text \<open>
  \<^verbatim>\<open>std::filesystem::path\<close> on POSIX, as far as the sources use it: \<^verbatim>\<open>filename\<close>, \<^verbatim>\<open>stem\<close>,
  \<^verbatim>\<open>extension\<close>, \<^verbatim>\<open>operator/=\<close> and iteration over the components. A path is its native string.
\<close>

definition path_filename :: "string \<Rightarrow> string" where
  "path_filename p = rev (takeWhile (\<lambda>c. c \<noteq> CHR ''/'') (rev p))"

text \<open>
  The position of the dot that starts the extension: the last dot of the filename, unless it is the
  first character or the filename is one of the two dot names.
\<close>

definition ext_pos :: "string \<Rightarrow> nat" where
  "ext_pos f =
     (let e = length (takeWhile (\<lambda>c. c \<noteq> CHR ''.'') (rev f))
      in if f = ''.'' \<or> f = ''..'' \<or> length f \<le> e + 1 then length f else length f - e - 1)"

definition path_stem :: "string \<Rightarrow> string" where
  "path_stem p = (let f = path_filename p in take (ext_pos f) f)"

definition path_extension :: "string \<Rightarrow> string" where
  "path_extension p = (let f = path_filename p in drop (ext_pos f) f)"

definition path_absolute :: "string \<Rightarrow> bool" where
  "path_absolute p \<longleftrightarrow> starts_with p ''/''"

definition path_append :: "string \<Rightarrow> string \<Rightarrow> string" where
  "path_append p q =
     (if path_absolute q then q
      else if path_filename p \<noteq> [] then p @ ''/'' @ q
      else p @ q)"

text \<open>The names between slashes, with empty ones for adjacent slashes.\<close>

fun split_slash :: "string \<Rightarrow> string list" where
  "split_slash [] = [[]]"
| "split_slash (c # cs) =
     (if c = CHR ''/'' then [] # split_slash cs
      else case split_slash cs of [] \<Rightarrow> [[c]] | x # xs \<Rightarrow> (c # x) # xs)"

text \<open>
  Iteration: the root directory if there is one, the names, and an empty last component after a
  trailing slash.
\<close>

definition components :: "string \<Rightarrow> string list" where
  "components p =
     (let names = filter (\<lambda>x. x \<noteq> []) (split_slash p)
      in (if path_absolute p then [''/''] else []) @ names
         @ (if names \<noteq> [] \<and> last p = CHR ''/'' then [[]] else []))"

definition has_root_directory :: "string \<Rightarrow> bool" where
  "has_root_directory p \<longleftrightarrow> path_absolute p"

lemma stem_extension: "path_stem p @ path_extension p = path_filename p"
  by (simp add: path_stem_def path_extension_def Let_def)

lemma path_filename_no_slash: "CHR ''/'' \<notin> set (path_filename p)"
  by (auto simp: path_filename_def dest: set_takeWhileD)

lemma path_filename_id: "CHR ''/'' \<notin> set f \<Longrightarrow> path_filename f = f"
proof -
  assume "CHR ''/'' \<notin> set f"
  then have "takeWhile (\<lambda>c. c \<noteq> CHR ''/'') (rev f) = rev f"
    by (simp only: takeWhile_eq_all_conv) auto
  then show ?thesis by (simp only: path_filename_def rev_rev_ident)
qed

lemma path_filename_append_slash:
  assumes "CHR ''/'' \<notin> set f"
  shows "path_filename (p @ ''/'' @ f) = f"
proof -
  have "takeWhile (\<lambda>c. c \<noteq> CHR ''/'') (rev f @ CHR ''/'' # rev p) = rev f"
    using assms by (auto simp: takeWhile_tail takeWhile_eq_all_conv takeWhile_append2)
  then show ?thesis by (simp add: path_filename_def)
qed

lemma path_append_filename:
  assumes "CHR ''/'' \<notin> set f" and "f \<noteq> []"
  shows "path_filename (path_append p f) = f"
proof -
  have rel: "\<not> path_absolute f"
    using assms by (cases f) (auto simp: path_absolute_def)
  show ?thesis
  proof (cases "path_filename p = []")
    case True
    then have "p = [] \<or> (\<exists>q. p = q @ ''/'')"
      by (cases "rev p") (auto simp: path_filename_def split: if_splits)
    then show ?thesis
      using True rel assms path_filename_append_slash [of f] path_filename_id [of f]
      by (auto simp: path_append_def)
  next
    case False
    with rel show ?thesis
      using path_filename_append_slash [OF assms(1), of p] by (simp add: path_append_def)
  qed
qed

end
