(* ===== verification/Schema.thy ===== *)
theory Schema
  imports Prelude "HOL-Library.Multiset"
begin

text \<open>
  The tables of \<^verbatim>\<open>src/store/schema.fbs\<close> and the converters of \<^verbatim>\<open>src/store/fb_converters.h\<close>.
  A FlatBuffers table is a record, an optional vector an option, a union a datatype with the
  schema's alternatives. The binary format is FlatBuffers' own and not part of the repository: the
  functions that finish a buffer and that read its root are the fields of \<open>fb_lib\<close>, an argument
  of every definition that (de)serializes, and the locale \<open>flatbuffers\<close> states what the code
  relies on: reading the root of a finished buffer gives the table back, and a sorted vector of
  tables is a sorted permutation of its argument.
\<close>

section \<open>Tables and unions\<close>

datatype KeyUnion = KeyUnion_NONE | KeyUnion_ObjectKey | KeyUnion_ResourceKey

datatype LibraryKey = NoKey | ObjectKey int64 | ResourceKey int64

datatype ArtworkType = Poster | Thumbnail

record Artwork =
  aw_ref :: bytes
  aw_type :: ArtworkType

record ResourceRef =
  rr_ref :: bytes
  rr_protocol_info :: bytes

record Resource =
  res_location :: "bytes option"
  res_mime_type :: "bytes option"

datatype ObjectUnion =
    ObjectUnion_NONE
  | MediaContainer "bytes list option"
  | MediaItem "ResourceRef list option"

record MediaObject =
  mo_id :: int64
  mo_parent_id :: int64
  mo_dc_title :: bytes
  mo_upnp_class :: bytes
  mo_artwork :: "Artwork list option"
  mo_dc_date :: int64
  mo_data :: ObjectUnion

text \<open>The underlying values of the generated scoped enums, which logging and the comparator use.\<close>

fun KeyUnion_code :: "KeyUnion \<Rightarrow> nat" where
  "KeyUnion_code KeyUnion_NONE = 0"
| "KeyUnion_code KeyUnion_ObjectKey = 1"
| "KeyUnion_code KeyUnion_ResourceKey = 2"

fun ObjectUnion_code :: "ObjectUnion \<Rightarrow> nat" where
  "ObjectUnion_code ObjectUnion_NONE = 0"
| "ObjectUnion_code (MediaContainer _) = 1"
| "ObjectUnion_code (MediaItem _) = 2"

fun ArtworkType_code :: "ArtworkType \<Rightarrow> nat" where
  "ArtworkType_code Poster = 0"
| "ArtworkType_code Thumbnail = 1"

fun key_type :: "LibraryKey \<Rightarrow> KeyUnion" where
  "key_type NoKey = KeyUnion_NONE"
| "key_type (ObjectKey _) = KeyUnion_ObjectKey"
| "key_type (ResourceKey _) = KeyUnion_ResourceKey"

fun key_id :: "LibraryKey \<Rightarrow> int64" where
  "key_id NoKey = 0"
| "key_id (ObjectKey i) = i"
| "key_id (ResourceKey i) = i"

lemma KeyUnion_code_inj [simp]: "KeyUnion_code a = KeyUnion_code b \<longleftrightarrow> a = b"
  by (cases a; cases b) auto

lemma ArtworkType_code_inj [simp]: "ArtworkType_code a = ArtworkType_code b \<longleftrightarrow> a = b"
  by (cases a; cases b) auto

instantiation KeyUnion :: linorder
begin

definition less_eq_KeyUnion :: "KeyUnion \<Rightarrow> KeyUnion \<Rightarrow> bool" where
  "less_eq_KeyUnion a b \<longleftrightarrow> KeyUnion_code a \<le> KeyUnion_code b"

definition less_KeyUnion :: "KeyUnion \<Rightarrow> KeyUnion \<Rightarrow> bool" where
  "less_KeyUnion a b \<longleftrightarrow> KeyUnion_code a < KeyUnion_code b"

instance
  by standard (auto simp: less_eq_KeyUnion_def less_KeyUnion_def)

end

instantiation ArtworkType :: linorder
begin

definition less_eq_ArtworkType :: "ArtworkType \<Rightarrow> ArtworkType \<Rightarrow> bool" where
  "less_eq_ArtworkType a b \<longleftrightarrow> ArtworkType_code a \<le> ArtworkType_code b"

definition less_ArtworkType :: "ArtworkType \<Rightarrow> ArtworkType \<Rightarrow> bool" where
  "less_ArtworkType a b \<longleftrightarrow> ArtworkType_code a < ArtworkType_code b"

instance
  by standard (auto simp: less_eq_ArtworkType_def less_ArtworkType_def)

end

text \<open>
  The order the store is kept in: by kind of key first, by signed identifier within a kind. It is
  the linear order that \<^verbatim>\<open>fb_comparator::Compare\<close> is proved to decide.
\<close>

instantiation LibraryKey :: linorder
begin

definition less_LibraryKey :: "LibraryKey \<Rightarrow> LibraryKey \<Rightarrow> bool" where
  "less_LibraryKey a b \<longleftrightarrow>
     key_type a < key_type b \<or> key_type a = key_type b \<and> sint (key_id a) < sint (key_id b)"

definition less_eq_LibraryKey :: "LibraryKey \<Rightarrow> LibraryKey \<Rightarrow> bool" where
  "less_eq_LibraryKey a b \<longleftrightarrow> a < b \<or> a = b"

instance
proof
  fix x y z :: LibraryKey
  show "x < y \<longleftrightarrow> x \<le> y \<and> \<not> y \<le> x"
    by (auto simp: less_LibraryKey_def less_eq_LibraryKey_def)
  show "x \<le> x" by (simp add: less_eq_LibraryKey_def)
  show "x \<le> y \<Longrightarrow> y \<le> z \<Longrightarrow> x \<le> z"
    by (auto simp: less_LibraryKey_def less_eq_LibraryKey_def)
  show "x \<le> y \<Longrightarrow> y \<le> x \<Longrightarrow> x = y"
    by (auto simp: less_LibraryKey_def less_eq_LibraryKey_def)
  show "x \<le> y \<or> y \<le> x"
    by (cases x; cases y)
      (auto simp: less_LibraryKey_def less_eq_LibraryKey_def less_KeyUnion_def
        linorder_neq_iff sint_inject [symmetric])
qed

end

section \<open>FlatBuffers\<close>

record fb_lib =
  fb_key :: "LibraryKey \<Rightarrow> bytes"
  fb_key_root :: "bytes \<Rightarrow> LibraryKey"
  fb_object :: "MediaObject \<Rightarrow> bytes"
  fb_object_root :: "bytes \<Rightarrow> MediaObject"
  fb_resource :: "Resource \<Rightarrow> bytes"
  fb_resource_root :: "bytes \<Rightarrow> Resource"
  fb_sorted_tables :: "Artwork list \<Rightarrow> Artwork list"

locale flatbuffers =
  fixes F :: "'m fb_lib_scheme"
  assumes key_root: "fb_key_root F (fb_key F k) = k"
    and object_root: "fb_object_root F (fb_object F ob) = ob"
    and resource_root: "fb_resource_root F (fb_resource F r) = r"
    and sorted_tables_mset: "mset (fb_sorted_tables F aws) = mset aws"
    and sorted_tables_sorted: "sorted (map aw_type (fb_sorted_tables F aws))"
begin

lemmas roots [simp] = key_root object_root resource_root

lemma fb_key_inject [simp]: "fb_key F a = fb_key F b \<longleftrightarrow> a = b"
  using key_root by metis

lemma set_sorted_tables [simp]: "set (fb_sorted_tables F aws) = set aws"
  using sorted_tables_mset [of aws] by (metis set_mset_mset)

lemma sorted_tables_Nil [simp]: "fb_sorted_tables F [] = []"
  using sorted_tables_mset [of "[]"] by simp

end

section \<open>Converters\<close>

definition serialize_key :: "'m fb_lib_scheme \<Rightarrow> LibraryKey \<Rightarrow> bytes" where
  "serialize_key F key = fb_key F key"

text \<open>Strings are stored with a terminating zero byte.\<close>

definition put_string :: "string \<Rightarrow> bytes" where
  "put_string data = data @ [NUL]"

definition put_string_view :: "string \<Rightarrow> bytes" where
  "put_string_view data = take (length data) data @ [NUL]"

text \<open>
  The view drops the last byte. On an empty vector \<^verbatim>\<open>vec.size() - 1\<close> wraps around and the view
  runs past the buffer.
\<close>

definition as_string_view :: "bytes \<Rightarrow> string result" where
  "as_string_view vec = (if vec = [] then Inl Undefined else Inr (take (length vec - 1) vec))"

text \<open>A C string ends at its first zero byte; without one, reading it runs past the buffer.\<close>

definition as_cstring :: "bytes \<Rightarrow> string result" where
  "as_cstring vec =
     (if NUL \<in> set vec then Inr (takeWhile (\<lambda>c. c \<noteq> NUL) vec) else Inl Undefined)"

text \<open>A nested key is stored as its raw bytes, without terminator.\<close>

definition CreateLibraryKey :: "bytes \<Rightarrow> bytes" where
  "CreateLibraryKey key = key"

definition as_library_key :: "bytes \<Rightarrow> bytes" where
  "as_library_key raw = raw"

definition put_vector :: "'a list \<Rightarrow> 'a list option" where
  "put_vector src = (if src = [] then None else Some src)"

definition put_sorted_vector :: "'m fb_lib_scheme \<Rightarrow> Artwork list \<Rightarrow> Artwork list option" where
  "put_sorted_vector F src = (if src = [] then None else Some (fb_sorted_tables F src))"

lemma put_string_view_eq [simp]: "put_string_view s = put_string s"
  by (simp add: put_string_view_def put_string_def)

lemma as_string_view_put_string [simp]: "as_string_view (put_string s) = Inr s"
  by (simp add: as_string_view_def put_string_def)

lemma as_cstring_put_string: "as_cstring (put_string s) = Inr (takeWhile (\<lambda>c. c \<noteq> NUL) s)"
proof -
  have "takeWhile (\<lambda>c. c \<noteq> NUL) (s @ [NUL]) = takeWhile (\<lambda>c. c \<noteq> NUL) s"
    by (induction s) auto
  then show ?thesis by (simp add: as_cstring_def put_string_def)
qed

lemma as_cstring_put_string_id [simp]: "NUL \<notin> set s \<Longrightarrow> as_cstring (put_string s) = Inr s"
  by (simp add: as_cstring_put_string takeWhile_eq_all_conv) blast

lemma library_key_conv [simp]: "as_library_key k = k" "CreateLibraryKey k = k"
  by (simp_all add: as_library_key_def CreateLibraryKey_def)

lemma map_library_key_conv [simp]: "map as_library_key ks = ks" "map CreateLibraryKey ks = ks"
  by (simp_all add: map_idI)

text \<open>Text written by \<open>put_string\<close>: what a reader of the stored vectors may rely on.\<close>

definition stored_string :: "bytes \<Rightarrow> bool" where
  "stored_string v \<longleftrightarrow> v \<noteq> [] \<and> last v = NUL"

lemma stored_put_string [simp]: "stored_string (put_string s)"
  by (simp add: stored_string_def put_string_def)

lemma stored_stringE:
  assumes "stored_string v"
  obtains s where "v = put_string s"
  using assms by (metis append_butlast_last_id put_string_def stored_string_def)

lemma stored_string_cstring: "stored_string v \<Longrightarrow> \<exists>s. as_cstring v = Inr s"
  by (auto elim!: stored_stringE simp: as_cstring_put_string)

end
