(* ===== verification/Titles.thy ===== *)
theory Titles
  imports Libraries Paths Schema
begin

text \<open>
  How the scanner turns a file or folder name into a title and a year, and how it classifies files:
  \<^verbatim>\<open>get_mime_type\<close>, the \<^verbatim>\<open>is_*_type\<close> tests, \<^verbatim>\<open>normalize_title\<close> and \<^verbatim>\<open>classify_artwork\<close> of
  \<^verbatim>\<open>src/scanner/movie_scanner.cpp\<close>. The two regular expressions are written out as functions:
  \<open>replace_wordsep\<close> replaces every match of \<^verbatim>\<open>[\._](?=\w)\<close>, \<open>search_year\<close> finds the leftmost
  match of \<^verbatim>\<open>\(?([12]\d{3})\)?\<close>.
\<close>

section \<open>File types\<close>

definition EXTENSIONS :: "(string \<times> string) list" where
  "EXTENSIONS =
     [(''.mkv'', ''video/x-matroska''),
      (''.mp4'', ''video/mp4''),
      (''.avi'', ''video/x-msvideo''),
      (''.mpg'', ''video/mpeg''),
      (''.jpg'', ''image/jpeg''),
      (''.srt'', ''text/srt'')]"

definition get_mime_type :: "string \<Rightarrow> string option" where
  "get_mime_type path = map_of EXTENSIONS (path_extension path)"

definition is_video_type :: "string \<Rightarrow> bool" where
  "is_video_type mime_type = starts_with mime_type ''video/''"

definition is_image_type :: "string \<Rightarrow> bool" where
  "is_image_type mime_type = starts_with mime_type ''image/''"

definition is_text_type :: "string \<Rightarrow> bool" where
  "is_text_type mime_type = starts_with mime_type ''text/''"

text \<open>Every type of the table is a video, an image or a text, and only one of them.\<close>

lemma get_mime_type_class:
  assumes "get_mime_type path = Some m"
  shows "is_video_type m \<and> \<not> is_image_type m \<and> \<not> is_text_type m
    \<or> \<not> is_video_type m \<and> is_image_type m \<and> \<not> is_text_type m
    \<or> \<not> is_video_type m \<and> \<not> is_image_type m \<and> is_text_type m"
  using assms
  by (auto simp: get_mime_type_def EXTENSIONS_def is_video_type_def is_image_type_def is_text_type_def
      split: if_splits)

definition classify_artwork :: "string \<Rightarrow> ArtworkType option" where
  "classify_artwork name =
     (if contains name ''poster'' then Some Poster
      else if contains name ''thumb'' then Some Thumbnail
      else None)"

section \<open>Titles\<close>

definition is_word :: "char \<Rightarrow> bool" where
  "is_word c \<longleftrightarrow>
     (let n = of_char c :: nat
      in 48 \<le> n \<and> n \<le> 57 \<or> 65 \<le> n \<and> n \<le> 90 \<or> 97 \<le> n \<and> n \<le> 122 \<or> n = 95)"

definition is_sep :: "char \<Rightarrow> bool" where
  "is_sep c \<longleftrightarrow> c = CHR ''.'' \<or> c = CHR ''_''"

fun replace_wordsep :: "string \<Rightarrow> string" where
  "replace_wordsep [] = []"
| "replace_wordsep [c] = [c]"
| "replace_wordsep (c # d # cs) =
     (if is_sep c \<and> is_word d then CHR '' '' else c) # replace_wordsep (d # cs)"

text \<open>\<^verbatim>\<open>[12]\d{3}\<close> at the start of a text.\<close>

fun year_at :: "string \<Rightarrow> string option" where
  "year_at (a # b # c # d # cs) =
     (if (a = CHR ''1'' \<or> a = CHR ''2'') \<and> is_digit b \<and> is_digit c \<and> is_digit d
      then Some [a, b, c, d] else None)"
| "year_at cs = None"

text \<open>
  The whole expression at the start of a text: the bracket is taken when it is there, and given
  back when the rest does not match.
\<close>

fun match_year :: "string \<Rightarrow> string option" where
  "match_year (c # cs) =
     (if c = CHR ''('' then (case year_at cs of Some y \<Rightarrow> Some y | None \<Rightarrow> year_at (c # cs))
      else year_at (c # cs))"
| "match_year [] = None"

text \<open>The position of the leftmost match and its first group.\<close>

fun search_year :: "string \<Rightarrow> (nat \<times> string) option" where
  "search_year [] = None"
| "search_year (c # cs) =
     (case match_year (c # cs) of
        Some y \<Rightarrow> Some (0, y)
      | None \<Rightarrow> map_option (\<lambda>(n, y). (Suc n, y)) (search_year cs))"

definition normalize_title :: "'m util_lib_scheme \<Rightarrow> string \<Rightarrow> string \<times> int" where
  "normalize_title U title =
     (let ntitle = replace_wordsep (c_str title)
      in case search_year ntitle of
           None \<Rightarrow> (algo_trim U ntitle, 0)
         | Some (pos, year_text) \<Rightarrow>
             (algo_trim U (take pos ntitle),
              case parse (x3_int64 U) year_text of Some year \<Rightarrow> year | None \<Rightarrow> 0))"

section \<open>What the regular expressions do\<close>

lemma length_replace_wordsep [simp]: "length (replace_wordsep s) = length s"
  by (induction s rule: replace_wordsep.induct) auto

text \<open>Character by character: a separator goes exactly when a word character follows it.\<close>

lemma replace_wordsep_nth:
  "i < length s \<Longrightarrow>
   replace_wordsep s ! i =
     (if is_sep (s ! i) \<and> Suc i < length s \<and> is_word (s ! Suc i) then CHR '' '' else s ! i)"
proof (induction s arbitrary: i rule: replace_wordsep.induct)
  case (3 c d cs)
  then show ?case by (cases i) auto
qed auto

definition separators_replaced :: "string \<Rightarrow> string \<Rightarrow> bool" where
  "separators_replaced t s \<longleftrightarrow> length s = length t
     \<and> (\<forall>i < length t. s ! i =
          (if (t ! i = CHR ''.'' \<or> t ! i = CHR ''_'') \<and> Suc i < length t \<and> is_word (t ! Suc i) then CHR '' ''
           else t ! i))"

lemma replace_wordsep_separators: "separators_replaced t (replace_wordsep t)"
  by (simp add: separators_replaced_def replace_wordsep_nth is_sep_def)

lemma replace_wordsep_no_sep:
  assumes "Suc i < length s" and "is_sep (replace_wordsep s ! i)"
  shows "\<not> is_word (replace_wordsep s ! Suc i)"
  using assms by (auto simp: replace_wordsep_nth is_sep_def is_word_def Let_def split: if_splits)

lemma year_at_Some:
  "year_at s = Some y \<Longrightarrow> \<exists>r. s = y @ r \<and> length y = 4"
  by (cases s rule: year_at.cases) (auto split: if_splits)

lemma digit_value:
  assumes "is_digit c"
  obtains d where "d < 10" and "c = digit_char d"
proof -
  have "c = char_of (of_char c :: nat)" by simp
  also have "(of_char c :: nat) = 48 + (of_char c - 48) mod 10"
    using assms by (auto simp: is_digit_def)
  finally have "c = digit_char (of_char c - 48)" by (simp only: digit_char_def)
  then show thesis
    by (rule that [rotated]) (use assms in \<open>simp add: is_digit_def less_diff_conv2\<close>)
qed

lemma show_nat_snoc:
  assumes "0 < x" and "d < 10"
  shows "show_nat (10 * x + d) = show_nat x @ [digit_char d]"
proof -
  have "(10 * x + d) div 10 = x" "digit_char (10 * x + d) = digit_char d"
    using assms by (simp_all add: digit_char_def)
  with assms show ?thesis by (subst show_nat.simps) simp
qed

lemma show_nat_4:
  assumes "0 < a" "a < 10" "b < 10" "c < 10" "d < 10"
  shows "show_nat (10 * (10 * (10 * a + b) + c) + d) =
    [digit_char a, digit_char b, digit_char c, digit_char d]"
proof -
  have "show_nat a = [digit_char a]" using assms by (subst show_nat.simps) simp
  moreover have "0 < 10 * a + b" "0 < 10 * (10 * a + b) + c" using assms by simp_all
  ultimately show ?thesis using assms by (simp only: show_nat_snoc append_Cons append_Nil)
qed

text \<open>The group of a match is the decimal text of a year between 1000 and 2999.\<close>

lemma year_at_value:
  assumes "year_at s = Some y"
  obtains n where "1000 \<le> n" and "n \<le> 2999" and "y = show_nat n"
proof -
  obtain a b c d cs where s: "s = a # b # c # d # cs"
    and a: "a = CHR ''1'' \<or> a = CHR ''2''" and dig: "is_digit b" "is_digit c" "is_digit d"
    and y: "y = [a, b, c, d]"
    using assms by (cases s rule: year_at.cases) (auto split: if_splits)
  obtain a' where a': "a' = 1 \<or> a' = 2" "a = digit_char a'"
  proof -
    have "digit_char 1 = CHR ''1''" "digit_char 2 = CHR ''2''" by code_simp+
    with a that [of 1] that [of 2] show thesis by auto
  qed
  obtain b' c' d' where "b' < 10" "c' < 10" "d' < 10"
    and "b = digit_char b'" "c = digit_char c'" "d = digit_char d'"
    using dig digit_value by metis
  then show thesis
    using that [of "10 * (10 * (10 * a' + b') + c') + d'"] show_nat_4 [of a' b' c' d'] a' y by auto
qed

lemma match_year_at:
  "match_year s = Some y \<Longrightarrow> year_at s = Some y \<or> (\<exists>cs. s = CHR ''('' # cs \<and> year_at cs = Some y)"
  by (cases s) (auto split: if_splits option.splits)

lemma match_year_None: "match_year s = None \<Longrightarrow> year_at s = None"
  by (cases s) (auto split: if_splits option.splits)

lemma search_year_Some:
  "search_year s = Some (n, y) \<Longrightarrow>
   n < length s \<and> match_year (drop n s) = Some y
   \<and> (\<forall>i < n. match_year (drop i s) = None)"
proof (induction s arbitrary: n)
  case Nil
  then show ?case by simp
next
  case (Cons c cs)
  show ?case
  proof (cases "match_year (c # cs)")
    case None
    with Cons.prems obtain m where m: "search_year cs = Some (m, y)" "n = Suc m"
      by (auto simp del: match_year.simps)
    with Cons.IH [OF m(1)] None show ?thesis
      by (auto simp del: match_year.simps simp: less_Suc_eq_0_disj)
  next
    case (Some z)
    with Cons.prems show ?thesis by (simp del: match_year.simps)
  qed
qed

lemma search_year_None: "search_year s = None \<Longrightarrow> match_year (drop i s) = None"
proof (induction s arbitrary: i)
  case Nil
  then show ?case by simp
next
  case (Cons c cs)
  then show ?case
    by (cases i) (auto simp del: match_year.simps split: option.splits)
qed

text \<open>
  The specification of a year: the first four characters of a text are the numeral of a number from
  1000 to 2999.
\<close>

definition names_year :: "string \<Rightarrow> nat \<Rightarrow> bool" where
  "names_year s n \<longleftrightarrow> 1000 \<le> n \<and> n \<le> 2999 \<and> take 4 s = show_nat n"

lemma year_at_names_year:
  assumes "names_year s n"
  shows "year_at s = Some (show_nat n)"
proof -
  define a b c d where digits: "a = n div 10 div 10 div 10" "b = n div 10 div 10 mod 10" "c = n div 10 mod 10" "d = n mod 10"
  have n: "1000 \<le> n" "n \<le> 2999" "take 4 s = show_nat n" using assms by (simp_all add: names_year_def)
  have "a = n div 1000" unfolding digits by (simp flip: div_mult2_eq)
  moreover have "1 \<le> n div 1000" using n(1) by (simp add: Suc_le_eq div_greater_zero_iff)
  moreover have "n div 1000 < 3" using n(2) by (intro less_mult_imp_div_less) simp
  ultimately have a: "a = 1 \<or> a = 2" by linarith
  moreover have "b < 10" "c < 10" "d < 10" unfolding digits by simp_all
  moreover have "n = 10 * (10 * (10 * a + b) + c) + d" unfolding digits by (simp only: mult_div_mod_eq)
  ultimately have text4: "show_nat n = [digit_char a, digit_char b, digit_char c, digit_char d]"
    using show_nat_4 [of a b c d] by auto
  have "digit_char 1 = CHR ''1''" "digit_char 2 = CHR ''2''" by code_simp+
  with a have "digit_char a = CHR ''1'' \<or> digit_char a = CHR ''2''" by auto
  moreover have "is_digit (digit_char b)" "is_digit (digit_char c)" "is_digit (digit_char d)"
    using show_nat_digits [of _ n] unfolding text4 by simp_all
  moreover have "s = digit_char a # digit_char b # digit_char c # digit_char d # drop 4 s"
    using n(3) append_take_drop_id [of 4 s] unfolding text4 by simp
  ultimately show ?thesis unfolding text4 by (metis year_at.simps(1))
qed

lemma year_at_iff: "year_at s = Some y \<longleftrightarrow> (\<exists>n. names_year s n \<and> y = show_nat n)"
proof
  assume y: "year_at s = Some y"
  then obtain n where "1000 \<le> n" "n \<le> 2999" "y = show_nat n" by (rule year_at_value)
  with year_at_Some [OF y] show "\<exists>n. names_year s n \<and> y = show_nat n" by (auto simp: names_year_def)
qed (auto simp: year_at_names_year)

lemma year_at_None_iff: "year_at s = None \<longleftrightarrow> (\<forall>n. \<not> names_year s n)"
  using year_at_iff by (metis option.exhaust option.distinct(1))

text \<open>A year inside a prefix of a text is a year of the text.\<close>

lemma year_at_prefix: "year_at s = Some y \<Longrightarrow> year_at (s @ r) = Some y"
  by (cases s rule: year_at.cases) (auto split: if_splits)

definition has_year :: "string \<Rightarrow> bool" where
  "has_year s \<longleftrightarrow> (\<exists>l r n. s = l @ r \<and> names_year r n)"

lemma has_year_iff: "has_year s \<longleftrightarrow> (\<exists>l r. s = l @ r \<and> year_at r \<noteq> None)"
  unfolding has_year_def by (auto simp: year_at_None_iff)

lemma has_year_infix: "has_year t \<Longrightarrow> has_year (l @ t @ r)"
proof -
  assume "has_year t"
  then obtain l' r' y where "t = l' @ r'" "year_at r' = Some y" by (auto simp: has_year_iff)
  then have "l @ t @ r = (l @ l') @ (r' @ r)" "year_at (r' @ r) \<noteq> None"
    using year_at_prefix by fastforce+
  then show ?thesis unfolding has_year_iff by blast
qed

lemma search_year_None_has_year: "search_year s = None \<Longrightarrow> \<not> has_year s"
proof
  assume "search_year s = None" "has_year s"
  then obtain l r where "s = l @ r" "year_at r \<noteq> None" by (auto simp: has_year_iff)
  with search_year_None [OF \<open>search_year s = None\<close>, of "length l"] match_year_None
  show False by simp
qed

lemma search_year_Some_has_year:
  assumes "search_year s = Some (n, y)"
  shows "\<not> has_year (take n s)"
proof
  assume "has_year (take n s)"
  then obtain l r y' where lr: "take n s = l @ r" "year_at r = Some y'" by (auto simp: has_year_iff)
  then have "r \<noteq> []" by auto
  have "length l + length r = length (take n s)" by (simp add: lr(1))
  with \<open>r \<noteq> []\<close> have less: "length l < n" by (cases r) auto
  have "drop (length l) s = r @ drop n s"
  proof -
    have "s = l @ r @ drop n s" using append_take_drop_id [of n s] lr(1) by simp
    then have "drop (length l) s = drop (length l) (l @ r @ drop n s)" by (rule arg_cong)
    then show ?thesis by simp
  qed
  with lr(2) have "year_at (drop (length l) s) \<noteq> None" using year_at_prefix by fastforce
  moreover have "year_at (drop (length l) s) = None"
    using search_year_Some [OF assms] less match_year_None by simp
  ultimately show False by simp
qed

text \<open>A text trimmed at both ends.\<close>

definition trimmed :: "string \<Rightarrow> string \<Rightarrow> bool" where
  "trimmed s t \<longleftrightarrow> (\<exists>l r. s = l @ t @ r \<and> list_all is_space l \<and> list_all is_space r)
     \<and> (t \<noteq> [] \<longrightarrow> \<not> is_space (hd t) \<and> \<not> is_space (last t))"

lemma trimmed_infix: "trimmed s t \<Longrightarrow> \<exists>l r. s = l @ t @ r"
  unfolding trimmed_def by blast

lemma trimmed_has_year: "trimmed s t \<Longrightarrow> has_year t \<Longrightarrow> has_year s"
  using trimmed_infix has_year_infix by metis

text \<open>
  The digits of the leftmost year of a name, with its value, and the end of the title: the bracket
  right before the digits, if there is one, or else the digits.
\<close>

definition year_found :: "string \<Rightarrow> nat \<Rightarrow> nat \<Rightarrow> bool" where
  "year_found s d n \<longleftrightarrow> names_year (drop d s) n \<and> (\<forall>j < d. \<forall>m. \<not> names_year (drop j s) m)"

lemma year_found_iff:
  assumes "1000 \<le> n" and "n \<le> 2999" and "year_at (drop d s) = Some (show_nat n)"
    and "\<And>j. j < d \<Longrightarrow> year_at (drop j s) = None"
  shows "year_found s d n"
  using assms year_at_Some [OF assms(3)] by (auto simp: year_found_def names_year_def year_at_None_iff)

definition title_end :: "string \<Rightarrow> nat \<Rightarrow> nat" where
  "title_end s d = (if 0 < d \<and> s ! (d - 1) = CHR ''('' then d - 1 else d)"

lemma match_year_bracket: "year_at cs = Some y \<Longrightarrow> match_year (CHR ''('' # cs) = Some y"
  by simp

lemma search_year_found:
  assumes "search_year s = Some (i, y)"
  obtains d n where "year_found s d n" and "y = show_nat n" and "i = title_end s d"
proof -
  note found = search_year_Some [OF assms]
  from found match_year_at obtain n where n: "1000 \<le> n" "n \<le> 2999" "y = show_nat n"
    using year_at_value by metis
  from found have "match_year (drop i s) = Some y" by simp
  from match_year_at [OF this] show thesis
  proof
    assume digits: "year_at (drop i s) = Some y"
    have "s ! (i - 1) \<noteq> CHR ''(''" if "0 < i"
    proof
      assume "s ! (i - 1) = CHR ''(''"
      moreover have "i - 1 < length s" using found by auto
      ultimately have "drop (i - 1) s = CHR ''('' # drop i s"
        using Cons_nth_drop_Suc [of "i - 1" s] that by simp
      with match_year_bracket [OF digits] have "match_year (drop (i - 1) s) \<noteq> None" by simp
      with found that show False by simp
    qed
    with digits n found match_year_None show thesis
      by (intro that [of i n]) (auto simp: title_end_def intro!: year_found_iff)
  next
    assume "\<exists>cs. drop i s = CHR ''('' # cs \<and> year_at cs = Some y"
    then obtain cs where cs: "drop i s = CHR ''('' # cs" "year_at cs = Some y" by blast
    with found have "s ! i = CHR ''(''" "drop (Suc i) s = cs"
      using Cons_nth_drop_Suc [of i s] by simp_all
    moreover have "year_at (drop j s) = None" if "j < Suc i" for j
    proof (cases "j = i")
      case True
      with cs(1) show ?thesis by (cases cs rule: year_at.cases) auto
    next
      case False
      with that found match_year_None show ?thesis by simp
    qed
    ultimately show thesis
      using n cs(2) by (intro that [of "Suc i" n]) (auto simp: title_end_def intro!: year_found_iff)
  qed
qed

lemma year_found_has_year: "year_found s d n \<Longrightarrow> has_year s"
  unfolding year_found_def has_year_def by (metis append_take_drop_id)

context util
begin

lemma trimmed_trim: "trimmed s (algo_trim U s)"
  using trim_substring trim_ends by (simp add: trimmed_def)

lemma normalize_title_found:
  assumes "has_year (replace_wordsep (c_str t))"
  obtains d n where "year_found (replace_wordsep (c_str t)) d n" and "snd (normalize_title U t) = int n"
    and "trimmed (take (title_end (replace_wordsep (c_str t)) d) (replace_wordsep (c_str t))) (fst (normalize_title U t))"
    and "\<not> has_year (take (title_end (replace_wordsep (c_str t)) d) (replace_wordsep (c_str t)))"
proof -
  let ?s = "replace_wordsep (c_str t)"
  obtain i y where s: "search_year ?s = Some (i, y)"
    using assms search_year_None_has_year by (cases "search_year ?s") auto
  obtain d n where d: "year_found ?s d n" "y = show_nat n" "i = title_end ?s d" by (rule search_year_found [OF s])
  have "parse (x3_int64 U) y = Some (int n)"
    using parse_int64 [of "int n"] d by (simp add: show_int_def year_found_def names_year_def)
  with that [OF d(1)] s trimmed_trim search_year_Some_has_year [OF s] d(3) show thesis
    by (simp add: normalize_title_def Let_def)
qed

lemma normalize_title_plain:
  assumes "\<not> has_year (replace_wordsep (c_str t))"
  shows "snd (normalize_title U t) = 0" and "trimmed (replace_wordsep (c_str t)) (fst (normalize_title U t))"
proof -
  have "search_year (replace_wordsep (c_str t)) = None"
  proof (cases "search_year (replace_wordsep (c_str t))")
    case (Some p)
    then obtain d n where "year_found (replace_wordsep (c_str t)) d n"
      using search_year_found by (cases p) blast
    with assms year_found_has_year show ?thesis by simp
  qed
  with trimmed_trim show "snd (normalize_title U t) = 0" "trimmed (replace_wordsep (c_str t)) (fst (normalize_title U t))"
    by (simp_all add: normalize_title_def)
qed

end

end
