(* ===== verification/StdMap.thy ===== *)
theory StdMap
  imports Prelude
begin

text \<open>
  \<^verbatim>\<open>std::map\<close> as the scanner uses it: an association list in ascending key order with
  \<^verbatim>\<open>emplace\<close> (which keeps an existing entry), \<^verbatim>\<open>find\<close>, \<^verbatim>\<open>lower_bound\<close> and iteration. The
  locale \<open>ordered_map\<close> is the interface the scanner's loops rely on; over string keys it gives
  the lemma that a loop from \<^verbatim>\<open>lower_bound(prefix)\<close> up to the first key without the prefix
  visits exactly the keys with the prefix.
\<close>

section \<open>The map\<close>

type_synonym ('k, 'v) std_map = "('k \<times> 'v) list"

fun emplace :: "'k::linorder \<Rightarrow> 'v \<Rightarrow> ('k, 'v) std_map \<Rightarrow> ('k, 'v) std_map" where
  "emplace k v [] = [(k, v)]"
| "emplace k v ((k', v') # m) =
     (if k < k' then (k, v) # (k', v') # m
      else if k = k' then (k', v') # m
      else (k', v') # emplace k v m)"

definition map_find :: "'k::linorder \<Rightarrow> ('k, 'v) std_map \<Rightarrow> 'v option" where
  "map_find k m = map_of m k"

text \<open>The entries an iterator visits from \<^verbatim>\<open>lower_bound(k)\<close> to the end.\<close>

definition lower_bound :: "'k::linorder \<Rightarrow> ('k, 'v) std_map \<Rightarrow> ('k \<times> 'v) list" where
  "lower_bound k m = dropWhile (\<lambda>e. fst e < k) m"

definition map_sorted :: "('k::linorder, 'v) std_map \<Rightarrow> bool" where
  "map_sorted m \<longleftrightarrow> sorted_wrt (\<lambda>a b. fst a < fst b) m"

lemma map_sorted_simps [simp]:
  "map_sorted []"
  "map_sorted (e # m) \<longleftrightarrow> (\<forall>x \<in> set m. fst e < fst x) \<and> map_sorted m"
  by (simp_all add: map_sorted_def)

section \<open>The interface\<close>

locale ordered_map =
  fixes insert_new :: "'k::linorder \<Rightarrow> 'v \<Rightarrow> 'm \<Rightarrow> 'm"
    and lookup :: "'k \<Rightarrow> 'm \<Rightarrow> 'v option"
    and from_key :: "'k \<Rightarrow> 'm \<Rightarrow> ('k \<times> 'v) list"
    and inorder :: "'m \<Rightarrow> ('k \<times> 'v) list"
    and invar :: "'m \<Rightarrow> bool"
  assumes sorted_inorder: "invar m \<Longrightarrow> sorted_wrt (\<lambda>a b. fst a < fst b) (inorder m)"
    and lookup_inorder: "invar m \<Longrightarrow> lookup k m = map_of (inorder m) k"
    and from_key_inorder: "invar m \<Longrightarrow> from_key k m = filter (\<lambda>e. k \<le> fst e) (inorder m)"
    and insert_lookup: "invar m \<Longrightarrow>
        lookup k' (insert_new k v m) =
          (if k' = k \<and> lookup k m = None then Some v else lookup k' m)"
    and insert_invar: "invar m \<Longrightarrow> invar (insert_new k v m)"
begin

lemma distinct_keys: "invar m \<Longrightarrow> distinct (map fst (inorder m))"
proof -
  have "distinct (map fst es)" if "sorted_wrt (\<lambda>a b. fst a < fst b) es" for es :: "('k \<times> 'v) list"
    using that by (induction es) auto
  then show "invar m \<Longrightarrow> distinct (map fst (inorder m))" using sorted_inorder by blast
qed

lemma member_lookup: "invar m \<Longrightarrow> (k, v) \<in> set (inorder m) \<longleftrightarrow> lookup k m = Some v"
  using distinct_keys [of m] by (simp add: lookup_inorder)

lemma insert_member:
  assumes "invar m"
  shows "(k', w) \<in> set (inorder (insert_new k v m)) \<longleftrightarrow>
    (k', w) \<in> set (inorder m) \<or> k' = k \<and> w = v \<and> lookup k m = None"
  using assms by (auto simp: member_lookup insert_invar insert_lookup split: if_splits)

end

lemma emplace_set:
  "map_sorted m \<Longrightarrow> set (emplace k v m) = (if k \<in> fst ` set m then set m else insert (k, v) (set m))"
proof (induction m)
  case Nil
  then show ?case by simp
next
  case (Cons e m)
  obtain k' v' where e: "e = (k', v')" by (cases e)
  consider "k < k'" | "k = k'" | "k' < k" by fastforce
  then show ?case
  proof cases
    case 1
    then have "k \<notin> fst ` set m" using Cons.prems e by fastforce
    with 1 e show ?thesis by auto
  qed (use Cons e in auto)
qed

lemma map_sorted_emplace: "map_sorted m \<Longrightarrow> map_sorted (emplace k v m)"
proof (induction m)
  case Nil
  then show ?case by simp
next
  case (Cons e m)
  have "\<forall>x \<in> set (emplace k v m). fst e < fst x" if "fst e < k"
    using Cons.prems that by (auto simp: emplace_set)
  with Cons show ?case by (cases e) (auto dest: order.strict_trans)
qed

lemma map_of_emplace:
  "map_sorted m \<Longrightarrow>
   map_of (emplace k v m) k' = (if k' = k \<and> map_of m k = None then Some v else map_of m k')"
proof (induction m)
  case Nil
  then show ?case by simp
next
  case (Cons e m)
  have "map_of m k = None" if "k < fst e"
    using Cons.prems that by (fastforce simp: map_of_eq_None_iff)
  with Cons show ?case by (cases e) auto
qed

lemma lower_bound_filter: "map_sorted m \<Longrightarrow> lower_bound k m = filter (\<lambda>e. k \<le> fst e) m"
proof (induction m)
  case Nil
  then show ?case by (simp add: lower_bound_def)
next
  case (Cons e m)
  show ?case
  proof (cases "fst e < k")
    case True
    with Cons show ?thesis by (simp add: lower_bound_def)
  next
    case False
    with Cons.prems have "filter (\<lambda>x. k \<le> fst x) m = m"
      by (auto simp: filter_id_conv intro: order.trans less_imp_le)
    with False show ?thesis by (simp add: lower_bound_def)
  qed
qed

interpretation std_map: ordered_map emplace map_find lower_bound "\<lambda>m. m" map_sorted
  by unfold_locales
    (simp_all add: map_sorted_def [symmetric] map_find_def lower_bound_filter map_of_emplace map_sorted_emplace)

section \<open>Prefix ranges\<close>

lemma starts_with_le: "starts_with s p \<Longrightarrow> p \<le> s"
  by (induction s p rule: starts_with.induct) auto

lemma starts_with_convex:
  "p \<le> s \<Longrightarrow> s \<le> t \<Longrightarrow> starts_with t p \<Longrightarrow> starts_with s p"
proof (induction t p arbitrary: s rule: starts_with.induct)
  case (3 x xs c cs)
  then show ?case by (cases s) auto
qed auto

locale string_map = ordered_map insert_new lookup from_key inorder invar
  for insert_new :: "string \<Rightarrow> 'v \<Rightarrow> 'm \<Rightarrow> 'm"
    and lookup from_key inorder invar
begin

lemma takeWhile_prefix:
  "sorted_wrt (\<lambda>a b. fst a < fst b) es \<Longrightarrow> \<forall>e \<in> set es. p \<le> fst e \<Longrightarrow>
   takeWhile (\<lambda>e. starts_with (fst e) p) es = filter (\<lambda>e. starts_with (fst e) p) es"
  for es :: "(string \<times> 'v) list"
proof (induction es)
  case Nil
  then show ?case by simp
next
  case (Cons e es)
  have "\<not> starts_with (fst x) p" if "\<not> starts_with (fst e) p" "x \<in> set es" for x
    using starts_with_convex [of p "fst e" "fst x"] Cons.prems that by (auto simp: less_imp_le)
  with Cons show ?case by (auto simp: filter_empty_conv)
qed

text \<open>The range loop from the lower bound of a prefix visits the keys with that prefix.\<close>

lemma prefix_range:
  assumes "invar m"
  shows "takeWhile (\<lambda>e. starts_with (fst e) p) (from_key p m) =
    filter (\<lambda>e. starts_with (fst e) p) (inorder m)"
proof -
  have "takeWhile (\<lambda>e. starts_with (fst e) p) (from_key p m) =
      filter (\<lambda>e. starts_with (fst e) p) (filter (\<lambda>e. p \<le> fst e) (inorder m))"
    using sorted_inorder [OF assms]
    by (simp add: from_key_inorder [OF assms] takeWhile_prefix sorted_wrt_filter)
  also have "\<dots> = filter (\<lambda>e. starts_with (fst e) p) (inorder m)"
    by (auto simp: filter_filter intro!: filter_cong starts_with_le)
  finally show ?thesis .
qed

end

interpretation name_map: string_map emplace map_find lower_bound "\<lambda>m. m" map_sorted
  by unfold_locales

end
