(* ===== verification/LevelDB.thy ===== *)
theory LevelDB
  imports Schema
begin

text \<open>
  The interface of LevelDB as \<^verbatim>\<open>src/store/store_service.cpp\<close> uses it. LevelDB is not part of the
  repository: its operations are the fields of \<open>store_lib\<close>, an argument of the store's definitions,
  and the locale \<open>leveldb\<close> states the documented behaviour the code relies on, over three
  abstraction functions: the entries of a database in comparator order, the snapshot an iterator
  walks over, and its position in it (the length of the snapshot when the iterator is not valid).
  The comparator is the client's obligation: the locale \<open>key_comparator\<close> is what LevelDB asks of it.
\<close>

section \<open>Operations\<close>

datatype 'db open_status =
    OpenOk 'db
  | OpenInvalidArgument string
  | OpenFailed string

text \<open>
  \<open>ldb_open\<close> takes the options \<^verbatim>\<open>create_if_missing\<close>, \<^verbatim>\<open>error_if_exists\<close> and the path;
  \<open>ldb_write\<close> applies a batch of puts and returns the text of a failed status. A single
  \<^verbatim>\<open>Put\<close> is a batch of one, as LevelDB defines it.
\<close>

record ('db, 'it) store_lib = fb_lib +
  ldb_open :: "bool \<Rightarrow> bool \<Rightarrow> string \<Rightarrow> 'db open_status"
  ldb_write :: "(bytes \<times> bytes) list \<Rightarrow> 'db \<Rightarrow> string option \<times> 'db"
  ldb_new_iterator :: "'db \<Rightarrow> 'it"
  ldb_seek :: "bytes \<Rightarrow> 'it \<Rightarrow> 'it"
  ldb_seek_to_last :: "'it \<Rightarrow> 'it"
  ldb_prev :: "'it \<Rightarrow> 'it"
  ldb_valid :: "'it \<Rightarrow> bool"
  ldb_key :: "'it \<Rightarrow> bytes"
  ldb_value :: "'it \<Rightarrow> bytes"

section \<open>Comparators\<close>

locale key_comparator =
  fixes cmp :: "'k \<Rightarrow> 'k \<Rightarrow> int"
  assumes cmp_refl: "cmp x x = 0"
    and cmp_swap: "cmp x y < 0 \<longleftrightarrow> 0 < cmp y x"
    and cmp_trans: "cmp x y < 0 \<Longrightarrow> cmp y z < 0 \<Longrightarrow> cmp x z < 0"
    and cmp_cong: "cmp x y = 0 \<Longrightarrow> cmp x z < 0 \<longleftrightarrow> cmp y z < 0"

fun upd_entry :: "('k \<Rightarrow> 'k \<Rightarrow> int) \<Rightarrow> 'k \<times> 'v \<Rightarrow> ('k \<times> 'v) list \<Rightarrow> ('k \<times> 'v) list" where
  "upd_entry cmp kv [] = [kv]"
| "upd_entry cmp kv (e # es) =
     (if cmp (fst kv) (fst e) < 0 then kv # e # es
      else if cmp (fst kv) (fst e) = 0 then kv # es
      else e # upd_entry cmp kv es)"

text \<open>A batch is applied in the order of its puts.\<close>

definition apply_batch ::
  "('k \<Rightarrow> 'k \<Rightarrow> int) \<Rightarrow> ('k \<times> 'v) list \<Rightarrow> ('k \<times> 'v) list \<Rightarrow> ('k \<times> 'v) list" where
  "apply_batch cmp batch es = fold (upd_entry cmp) batch es"

definition ascending :: "('k \<Rightarrow> 'k \<Rightarrow> int) \<Rightarrow> ('k \<times> 'v) list \<Rightarrow> bool" where
  "ascending cmp es \<longleftrightarrow> sorted_wrt (\<lambda>a b. cmp (fst a) (fst b) < 0) es"

lemma ascending_simps [simp]:
  "ascending cmp []"
  "ascending cmp (e # es) \<longleftrightarrow> (\<forall>x \<in> set es. cmp (fst e) (fst x) < 0) \<and> ascending cmp es"
  by (simp_all add: ascending_def)

text \<open>The position of the first entry that is not less than a key.\<close>

definition lower_pos :: "('k \<Rightarrow> 'k \<Rightarrow> int) \<Rightarrow> 'k \<Rightarrow> ('k \<times> 'v) list \<Rightarrow> nat" where
  "lower_pos cmp k es = length (takeWhile (\<lambda>e. cmp (fst e) k < 0) es)"

lemma lower_pos_simps [simp]:
  "lower_pos cmp k [] = 0"
  "lower_pos cmp k (e # es) = (if cmp (fst e) k < 0 then Suc (lower_pos cmp k es) else 0)"
  by (simp_all add: lower_pos_def)

lemma lower_pos_le: "lower_pos cmp k es \<le> length es"
  by (simp add: lower_pos_def length_takeWhile_le)

lemma lower_pos_before: "i < lower_pos cmp k es \<Longrightarrow> cmp (fst (es ! i)) k < 0"
  by (induction es arbitrary: i) (auto simp: nth_Cons split: nat.splits if_splits)

lemma lower_pos_at: "lower_pos cmp k es < length es \<Longrightarrow> \<not> cmp (fst (es ! lower_pos cmp k es)) k < 0"
  unfolding lower_pos_def by (rule nth_length_takeWhile)

context key_comparator
begin

lemma cmp_eq_sym: "cmp x y = 0 \<longleftrightarrow> cmp y x = 0"
  using cmp_swap [of x y] cmp_swap [of y x] by linarith

lemma cmp_less_irrefl: "\<not> cmp x x < 0"
  by (simp add: cmp_refl)

lemma set_upd_entry:
  "ascending cmp es \<Longrightarrow>
   set (upd_entry cmp kv es) = insert kv {e \<in> set es. cmp (fst kv) (fst e) \<noteq> 0}"
proof (induction es)
  case Nil
  then show ?case by simp
next
  case (Cons e es)
  have less: "cmp (fst e) (fst x) < 0" if "x \<in> set es" for x
    using Cons.prems that by simp
  consider "cmp (fst kv) (fst e) < 0" | "cmp (fst kv) (fst e) = 0" | "0 < cmp (fst kv) (fst e)"
    by linarith
  then show ?case
  proof cases
    case 1
    then have "cmp (fst kv) (fst x) < 0" if "x \<in> set es" for x
      using cmp_trans less that by blast
    with 1 show ?thesis by (auto dest: less_imp_neq)
  next
    case 2
    then have "cmp (fst kv) (fst x) < 0" if "x \<in> set es" for x
      using cmp_cong less that by blast
    with 2 show ?thesis by (auto dest: less_imp_neq)
  next
    case 3
    with Cons show ?thesis by auto
  qed
qed

lemma ascending_upd_entry:
  "ascending cmp es \<Longrightarrow> ascending cmp (upd_entry cmp kv es)"
proof (induction es)
  case Nil
  then show ?case by simp
next
  case (Cons e es)
  have less: "cmp (fst e) (fst x) < 0" if "x \<in> set es" for x
    using Cons.prems that by simp
  consider "cmp (fst kv) (fst e) < 0" | "cmp (fst kv) (fst e) = 0" | "0 < cmp (fst kv) (fst e)"
    by linarith
  then show ?case
  proof cases
    case 1
    with less Cons.prems show ?thesis by (auto intro: cmp_trans)
  next
    case 2
    with less Cons.prems show ?thesis by (auto simp: cmp_cong [OF 2])
  next
    case 3
    then have "cmp (fst e) (fst kv) < 0" by (simp add: cmp_swap)
    with 3 less Cons show ?thesis by (auto simp: set_upd_entry)
  qed
qed

lemma ascending_apply_batch: "ascending cmp es \<Longrightarrow> ascending cmp (apply_batch cmp batch es)"
  by (induction batch arbitrary: es) (auto simp: apply_batch_def ascending_upd_entry)

lemma ascending_distinct: "ascending cmp es \<Longrightarrow> distinct (map fst es)"
  by (induction es) (auto simp: cmp_less_irrefl dest: bspec)

lemma lower_pos_member:
  assumes "ascending cmp es" and "(k, v) \<in> set es"
  shows "lower_pos cmp k es < length es \<and> es ! lower_pos cmp k es = (k, v)"
  using assms
proof (induction es)
  case Nil
  then show ?case by simp
next
  case (Cons e es)
  then show ?case by (cases "e = (k, v)") (auto simp: cmp_refl)
qed

end

section \<open>What the store relies on\<close>

locale leveldb = key_comparator cmp
  for cmp :: "bytes \<Rightarrow> bytes \<Rightarrow> int" +
  fixes S :: "('db, 'it, 'm) store_lib_scheme"
    and entries :: "'db \<Rightarrow> (bytes \<times> bytes) list"
    and snapshot :: "'it \<Rightarrow> (bytes \<times> bytes) list"
    and pos :: "'it \<Rightarrow> nat"
  assumes open_ascending: "ldb_open S create excl path = OpenOk db \<Longrightarrow> ascending cmp (entries db)"
    and open_new: "ldb_open S True True path = OpenOk db \<Longrightarrow> entries db = []"
    and write_ok: "ldb_write S batch db = (None, db') \<Longrightarrow> entries db' = apply_batch cmp batch (entries db)"
    and write_failed: "ldb_write S batch db = (Some msg, db') \<Longrightarrow> entries db' = entries db"
    and new_iterator: "snapshot (ldb_new_iterator S db) = entries db"
    and seek_snapshot: "snapshot (ldb_seek S k it) = snapshot it"
    and seek_pos: "pos (ldb_seek S k it) = lower_pos cmp k (snapshot it)"
    and last_snapshot: "snapshot (ldb_seek_to_last S it) = snapshot it"
    and last_pos: "pos (ldb_seek_to_last S it) = length (snapshot it) - 1"
    and prev_snapshot: "snapshot (ldb_prev S it) = snapshot it"
    and prev_pos: "pos it < length (snapshot it) \<Longrightarrow>
        pos (ldb_prev S it) = (if pos it = 0 then length (snapshot it) else pos it - 1)"
    and valid: "ldb_valid S it \<longleftrightarrow> pos it < length (snapshot it)"
    and key: "pos it < length (snapshot it) \<Longrightarrow> ldb_key S it = fst (snapshot it ! pos it)"
    and val: "pos it < length (snapshot it) \<Longrightarrow> ldb_value S it = snd (snapshot it ! pos it)"
begin

lemmas iterator_simps [simp] =
  new_iterator seek_snapshot seek_pos last_snapshot last_pos prev_snapshot valid

text \<open>
  Seeking and comparing the key bytes, the store's way of reading one entry, is a lookup in the
  snapshot.
\<close>

lemma seek_hit:
  assumes "ascending cmp (snapshot it)" and "(k, v) \<in> set (snapshot it)"
  shows "ldb_valid S (ldb_seek S k it) \<and> ldb_key S (ldb_seek S k it) = k
    \<and> ldb_value S (ldb_seek S k it) = v"
  using lower_pos_member [OF assms] by (simp add: key val)

lemma seek_found:
  assumes "ldb_valid S (ldb_seek S k it)" and "ldb_key S (ldb_seek S k it) = k"
  shows "(k, ldb_value S (ldb_seek S k it)) \<in> set (snapshot it)"
  using assms by (simp add: key val) (metis nth_mem prod.collapse)

lemma seek_lookup:
  assumes "ascending cmp (snapshot it)"
  shows "(if ldb_valid S (ldb_seek S k it) \<and> ldb_key S (ldb_seek S k it) = k
            then Some (ldb_value S (ldb_seek S k it)) else None) = map_of (snapshot it) k"
proof (cases "map_of (snapshot it) k")
  case None
  then have "(k, v) \<notin> set (snapshot it)" for v by (force simp: map_of_eq_None_iff)
  with None show ?thesis using seek_found by auto
next
  case (Some v)
  with seek_hit [OF assms map_of_SomeD [OF Some]] show ?thesis by simp
qed

end

end
