(* ===== verification/Store.thy ===== *)
theory Store
  imports LevelDB
begin

text \<open>
  The media library's store, \<^verbatim>\<open>src/store/store_service.h\<close> and \<^verbatim>\<open>store_service.cpp\<close>: the key
  comparator, opening and initializing the database, the next free identifier of a kind of key,
  (de)serialization of containers, \<^verbatim>\<open>put_items\<close>, listings and their cursor, and resource lookup.
  The database is passed explicitly; an operation that may throw returns its result beside the
  database it leaves.
\<close>

section \<open>The key comparator\<close>

datatype strong_ordering = ord_less | ord_equivalent | ord_greater

fun ordering_to_int :: "strong_ordering \<Rightarrow> int" where
  "ordering_to_int ord_less = -1"
| "ordering_to_int ord_greater = 1"
| "ordering_to_int ord_equivalent = 0"

definition spaceship :: "int \<Rightarrow> int \<Rightarrow> strong_ordering" where
  "spaceship a b = (if a < b then ord_less else if b < a then ord_greater else ord_equivalent)"

text \<open>\<^verbatim>\<open>operator<=>\<close> of the generated key structs, on their signed identifiers.\<close>

definition compare_ObjectKey :: "int64 \<Rightarrow> int64 \<Rightarrow> strong_ordering" where
  "compare_ObjectKey lhs rhs = spaceship (sint lhs) (sint rhs)"

definition compare_ResourceKey :: "int64 \<Rightarrow> int64 \<Rightarrow> strong_ordering" where
  "compare_ResourceKey lhs rhs = spaceship (sint lhs) (sint rhs)"

definition Compare :: "'m fb_lib_scheme \<Rightarrow> bytes \<Rightarrow> bytes \<Rightarrow> int" where
  "Compare F lhs_s rhs_s =
     (let lhs = fb_key_root F lhs_s;
          rhs = fb_key_root F rhs_s;
          cmp = spaceship (int (KeyUnion_code (key_type lhs))) (int (KeyUnion_code (key_type rhs)))
      in if cmp \<noteq> ord_equivalent then ordering_to_int cmp
         else ordering_to_int
           (case key_type lhs of
              KeyUnion_ObjectKey \<Rightarrow> compare_ObjectKey (key_id lhs) (key_id rhs)
            | KeyUnion_ResourceKey \<Rightarrow> compare_ResourceKey (key_id lhs) (key_id rhs)
            | KeyUnion_NONE \<Rightarrow> ord_equivalent))"

text \<open>
  The comparator's name, which LevelDB stores with the database, and its hooks that may shorten keys of
  the index and leave them as they are.
\<close>

definition comparator_name :: string where
  "comparator_name = ''FlatBufferKeyComparator''"

definition FindShortestSeparator :: "bytes \<Rightarrow> bytes \<Rightarrow> bytes" where
  "FindShortestSeparator start limit = start"

definition FindShortSuccessor :: "bytes \<Rightarrow> bytes" where
  "FindShortSuccessor key = key"

section \<open>Containers\<close>

record container_meta =
  cm_id :: int64
  cm_parent_id :: int64
  cm_dc_title :: string
  cm_upnp_class :: string
  cm_artwork :: "(bytes \<times> ArtworkType) list"

definition upnp_container_class :: string where
  "upnp_container_class = ''object.container''"

definition serialize_container :: "'m fb_lib_scheme \<Rightarrow> bytes list \<Rightarrow> container_meta \<Rightarrow> bytes" where
  "serialize_container F contents meta =
     fb_object F
       \<lparr>mo_id = cm_id meta,
        mo_parent_id = cm_parent_id meta,
        mo_dc_title = put_string (cm_dc_title meta),
        mo_upnp_class = put_string (cm_upnp_class meta),
        mo_artwork =
          (if cm_artwork meta = [] then None
           else Some (map (\<lambda>(ref, ty). \<lparr>aw_ref = CreateLibraryKey ref, aw_type = ty\<rparr>) (cm_artwork meta))),
        mo_dc_date = 0,
        mo_data = MediaContainer (Some (map CreateLibraryKey contents))\<rparr>"

definition create_iterator :: "('db, 'it, 'm) store_lib_scheme \<Rightarrow> 'db \<Rightarrow> 'it" where
  "create_iterator S db = ldb_new_iterator S db"

definition read_container_meta :: "MediaObject \<Rightarrow> container_meta result" where
  "read_container_meta media_object =
     bindE (as_string_view (mo_dc_title media_object)) (\<lambda>dc_title.
     bindE (as_string_view (mo_upnp_class media_object)) (\<lambda>upnp_class.
       Inr \<lparr>cm_id = mo_id media_object,
            cm_parent_id = mo_parent_id media_object,
            cm_dc_title = dc_title,
            cm_upnp_class = upnp_class,
            cm_artwork =
              (case mo_artwork media_object of None \<Rightarrow> []
               | Some aws \<Rightarrow> map (\<lambda>item. (as_library_key (aw_ref item), aw_type item)) aws)\<rparr>))"

definition deserialize_container ::
  "('db, 'it, 'm) store_lib_scheme \<Rightarrow> bytes \<Rightarrow> 'it \<Rightarrow> bool
    \<Rightarrow> (bytes list \<times> container_meta option) result" where
  "deserialize_container S key it include_meta =
     (let iter = ldb_seek S key it
      in if \<not> ldb_valid S iter \<or> ldb_key S iter \<noteq> key
         then Inl (RuntimeError ''Container not found'')
         else
           let media_object = fb_object_root S (ldb_value S iter)
           in case mo_data media_object of
                MediaContainer objects \<Rightarrow>
                  bindE (if include_meta
                         then bindE (read_container_meta media_object) (\<lambda>meta. Inr (Some meta))
                         else Inr None) (\<lambda>meta.
                    Inr (case objects of None \<Rightarrow> [] | Some refs \<Rightarrow> map as_library_key refs, meta))
              | other \<Rightarrow>
                  Inl (RuntimeError (''Object is not a container. type='' @
                         show_nat (ObjectUnion_code other))))"

section \<open>Opening\<close>

definition root_container :: container_meta where
  "root_container =
     \<lparr>cm_id = 0, cm_parent_id = -1, cm_dc_title = [], cm_upnp_class = upnp_container_class,
      cm_artwork = []\<rparr>"

text \<open>The result tells whether the database existed, beside the database itself.\<close>

definition open_db :: "('db, 'it, 'm) store_lib_scheme \<Rightarrow> string \<Rightarrow> (bool \<times> 'db) result" where
  "open_db S db_path =
     (case ldb_open S False False db_path of
        OpenOk db \<Rightarrow> Inr (True, db)
      | OpenFailed status \<Rightarrow> Inl (RuntimeError status)
      | OpenInvalidArgument _ \<Rightarrow>
          (case ldb_open S True True db_path of
             OpenInvalidArgument status \<Rightarrow> Inl (RuntimeError status)
           | OpenFailed status \<Rightarrow> Inl (RuntimeError status)
           | OpenOk db \<Rightarrow>
               (case ldb_write S [(serialize_key S (ObjectKey 0),
                                   serialize_container S [] root_container)] db of
                  (None, db') \<Rightarrow> Inr (False, db')
                | (Some _, _) \<Rightarrow> Inl (RuntimeError ''Failed to create root container''))))"

section \<open>Identifiers\<close>

text \<open>
  \<open>mk\<close> is the key type's constructor, \<open>ObjectKey\<close> or \<open>ResourceKey\<close>. Incrementing the largest
  signed identifier is undefined in C++.
\<close>

definition get_next_id ::
  "('db, 'it, 'm) store_lib_scheme \<Rightarrow> (int64 \<Rightarrow> LibraryKey) \<Rightarrow> 'db \<Rightarrow> int64 result" where
  "get_next_id S mk db =
     (let it0 = ldb_seek S (serialize_key S (mk int64_max)) (create_iterator S db);
          it = (if \<not> ldb_valid S it0 then ldb_seek_to_last S it0 else ldb_prev S it0)
      in if \<not> ldb_valid S it then Inr 0
         else
           let key = fb_key_root S (ldb_key S it)
           in if key_type key \<noteq> key_type (mk 0) then Inr 0 else increment (key_id key))"

section \<open>Adding items\<close>

fun put_items_loop ::
  "('db, 'it, 'm) store_lib_scheme \<Rightarrow> int64 \<Rightarrow> bytes list
    \<Rightarrow> (bytes \<times> bytes) list \<times> bytes list \<Rightarrow> ((bytes \<times> bytes) list \<times> bytes list) result" where
  "put_items_loop S parent [] (batch, container_data) = Inr (batch, container_data)"
| "put_items_loop S parent (item_buf # items) (batch, container_data) =
     (let item = fb_object_root S item_buf
      in if mo_parent_id item \<noteq> parent then Inl (LogicError ''Parent mismatch'')
         else
           let key = serialize_key S (ObjectKey (mo_id item))
           in put_items_loop S parent items (batch @ [(key, item_buf)], container_data @ [key]))"

text \<open>A failed write is only logged.\<close>

definition put_items ::
  "('db, 'it, 'm) store_lib_scheme \<Rightarrow> int64 \<Rightarrow> bytes list \<Rightarrow> (int64 \<times> bytes) list
    \<Rightarrow> ('db, unit) proc" where
  "put_items S parent items resources db =
     (let parent_key = serialize_key S (ObjectKey parent)
      in case deserialize_container S parent_key (create_iterator S db) True of
           Inl e \<Rightarrow> (Inl e, db)
         | Inr (_, None) \<Rightarrow> (Inl Undefined, db)
         | Inr (container_data, Some meta) \<Rightarrow>
             (case put_items_loop S parent items
                     (map (\<lambda>(res_key, res_buf). (serialize_key S (ResourceKey res_key), res_buf)) resources,
                      container_data) of
                Inl e \<Rightarrow> (Inl e, db)
              | Inr (batch, contents) \<Rightarrow>
                  (Inr (), snd (ldb_write S
                     (batch @ [(parent_key, serialize_container S contents meta)]) db))))"

section \<open>Listings\<close>

record 'it list_result_view =
  db_it :: 'it
  objects :: "bytes list"

text \<open>
  Reading through the cursor moves the view's iterator, so the iterator it leaves is returned too.
\<close>

definition cursor_read ::
  "('db, 'it, 'm) store_lib_scheme \<Rightarrow> bytes \<Rightarrow> 'it \<Rightarrow> MediaObject result \<times> 'it" where
  "cursor_read S key it =
     (let it' = ldb_seek S key it
      in (if \<not> ldb_valid S it' \<or> ldb_key S it' \<noteq> key
          then Inl (RuntimeError ''DB state is corrupted: non-existing element'')
          else Inr (fb_object_root S (ldb_value S it')),
          it'))"

definition store_list ::
  "('db, 'it, 'm) store_lib_scheme \<Rightarrow> int64 \<Rightarrow> 'db \<Rightarrow> 'it list_result_view result" where
  "store_list S oid db =
     (let it = create_iterator S db
      in bindE (deserialize_container S (serialize_key S (ObjectKey oid)) it False)
           (\<lambda>(objs, _). Inr \<lparr>db_it = it, objects = objs\<rparr>))"

definition store_get ::
  "('db, 'it, 'm) store_lib_scheme \<Rightarrow> int64 \<Rightarrow> 'db \<Rightarrow> 'it list_result_view" where
  "store_get S oid db =
     \<lparr>db_it = create_iterator S db, objects = [serialize_key S (ObjectKey oid)]\<rparr>"

definition get_resource ::
  "('db, 'it, 'm) store_lib_scheme \<Rightarrow> int64 \<Rightarrow> 'db \<Rightarrow> Resource option" where
  "get_resource S rid db =
     (let key_s = serialize_key S (ResourceKey rid);
          it = ldb_seek S key_s (create_iterator S db)
      in if \<not> ldb_valid S it \<or> ldb_key S it \<noteq> key_s then None
         else Some (fb_resource_root S (ldb_value S it)))"

section \<open>The comparator decides the linear order of keys\<close>

lemma Compare_order:
  "Compare F a b =
     (if fb_key_root F a < fb_key_root F b then -1
      else if fb_key_root F a = fb_key_root F b then 0 else 1)"
  by (cases "fb_key_root F a"; cases "fb_key_root F b")
    (auto simp: Compare_def Let_def spaceship_def less_LibraryKey_def less_KeyUnion_def
      compare_ObjectKey_def compare_ResourceKey_def sint_inject)

lemma Compare_neg [simp]: "Compare F a b < 0 \<longleftrightarrow> fb_key_root F a < fb_key_root F b"
  by (simp add: Compare_order)

lemma Compare_zero [simp]: "Compare F a b = 0 \<longleftrightarrow> fb_key_root F a = fb_key_root F b"
  by (simp add: Compare_order)

lemma Compare_pos [simp]: "0 < Compare F a b \<longleftrightarrow> fb_key_root F b < fb_key_root F a"
  by (auto simp: Compare_order)

text \<open>The hooks keep LevelDB's rules for them.\<close>

lemma comparator_hooks:
  "Compare F start limit < 0 \<Longrightarrow>
     0 \<le> Compare F (FindShortestSeparator start limit) start \<and> Compare F (FindShortestSeparator start limit) limit < 0"
  "0 \<le> Compare F (FindShortSuccessor key) key"
  by (simp_all add: FindShortestSeparator_def FindShortSuccessor_def Compare_order)

interpretation fb_comparator: key_comparator "Compare F" for F :: "'m fb_lib_scheme"
  by unfold_locales auto

section \<open>Reading and writing over a sound backend\<close>

definition canonical :: "'m fb_lib_scheme \<Rightarrow> bytes \<Rightarrow> bool" where
  "canonical F k \<longleftrightarrow> (\<exists>lk. lk \<noteq> NoKey \<and> k = fb_key F lk)"

definition sound_entries :: "'m fb_lib_scheme \<Rightarrow> (bytes \<times> bytes) list \<Rightarrow> bool" where
  "sound_entries F es \<longleftrightarrow> ascending (Compare F) es \<and> (\<forall>e \<in> set es. canonical F (fst e))"

locale store_backend = flatbuffers S + leveldb "Compare S" S entries snapshot pos
  for S :: "('db, 'it, 'm) store_lib_scheme"
    and entries :: "'db \<Rightarrow> (bytes \<times> bytes) list"
    and snapshot :: "'it \<Rightarrow> (bytes \<times> bytes) list"
    and pos :: "'it \<Rightarrow> nat"
begin

lemma canonical_root: "canonical S k \<Longrightarrow> fb_key S (fb_key_root S k) = k"
  by (auto simp: canonical_def)

lemma canonical_eq:
  "canonical S k \<Longrightarrow> canonical S k' \<Longrightarrow> fb_key_root S k = fb_key_root S k' \<longleftrightarrow> k = k'"
  using canonical_root by metis

lemma canonical_serialize [simp]:
  "canonical S (serialize_key S (ObjectKey i))" "canonical S (serialize_key S (ResourceKey i))"
  by (auto simp: canonical_def serialize_key_def)

lemma serialize_key_inject [simp]: "serialize_key S a = serialize_key S b \<longleftrightarrow> a = b"
  by (simp add: serialize_key_def)

lemma root_serialize_key [simp]: "fb_key_root S (serialize_key S k) = k"
  by (simp add: serialize_key_def)

lemma map_of_upd_entry:
  assumes "sound_entries S es" and "canonical S k"
  shows "sound_entries S (upd_entry (Compare S) (k, v) es)
    \<and> map_of (upd_entry (Compare S) (k, v) es) = (map_of es)(k \<mapsto> v)"
proof
  let ?es = "upd_entry (Compare S) (k, v) es"
  have asc: "ascending (Compare S) es" using assms by (simp add: sound_entries_def)
  have set: "set ?es = insert (k, v) {e \<in> set es. fst e \<noteq> k}"
    using assms canonical_eq
    by (auto simp: fb_comparator.set_upd_entry [OF asc] sound_entries_def)
  show sound: "sound_entries S ?es"
    using assms fb_comparator.ascending_upd_entry [OF asc] set by (auto simp: sound_entries_def)
  show "map_of ?es = (map_of es)(k \<mapsto> v)"
  proof
    fix k'
    have d: "distinct (map fst es)" "distinct (map fst ?es)"
      using sound assms fb_comparator.ascending_distinct by (auto simp: sound_entries_def)
    show "map_of ?es k' = ((map_of es)(k \<mapsto> v)) k'"
    proof (cases "map_of ?es k'")
      case None
      then have "k' \<noteq> k" "k' \<notin> fst ` set es" by (auto simp: map_of_eq_None_iff set)
      with None show ?thesis by (simp add: map_of_eq_None_iff [THEN iffD2])
    next
      case (Some w)
      then have "(k', w) \<in> set ?es" by (rule map_of_SomeD)
      then have "k' = k \<and> w = v \<or> k' \<noteq> k \<and> (k', w) \<in> set es" by (auto simp: set)
      with Some d show ?thesis by auto
    qed
  qed
qed

lemma map_of_apply_batch:
  assumes "sound_entries S es" and "\<forall>e \<in> set batch. canonical S (fst e)"
  shows "sound_entries S (apply_batch (Compare S) batch es)
    \<and> map_of (apply_batch (Compare S) batch es) = map_of es ++ map_of (rev batch)"
  using assms
proof (induction batch arbitrary: es)
  case Nil
  then show ?case by (simp add: apply_batch_def)
next
  case (Cons e batch)
  obtain k v where e: "e = (k, v)" by (cases e)
  with Cons.prems have "sound_entries S (upd_entry (Compare S) e es)"
    and "map_of (upd_entry (Compare S) e es) = (map_of es)(k \<mapsto> v)"
    using map_of_upd_entry [of es k v] by simp_all
  with Cons.IH [of "upd_entry (Compare S) e es"] Cons.prems(2) e show ?case
    by (simp add: apply_batch_def map_add_upd_left [symmetric] map_add_assoc)
qed

definition sound_db :: "'db \<Rightarrow> bool" where
  "sound_db db \<longleftrightarrow> sound_entries S (entries db)"

lemma write_lookup:
  assumes "sound_db db" and "\<forall>e \<in> set batch. canonical S (fst e)"
    and "ldb_write S batch db = (None, db')"
  shows "sound_db db'" and "map_of (entries db') = map_of (entries db) ++ map_of (rev batch)"
  using assms map_of_apply_batch [of "entries db" batch] write_ok
  by (auto simp: sound_db_def)

lemma iterator_hit:
  assumes "sound_entries S (snapshot it)"
  shows "ldb_valid S (ldb_seek S k it) \<and> ldb_key S (ldb_seek S k it) = k
    \<longleftrightarrow> (\<exists>v. map_of (snapshot it) k = Some v)"
    and "map_of (snapshot it) k = Some v \<Longrightarrow> ldb_value S (ldb_seek S k it) = v"
  using seek_lookup [of it k] assms
  by (cases "map_of (snapshot it) k"; auto simp: sound_entries_def split: if_splits)+

end

end
