(* ===== verification/Scanner.thy ===== *)
theory Scanner
  imports Titles StdMap Store
begin

text \<open>
  The movie scanner, \<^verbatim>\<open>src/scanner/movie_scanner.cpp\<close>: the object composer, which turns one
  video file into a media item with its resources, artwork and subtitles; containers; the scan of
  one directory and of a whole tree. The scanner's state is the store and its three counters; the
  composer's state is threaded beside it. The file system is an argument: the listing of a
  directory, in the order the directory iterator yields it, or nothing when opening it fails.
\<close>

section \<open>Configuration and files\<close>

record movies_library_config =
  use_folder_names :: bool
  use_collections :: bool

record file_info =
  fi_mime_type :: string
  fi_path :: string

datatype file_kind = Directory | RegularFile | OtherFile

type_synonym file_system = "string \<Rightarrow> (string \<times> file_kind) list option"

definition movies_folder_name :: string where
  "movies_folder_name = ''Movies''"

definition upnp_movie_class :: string where
  "upnp_movie_class = ''object.item.videoItem.movie''"

section \<open>The scanner's state\<close>

record 'db scanner =
  sc_store :: 'db
  movies_folder :: int64
  next_resource_id :: int64
  next_object_id :: int64

definition new_scanner :: "'db \<Rightarrow> 'db scanner" where
  "new_scanner db =
     \<lparr>sc_store = db, movies_folder = -1, next_resource_id = -1, next_object_id = -1\<rparr>"

definition next_resource_key :: "('db scanner, int64) proc" where
  "next_resource_key sc =
     (case increment (next_resource_id sc) of
        Inl e \<Rightarrow> (Inl e, sc)
      | Inr n \<Rightarrow> (Inr (next_resource_id sc), sc\<lparr>next_resource_id := n\<rparr>))"

definition next_object_key :: "('db scanner, int64) proc" where
  "next_object_key sc =
     (case increment (next_object_id sc) of
        Inl e \<Rightarrow> (Inl e, sc)
      | Inr n \<Rightarrow> (Inr (next_object_id sc), sc\<lparr>next_object_id := n\<rparr>))"

definition with_store :: "('db, 'a) proc \<Rightarrow> ('db scanner, 'a) proc" where
  "with_store m sc = (case m (sc_store sc) of (r, db) \<Rightarrow> (r, sc\<lparr>sc_store := db\<rparr>))"

definition serialize_resource ::
  "'m fb_lib_scheme \<Rightarrow> file_info \<Rightarrow> ('db scanner, int64 \<times> bytes) proc" where
  "serialize_resource F info =
     bindP next_resource_key (\<lambda>resource_key.
       returnP (resource_key,
         fb_resource F
           \<lparr>res_location = Some (put_string (fi_path info)),
            res_mime_type = Some (put_string_view (fi_mime_type info))\<rparr>))"

section \<open>The object composer\<close>

record object_composer =
  folder_name :: string
  resources :: "(int64 \<times> bytes) list"
  subtitles_map :: "(string, file_info) std_map"
  artwork_map :: "(string, file_info) std_map"
  parent_id :: int64

definition composer_artwork :: "string \<Rightarrow> string \<Rightarrow> object_composer \<Rightarrow> object_composer" where
  "composer_artwork path mime_type oc =
     oc\<lparr>artwork_map := emplace (path_filename path)
            \<lparr>fi_mime_type = mime_type, fi_path = path\<rparr> (artwork_map oc)\<rparr>"

definition composer_subtitles :: "string \<Rightarrow> string \<Rightarrow> object_composer \<Rightarrow> object_composer" where
  "composer_subtitles path mime_type oc =
     oc\<lparr>subtitles_map := emplace (path_filename path)
            \<lparr>fi_mime_type = mime_type, fi_path = path\<rparr> (subtitles_map oc)\<rparr>"

definition on_scanner :: "('s, 'a) proc \<Rightarrow> ('c \<times> 's, 'a) proc" where
  "on_scanner m st = (case m (snd st) of (r, s') \<Rightarrow> (r, (fst st, s')))"

definition store_resource ::
  "'m fb_lib_scheme \<Rightarrow> file_info \<Rightarrow> (object_composer \<times> 'db scanner, bytes) proc" where
  "store_resource F info =
     bindP (on_scanner (serialize_resource F info)) (\<lambda>res st.
       (Inr (serialize_key F (ResourceKey (fst res))),
        ((fst st)\<lparr>resources := resources (fst st) @ [res]\<rparr>, snd st)))"

definition folder_artwork_candidates :: "(string \<times> ArtworkType) list" where
  "folder_artwork_candidates = [(''poster.jpg'', Poster), (''folder.jpg'', Thumbnail)]"

fun find_folder_artwork ::
  "(string, file_info) std_map \<Rightarrow> (string \<times> ArtworkType) list
    \<Rightarrow> (string \<times> file_info) option \<times> ArtworkType" where
  "find_folder_artwork m [] = (None, Thumbnail)"
| "find_folder_artwork m ((candidate, ty) # cs) =
     (case map_find candidate m of
        Some info \<Rightarrow> (Some (candidate, info), ty)
      | None \<Rightarrow> find_folder_artwork m cs)"

definition get_folder_artwork ::
  "object_composer \<Rightarrow> (string \<times> file_info) option \<times> ArtworkType" where
  "get_folder_artwork oc = find_folder_artwork (artwork_map oc) folder_artwork_candidates"

definition CreateResourceRef :: "bytes \<Rightarrow> file_info \<Rightarrow> ResourceRef" where
  "CreateResourceRef key info =
     \<lparr>rr_ref = CreateLibraryKey key,
      rr_protocol_info = put_string (''http-get:*:'' @ fi_mime_type info @ '':*'')\<rparr>"

definition CreateArtwork :: "bytes \<Rightarrow> ArtworkType \<Rightarrow> Artwork" where
  "CreateArtwork key ty = \<lparr>aw_ref = CreateLibraryKey key, aw_type = ty\<rparr>"

text \<open>The loop over the artwork from the lower bound of the prefix, with its break.\<close>

fun artwork_loop ::
  "'m fb_lib_scheme \<Rightarrow> string \<Rightarrow> (string \<times> file_info) list \<Rightarrow> Artwork list
    \<Rightarrow> (object_composer \<times> 'db scanner, Artwork list) proc" where
  "artwork_loop F prefix [] acc = returnP acc"
| "artwork_loop F prefix (art # arts) acc =
     (if \<not> starts_with (fst art) prefix then returnP acc
      else case classify_artwork (drop (length prefix) (fst art)) of
             None \<Rightarrow> artwork_loop F prefix arts acc
           | Some art_type \<Rightarrow>
               bindP (store_resource F (snd art)) (\<lambda>key.
                 artwork_loop F prefix arts (acc @ [CreateArtwork key art_type])))"

fun subtitles_loop ::
  "'m fb_lib_scheme \<Rightarrow> string \<Rightarrow> (string \<times> file_info) list \<Rightarrow> ResourceRef list
    \<Rightarrow> (object_composer \<times> 'db scanner, ResourceRef list) proc" where
  "subtitles_loop F prefix [] acc = returnP acc"
| "subtitles_loop F prefix (sub # subs) acc =
     (if \<not> starts_with (fst sub) prefix then returnP acc
      else bindP (store_resource F (snd sub)) (\<lambda>key.
             subtitles_loop F prefix subs (acc @ [CreateResourceRef key (snd sub)])))"

definition folder_artwork_fallback ::
  "'m fb_lib_scheme \<Rightarrow> object_composer \<Rightarrow> Artwork list
    \<Rightarrow> (object_composer \<times> 'db scanner, Artwork list) proc" where
  "folder_artwork_fallback F oc item_artwork =
     (if item_artwork \<noteq> [] then returnP item_artwork
      else case get_folder_artwork oc of
             (None, _) \<Rightarrow> returnP []
           | (Some folder_artwork, art_type) \<Rightarrow>
               bindP (store_resource F (snd folder_artwork)) (\<lambda>key.
                 returnP [CreateArtwork key art_type]))"

definition resource_prefix_of :: "object_composer \<Rightarrow> string \<Rightarrow> string" where
  "resource_prefix_of oc name = (if folder_name oc = [] then path_stem name else [])"

definition year_date :: "'u util_lib_scheme \<Rightarrow> int \<Rightarrow> int64" where
  "year_date U year = (if year \<noteq> 0 then word_of_int (date_sys_days U year 1 1) else 0)"

definition composed_object ::
  "'m fb_lib_scheme \<Rightarrow> 'u util_lib_scheme \<Rightarrow> object_composer \<Rightarrow> string \<Rightarrow> int64
    \<Rightarrow> ResourceRef list \<Rightarrow> Artwork list \<Rightarrow> MediaObject" where
  "composed_object F U oc name item_id item_resources item_artwork =
     (let prefix = resource_prefix_of oc name;
          (title, year) =
            normalize_title U (if folder_name oc = [] then prefix else folder_name oc)
      in \<lparr>mo_id = item_id,
          mo_parent_id = parent_id oc,
          mo_dc_title = put_string title,
          mo_upnp_class = put_string_view upnp_movie_class,
          mo_artwork = put_sorted_vector F item_artwork,
          mo_dc_date = year_date U year,
          mo_data = MediaItem (Some item_resources)\<rparr>)"

text \<open>\<^verbatim>\<open>object_composer::operator()\<close>.\<close>

definition compose ::
  "'m fb_lib_scheme \<Rightarrow> 'u util_lib_scheme \<Rightarrow> string \<times> file_info
    \<Rightarrow> (object_composer \<times> 'db scanner, bytes) proc" where
  "compose F U p st =
     (let oc = fst st;
          name = fst p;
          info = snd p;
          prefix = resource_prefix_of oc name
      in bindP (store_resource F info) (\<lambda>key.
         bindP (artwork_loop F prefix (lower_bound prefix (artwork_map oc)) []) (\<lambda>art.
         bindP (folder_artwork_fallback F oc art) (\<lambda>item_artwork.
         bindP (subtitles_loop F prefix (lower_bound prefix (subtitles_map oc))
                  [CreateResourceRef key info]) (\<lambda>item_resources.
         bindP (on_scanner next_object_key) (\<lambda>item_id.
           returnP (fb_object F
             (composed_object F U oc name item_id item_resources item_artwork))))))) st)"

fun compose_all ::
  "'m fb_lib_scheme \<Rightarrow> 'u util_lib_scheme \<Rightarrow> (string \<times> file_info) list
    \<Rightarrow> (object_composer \<times> 'db scanner, bytes list) proc" where
  "compose_all F U [] = returnP []"
| "compose_all F U (v # vs) =
     bindP (compose F U v) (\<lambda>buf. bindP (compose_all F U vs) (\<lambda>bufs. returnP (buf # bufs)))"

text \<open>The composer lives as long as the scan of one directory.\<close>

definition run_composer ::
  "(object_composer \<times> 's, 'a) proc \<Rightarrow> object_composer \<Rightarrow> ('s, 'a \<times> object_composer) proc" where
  "run_composer m oc s =
     (case m (oc, s) of
        (Inl e, (_, s')) \<Rightarrow> (Inl e, s')
      | (Inr x, (oc', s')) \<Rightarrow> (Inr (x, oc'), s'))"

section \<open>Containers\<close>

definition create_container ::
  "('db, 'it, 'm) store_lib_scheme \<Rightarrow> string \<Rightarrow> file_info option \<times> ArtworkType \<Rightarrow> int64
    \<Rightarrow> ('db scanner, int64) proc" where
  "create_container S name artwork parent =
     bindP next_object_key (\<lambda>new_id.
     bindP (case fst artwork of
              None \<Rightarrow> returnP ([], [])
            | Some info \<Rightarrow>
                bindP (serialize_resource S info) (\<lambda>res.
                  returnP ([res], [(serialize_key S (ResourceKey (fst res)), snd artwork)])))
       (\<lambda>ra.
     bindP (with_store (put_items S parent
              [serialize_container S []
                 \<lparr>cm_id = new_id, cm_parent_id = parent, cm_dc_title = name,
                  cm_upnp_class = upnp_container_class, cm_artwork = snd ra\<rparr>]
              (fst ra)))
       (\<lambda>_. returnP new_id)))"

text \<open>
  The search of the root's children reads each through the view's cursor; the element found is
  read once more for its identifier.
\<close>

fun find_movies_folder ::
  "('db, 'it, 'm) store_lib_scheme \<Rightarrow> bytes list \<Rightarrow> 'it \<Rightarrow> int64 option result" where
  "find_movies_folder S [] it = Inr None"
| "find_movies_folder S (k # ks) it =
     (case cursor_read S k it of
        (Inl e, _) \<Rightarrow> Inl e
      | (Inr item, it') \<Rightarrow>
          bindE (as_string_view (mo_dc_title item)) (\<lambda>title.
            if title = movies_folder_name
            then bindE (fst (cursor_read S k it')) (\<lambda>found. Inr (Some (mo_id found)))
            else find_movies_folder S ks it'))"

definition movies_folder_object :: "int64 \<Rightarrow> MediaObject" where
  "movies_folder_object new_key =
     \<lparr>mo_id = new_key, mo_parent_id = 0,
      mo_dc_title = put_string_view movies_folder_name,
      mo_upnp_class = put_string_view upnp_container_class,
      mo_artwork = None, mo_dc_date = 0, mo_data = MediaContainer None\<rparr>"

definition get_movies_folder_id ::
  "('db, 'it, 'm) store_lib_scheme \<Rightarrow> ('db scanner, int64) proc" where
  "get_movies_folder_id S sc =
     (if 0 < sint (movies_folder sc) then (Inr (movies_folder sc), sc)
      else case bindE (store_list S 0 (sc_store sc))
                  (\<lambda>view. find_movies_folder S (objects view) (db_it view)) of
             Inl e \<Rightarrow> (Inl e, sc)
           | Inr (Some found) \<Rightarrow> (Inr found, sc\<lparr>movies_folder := found\<rparr>)
           | Inr None \<Rightarrow>
               bindP next_object_key (\<lambda>new_key.
               bindP (with_store (put_items S 0 [fb_object S (movies_folder_object new_key)] []))
                 (\<lambda>_ s. (Inr new_key, s\<lparr>movies_folder := new_key\<rparr>))) sc)"

section \<open>One directory\<close>

type_synonym scan_listing =
  "(string \<times> int64) list \<times> (string, file_info) std_map \<times> object_composer"

fun scan_entry :: "string \<Rightarrow> int64 \<Rightarrow> string \<times> file_kind \<Rightarrow> scan_listing \<Rightarrow> scan_listing" where
  "scan_entry path parent (name, kind) (directories, videos, oc) =
     (let item = path_append path name
      in case kind of
           Directory \<Rightarrow> (directories @ [(item, parent)], videos, oc)
         | OtherFile \<Rightarrow> (directories, videos, oc)
         | RegularFile \<Rightarrow>
             (case get_mime_type item of
                None \<Rightarrow> (directories, videos, oc)
              | Some mime_type \<Rightarrow>
                  if is_video_type mime_type
                  then (directories,
                        emplace (path_filename item)
                          \<lparr>fi_mime_type = mime_type, fi_path = item\<rparr> videos,
                        oc)
                  else if is_image_type mime_type
                  then (directories, videos, composer_artwork item mime_type oc)
                  else if is_text_type mime_type
                  then (directories, videos, composer_subtitles item mime_type oc)
                  else (directories, videos, oc)))"

definition new_composer :: "int64 \<Rightarrow> object_composer" where
  "new_composer parent =
     \<lparr>folder_name = [], resources = [], subtitles_map = [], artwork_map = [], parent_id = parent\<rparr>"

definition scan_listing :: "string \<Rightarrow> int64 \<Rightarrow> (string \<times> file_kind) list \<Rightarrow> scan_listing" where
  "scan_listing path parent items = fold (scan_entry path parent) items ([], [], new_composer parent)"

definition wants_collection :: "scan_listing \<Rightarrow> bool" where
  "wants_collection l =
     (case l of (directories, videos, oc) \<Rightarrow>
        let movies_count = length videos
        in if movies_count = 1 then False
           else if 1 < movies_count then True
           else fst (get_folder_artwork oc) \<noteq> None \<and> directories \<noteq> [])"

definition add_collection ::
  "('db, 'it, 'm) store_lib_scheme \<Rightarrow> string \<Rightarrow> movies_library_config \<Rightarrow> int64 \<Rightarrow> scan_listing
    \<Rightarrow> ('db scanner, (string \<times> int64) list \<times> object_composer) proc" where
  "add_collection S path config parent l =
     (case l of (directories, videos, oc) \<Rightarrow>
        if use_collections config \<and> wants_collection l then
          let artwork = get_folder_artwork oc
          in bindP (create_container S (path_stem path)
                      (map_option snd (fst artwork), snd artwork) parent) (\<lambda>collection_key.
               returnP
                 (if fst artwork \<noteq> None
                  then map (\<lambda>d. (fst d, collection_key)) directories
                  else directories,
                  oc\<lparr>parent_id := collection_key\<rparr>))
        else returnP (directories, oc))"

definition scan_directory ::
  "('db, 'it, 'm) store_lib_scheme \<Rightarrow> 'u util_lib_scheme \<Rightarrow> file_system \<Rightarrow> string
    \<Rightarrow> movies_library_config \<Rightarrow> int64 \<Rightarrow> ('db scanner, (string \<times> int64) list) proc" where
  "scan_directory S U fs path config parent =
     (case fs path of
        None \<Rightarrow> raiseP (FilesystemError path)
      | Some items \<Rightarrow>
          let l = scan_listing path parent items;
              videos = fst (snd l)
          in bindP (add_collection S path config parent l) (\<lambda>dc.
               let directories = fst dc;
                   oc = (if use_folder_names config \<and> length videos = 1
                           then (snd dc)\<lparr>folder_name := path_stem path\<rparr> else snd dc)
               in if videos \<noteq> [] then
                    bindP (run_composer (compose_all S U videos) oc) (\<lambda>bc.
                    bindP (with_store (put_items S (parent_id oc) (fst bc) (resources (snd bc))))
                      (\<lambda>_. returnP directories))
                  else returnP directories))"

section \<open>A tree of directories\<close>

text \<open>
  The loop takes the last directory of the stack and pushes what its scan returns. It need not
  end on a file system with cycles, so it runs on fuel, one unit per directory, and \<open>None\<close> is
  running out of it.
\<close>

fun scan_loop ::
  "('db, 'it, 'm) store_lib_scheme \<Rightarrow> 'u util_lib_scheme \<Rightarrow> file_system \<Rightarrow> movies_library_config
    \<Rightarrow> nat \<Rightarrow> movies_library_config \<Rightarrow> (string \<times> int64) list \<Rightarrow> 'db scanner
    \<Rightarrow> (unit result \<times> 'db scanner) option" where
  "scan_loop S U fs original fuel config [] sc = Some (Inr (), sc)"
| "scan_loop S U fs original 0 config (d # ds) sc = None"
| "scan_loop S U fs original (Suc fuel) config (d # ds) sc =
     (let (path, parent) = last (d # ds)
      in case scan_directory S U fs path config parent sc of
           (Inl e, sc') \<Rightarrow> Some (Inl e, sc')
         | (Inr new_directories, sc') \<Rightarrow>
             scan_loop S U fs original fuel
               (config\<lparr>use_collections := use_collections original\<rparr>)
               (butlast (d # ds) @ new_directories) sc')"

definition scan_all ::
  "('db, 'it, 'm) store_lib_scheme \<Rightarrow> 'u util_lib_scheme \<Rightarrow> file_system \<Rightarrow> nat \<Rightarrow> string
    \<Rightarrow> movies_library_config \<Rightarrow> 'db scanner \<Rightarrow> (unit result \<times> 'db scanner) option" where
  "scan_all S U fs fuel root original sc =
     (case get_next_id S ResourceKey (sc_store sc) of
        Inl e \<Rightarrow> Some (Inl e, sc)
      | Inr r \<Rightarrow>
          let sc1 = sc\<lparr>next_resource_id := r\<rparr>
          in case get_next_id S ObjectKey (sc_store sc1) of
               Inl e \<Rightarrow> Some (Inl e, sc1)
             | Inr n \<Rightarrow>
                 (case get_movies_folder_id S (sc1\<lparr>next_object_id := n\<rparr>) of
                    (Inl e, sc2) \<Rightarrow> Some (Inl e, sc2)
                  | (Inr folder, sc2) \<Rightarrow>
                      scan_loop S U fs original fuel
                        (original\<lparr>use_collections := False\<rparr>) [(root, folder)] sc2))"

end
