(* ===== verification/Config.thy ===== *)
theory Config
  imports Scanner
begin

text \<open>
  The configuration, \<^verbatim>\<open>src/config.cpp\<close> with \<^verbatim>\<open>src/data_config.h\<close>, \<^verbatim>\<open>src/server_config.h\<close>,
  \<^verbatim>\<open>src/store_config.h\<close> and \<^verbatim>\<open>src/logging_config.h\<close>: each section of a parsed TOML file is read
  field by field over the defaults, and what the server section leaves open is derived from the
  host name. The TOML parser, the parser of the command line and the UUID library are outside: the
  parsed table, and the functions in \<open>config_lib\<close> and \<open>command_lib\<close>, are arguments.
\<close>

section \<open>TOML values\<close>

text \<open>A table carries the line it starts at.\<close>

datatype toml =
    TomlBool bool
  | TomlInteger int64
  | TomlString string
  | TomlArray "toml list"
  | TomlTable nat "(string \<times> toml) list"
  | TomlOther

fun toml_bool :: "toml \<Rightarrow> bool result" where
  "toml_bool (TomlBool b) = Inr b"
| "toml_bool _ = Inl (LibraryError ''toml::type_error'')"

fun toml_integer :: "toml \<Rightarrow> int64 result" where
  "toml_integer (TomlInteger i) = Inr i"
| "toml_integer _ = Inl (LibraryError ''toml::type_error'')"

fun toml_string :: "toml \<Rightarrow> string result" where
  "toml_string (TomlString s) = Inr s"
| "toml_string _ = Inl (LibraryError ''toml::type_error'')"

fun toml_array :: "toml \<Rightarrow> toml list result" where
  "toml_array (TomlArray vs) = Inr vs"
| "toml_array _ = Inl (LibraryError ''toml::type_error'')"

fun toml_table :: "toml \<Rightarrow> (string \<times> toml) list result" where
  "toml_table (TomlTable _ t) = Inr t"
| "toml_table _ = Inl (LibraryError ''toml::type_error'')"

text \<open>\<^verbatim>\<open>toml::find<std::string>(value, key)\<close>.\<close>

definition toml_find_string :: "toml \<Rightarrow> string \<Rightarrow> string result" where
  "toml_find_string v key =
     bindE (toml_table v) (\<lambda>t.
       case map_of t key of
         None \<Rightarrow> Inl (LibraryError ''std::out_of_range'')
       | Some x \<Rightarrow> toml_string x)"

fun toml_line :: "toml \<Rightarrow> nat" where
  "toml_line (TomlTable line _) = line"
| "toml_line _ = 0"

section \<open>The configuration\<close>

type_synonym uuid = bytes

definition nil_uuid :: uuid where
  "nil_uuid = replicate 16 NUL"

record server_config =
  sv_uuid :: uuid
  sv_listen_port :: "16 word"
  sv_host_name :: string
  sv_name :: string
  sv_base_url :: string

record logging_config =
  lg_truncate :: bool
  lg_path :: string

record directory_config =
  dir_path :: string
  dir_scanner :: movies_library_config

record config =
  cf_directories :: "directory_config list"
  cf_db_path :: string
  cf_server :: server_config
  cf_logging :: logging_config

definition default_movies_config :: movies_library_config where
  "default_movies_config = \<lparr>use_folder_names = True, use_collections = True\<rparr>"

definition default_server_config :: server_config where
  "default_server_config =
     \<lparr>sv_uuid = nil_uuid, sv_listen_port = 0, sv_host_name = [], sv_name = [], sv_base_url = []\<rparr>"

definition default_config :: config where
  "default_config =
     \<lparr>cf_directories = [], cf_db_path = ''/var/lib/eems/db'', cf_server = default_server_config,
      cf_logging = \<lparr>lg_truncate = False, lg_path = []\<rparr>\<rparr>"

record config_lib =
  uuid_parse :: "string \<Rightarrow> uuid option"
  uuid_name_dns :: "string \<Rightarrow> uuid"
  net_host_name :: string

section \<open>Reading the sections\<close>

definition try_get ::
  "(toml \<Rightarrow> 'a result) \<Rightarrow> (string \<times> toml) list \<Rightarrow> string \<Rightarrow> ('a \<Rightarrow> 's \<Rightarrow> 's result) \<Rightarrow> 's \<Rightarrow> 's result" where
  "try_get get table key func s =
     (case map_of table key of None \<Rightarrow> Inr s | Some v \<Rightarrow> bindE (get v) (\<lambda>x. func x s))"

definition load_movies_config :: "(string \<times> toml) list \<Rightarrow> movies_library_config result" where
  "load_movies_config data =
     try_get toml_bool data ''use_folder_names'' (\<lambda>val c. Inr (c\<lparr>use_folder_names := val\<rparr>))
       default_movies_config"

fun load_data_config :: "toml list \<Rightarrow> directory_config list \<Rightarrow> directory_config list result" where
  "load_data_config [] dirs = Inr dirs"
| "load_data_config (table # tables) dirs =
     bindE (toml_find_string table ''type'') (\<lambda>ty.
     bindE (toml_find_string table ''path'') (\<lambda>path.
       if ty = ''movies''
       then bindE (toml_table table) (\<lambda>t.
              bindE (load_movies_config t) (\<lambda>c.
                load_data_config tables (dirs @ [\<lparr>dir_path = path, dir_scanner = c\<rparr>])))
       else Inl (RuntimeError (''Unknown content type at line '' @ show_nat (toml_line table)))))"

definition load_db_config :: "(string \<times> toml) list \<Rightarrow> string \<Rightarrow> string result" where
  "load_db_config data db_path = try_get toml_string data ''path'' (\<lambda>val _. Inr val) db_path"

text \<open>The port is converted to \<^verbatim>\<open>unsigned short\<close>: modulo \<open>2 ^ 16\<close>.\<close>

definition load_server_config ::
  "'k config_lib_scheme \<Rightarrow> (string \<times> toml) list \<Rightarrow> server_config \<Rightarrow> server_config result" where
  "load_server_config K data config =
     bindE (try_get toml_string data ''uuid''
       (\<lambda>val c. case uuid_parse K val of
                  None \<Rightarrow> Inl (LibraryError ''invalid uuid string'')
                | Some u \<Rightarrow> Inr (c\<lparr>sv_uuid := u\<rparr>)) config)
     (\<lambda>c1. bindE (try_get toml_integer data ''port'' (\<lambda>val c. Inr (c\<lparr>sv_listen_port := ucast val\<rparr>)) c1)
     (\<lambda>c2. bindE (try_get toml_string data ''hostname'' (\<lambda>val c. Inr (c\<lparr>sv_host_name := val\<rparr>)) c2)
     (\<lambda>c3. try_get toml_string data ''name'' (\<lambda>val c. Inr (c\<lparr>sv_name := val\<rparr>)) c3)))"

definition load_logging_config :: "(string \<times> toml) list \<Rightarrow> logging_config \<Rightarrow> logging_config result" where
  "load_logging_config data config =
     bindE (try_get toml_string data ''path'' (\<lambda>val c. Inr (c\<lparr>lg_path := val\<rparr>)) config)
       (try_get toml_bool data ''truncate'' (\<lambda>val c. Inr (c\<lparr>lg_truncate := val\<rparr>)))"

section \<open>The whole file\<close>

definition complete_server_config :: "'k config_lib_scheme \<Rightarrow> server_config \<Rightarrow> server_config" where
  "complete_server_config K c0 =
     (let c1 = (if sv_host_name c0 = [] then c0\<lparr>sv_host_name := net_host_name K\<rparr> else c0);
          c2 = (if sv_name c1 = [] then c1\<lparr>sv_name := ''EEMSat '' @ sv_host_name c1\<rparr> else c1)
      in if sv_uuid c2 = nil_uuid then c2\<lparr>sv_uuid := uuid_name_dns K (sv_host_name c2)\<rparr> else c2)"

definition load_configuration :: "'k config_lib_scheme \<Rightarrow> toml \<Rightarrow> config result" where
  "load_configuration K data =
     bindE (toml_table data) (\<lambda>data_table.
     bindE (try_get toml_array data_table ''content''
       (\<lambda>d c. bindE (load_data_config d (cf_directories c)) (\<lambda>x. Inr (c\<lparr>cf_directories := x\<rparr>)))
       default_config) (\<lambda>c1.
     bindE (try_get toml_table data_table ''db''
       (\<lambda>d c. bindE (load_db_config d (cf_db_path c)) (\<lambda>x. Inr (c\<lparr>cf_db_path := x\<rparr>))) c1) (\<lambda>c2.
     bindE (try_get toml_table data_table ''server''
       (\<lambda>d c. bindE (load_server_config K d (cf_server c)) (\<lambda>x. Inr (c\<lparr>cf_server := x\<rparr>))) c2) (\<lambda>c3.
     bindE (try_get toml_table data_table ''logging''
       (\<lambda>d c. bindE (load_logging_config d (cf_logging c)) (\<lambda>x. Inr (c\<lparr>cf_logging := x\<rparr>))) c3) (\<lambda>c4.
       Inr (c4\<lparr>cf_server := complete_server_config K (cf_server c4)\<rparr>))))))"

section \<open>The command line\<close>

text \<open>
  The only option names the configuration file, and is required. Boost parses the command line against
  the options, and toml11 the file: both are parameters, and may throw.
\<close>

record option_description =
  op_names :: string
  op_required :: bool
  op_help :: string

record command_lib = config_lib +
  command_line :: "option_description list \<Rightarrow> string list \<Rightarrow> (string \<times> string) list result"
  parse_toml :: "string \<Rightarrow> toml result"

definition allowed_options :: "option_description list" where
  "allowed_options = [\<lparr>op_names = ''config,c'', op_required = True, op_help = ''Configuration file''\<rparr>]"

definition load_configuration_file :: "'k command_lib_scheme \<Rightarrow> string list \<Rightarrow> config result" where
  "load_configuration_file K argv =
     bindE (command_line K allowed_options argv) (\<lambda>vm.
       case map_of vm ''config'' of
         None \<Rightarrow> Inl (LibraryError ''boost::bad_any_cast'')
       | Some path \<Rightarrow> bindE (parse_toml K path) (load_configuration K))"

section \<open>What a loaded configuration is\<close>

lemma try_get_Inr:
  "try_get get table key func s = Inr t \<longleftrightarrow>
     (map_of table key = None \<and> t = s
      \<or> (\<exists>v x. map_of table key = Some v \<and> get v = Inr x \<and> func x s = Inr t))"
  by (auto simp: try_get_def bindE_eq_Inr split: option.splits)

lemma try_get_keeps:
  assumes "try_get get table key func s = Inr t" and "\<And>x u. func x s = Inr u \<Longrightarrow> P u" and "P s"
  shows "P t"
  using assms by (auto simp: try_get_Inr)

text \<open>The names of a loaded configuration, from the file or derived.\<close>

lemma complete_server_config_complete:
  assumes "net_host_name K \<noteq> []" and "\<And>n. uuid_name_dns K n \<noteq> nil_uuid"
  shows "sv_host_name (complete_server_config K c) \<noteq> []"
    and "sv_name (complete_server_config K c) \<noteq> []"
    and "sv_uuid (complete_server_config K c) \<noteq> nil_uuid"
    and "sv_listen_port (complete_server_config K c) = sv_listen_port c"
    and "sv_base_url (complete_server_config K c) = sv_base_url c"
  using assms by (auto simp: complete_server_config_def Let_def)

lemma complete_server_config_given:
  assumes "sv_host_name c \<noteq> []" and "sv_name c \<noteq> []" and "sv_uuid c \<noteq> nil_uuid"
  shows "complete_server_config K c = c"
  using assms by (simp add: complete_server_config_def Let_def)

text \<open>The directories are the tables of the content array, in order, each a movies library.\<close>

definition directory_of :: "toml \<Rightarrow> directory_config option" where
  "directory_of table =
     (case (toml_find_string table ''type'', toml_find_string table ''path'', toml_table table) of
        (Inr ty, Inr path, Inr t) \<Rightarrow>
          if ty = ''movies''
          then (case load_movies_config t of Inr c \<Rightarrow> Some \<lparr>dir_path = path, dir_scanner = c\<rparr> | Inl _ \<Rightarrow> None)
          else None
      | _ \<Rightarrow> None)"

lemma load_data_config_step:
  "directory_of t = Some d \<Longrightarrow> load_data_config (t # ts) dirs = load_data_config ts (dirs @ [d])"
  "directory_of t = None \<Longrightarrow> \<exists>e. load_data_config (t # ts) dirs = Inl e"
  by (auto simp: directory_of_def split: sum.splits if_splits)

lemma load_data_config_iff:
  "load_data_config tables dirs = Inr ds \<longleftrightarrow>
     (\<forall>t \<in> set tables. directory_of t \<noteq> None) \<and> ds = dirs @ map (the \<circ> directory_of) tables"
proof (induction tables arbitrary: dirs)
  case Nil
  then show ?case by auto
next
  case (Cons t ts)
  show ?case
  proof (cases "directory_of t")
    case None
    with load_data_config_step(2) [OF None, of ts dirs] show ?thesis by auto
  next
    case (Some d)
    with Cons.IH [of "dirs @ [d]"] show ?thesis
      by (simp add: load_data_config_step(1) del: load_data_config.simps)
  qed
qed

lemma load_movies_config_collections: "load_movies_config t = Inr c \<Longrightarrow> use_collections c"
  unfolding load_movies_config_def
  by (erule try_get_keeps) (auto simp: default_movies_config_def)

lemma load_data_config_collections:
  assumes "load_data_config tables dirs = Inr ds" and "\<forall>d \<in> set dirs. use_collections (dir_scanner d)"
  shows "\<forall>d \<in> set ds. use_collections (dir_scanner d)"
  using assms(2) load_movies_config_collections
  by (auto simp: assms(1) [unfolded load_data_config_iff, THEN conjunct2] directory_of_def
      dest!: assms(1) [unfolded load_data_config_iff, THEN conjunct1, rule_format]
      split: sum.splits if_splits)

text \<open>Each section reads its own part of the configuration and leaves the others.\<close>

lemma load_configuration_sections:
  assumes "load_configuration K data = Inr c"
  obtains t c0 server where "toml_table data = Inr t"
    and "try_get toml_array t ''content''
       (\<lambda>d c. bindE (load_data_config d (cf_directories c)) (\<lambda>x. Inr (c\<lparr>cf_directories := x\<rparr>))) default_config = Inr c0"
    and "cf_directories c = cf_directories c0"
    and "map_of t ''server'' = None \<and> server = default_server_config
      \<or> (\<exists>d. map_of t ''server'' = Some d \<and>
            bindE (toml_table d) (\<lambda>d. load_server_config K d default_server_config) = Inr server)"
    and "cf_server c = complete_server_config K server"
proof -
  obtain t c1 c2 c3 c4 where t: "toml_table data = Inr t"
    and c1: "try_get toml_array t ''content''
       (\<lambda>d c. bindE (load_data_config d (cf_directories c)) (\<lambda>x. Inr (c\<lparr>cf_directories := x\<rparr>))) default_config = Inr c1"
    and c2: "try_get toml_table t ''db''
       (\<lambda>d c. bindE (load_db_config d (cf_db_path c)) (\<lambda>x. Inr (c\<lparr>cf_db_path := x\<rparr>))) c1 = Inr c2"
    and c3: "try_get toml_table t ''server''
       (\<lambda>d c. bindE (load_server_config K d (cf_server c)) (\<lambda>x. Inr (c\<lparr>cf_server := x\<rparr>))) c2 = Inr c3"
    and c4: "try_get toml_table t ''logging''
       (\<lambda>d c. bindE (load_logging_config d (cf_logging c)) (\<lambda>x. Inr (c\<lparr>cf_logging := x\<rparr>))) c3 = Inr c4"
    and c: "c = c4\<lparr>cf_server := complete_server_config K (cf_server c4)\<rparr>"
    using assms by (auto simp: load_configuration_def bindE_eq_Inr)
  have server: "cf_server c1 = default_server_config"
    using c1 by (auto simp: try_get_Inr bindE_eq_Inr default_config_def)
  have dirs2: "cf_directories c2 = cf_directories c1" "cf_server c2 = cf_server c1"
    using c2 by (auto simp: try_get_Inr bindE_eq_Inr)
  have dirs3: "cf_directories c3 = cf_directories c2" using c3 by (auto simp: try_get_Inr bindE_eq_Inr)
  have dirs4: "cf_directories c4 = cf_directories c3" "cf_server c4 = cf_server c3"
    using c4 by (auto simp: try_get_Inr bindE_eq_Inr)
  have "map_of t ''server'' = None \<and> cf_server c3 = default_server_config
      \<or> (\<exists>d. map_of t ''server'' = Some d \<and>
            bindE (toml_table d) (\<lambda>d. load_server_config K d default_server_config) = Inr (cf_server c3))"
    using c3 server dirs2 by (auto simp: try_get_Inr bindE_eq_Inr)
  from that [OF t c1 _ this] show thesis by (simp add: c dirs2 dirs3 dirs4)
qed

lemma load_configuration_content:
  assumes "load_configuration K data = Inr c" and "toml_table data = Inr t"
  shows "map_of t ''content'' = None \<and> cf_directories c = []
    \<or> (\<exists>tables. map_of t ''content'' = Some (TomlArray tables) \<and> (\<forall>t \<in> set tables. directory_of t \<noteq> None)
         \<and> cf_directories c = map (the \<circ> directory_of) tables)"
proof -
  obtain c0 where c0: "try_get toml_array t ''content''
       (\<lambda>d c. bindE (load_data_config d (cf_directories c)) (\<lambda>x. Inr (c\<lparr>cf_directories := x\<rparr>))) default_config = Inr c0"
    "cf_directories c = cf_directories c0"
    using assms by (auto elim: load_configuration_sections)
  have array: "toml_array v = Inr tables \<longleftrightarrow> v = TomlArray tables" for v tables by (cases v) auto
  from c0 show ?thesis
    by (auto simp: try_get_Inr bindE_eq_Inr array load_data_config_iff default_config_def)
qed

lemma load_configuration_directories:
  assumes "load_configuration K data = Inr c"
  shows "\<forall>d \<in> set (cf_directories c). use_collections (dir_scanner d)"
proof -
  obtain t c0 where c0: "try_get toml_array t ''content''
       (\<lambda>d c. bindE (load_data_config d (cf_directories c)) (\<lambda>x. Inr (c\<lparr>cf_directories := x\<rparr>))) default_config = Inr c0"
    "cf_directories c = cf_directories c0"
    using assms by (auto elim: load_configuration_sections)
  then show ?thesis
    using load_data_config_collections by (fastforce simp: try_get_Inr bindE_eq_Inr default_config_def)
qed

text \<open>No key of the file sets the base URL.\<close>

lemma load_server_config_base_url:
  assumes "load_server_config K data config = Inr c"
  shows "sv_base_url c = sv_base_url config"
proof -
  obtain c1 c2 c3 where
    c1: "try_get toml_string data ''uuid''
       (\<lambda>val c. case uuid_parse K val of
                  None \<Rightarrow> Inl (LibraryError ''invalid uuid string'')
                | Some u \<Rightarrow> Inr (c\<lparr>sv_uuid := u\<rparr>)) config = Inr c1"
    and c2: "try_get toml_integer data ''port'' (\<lambda>val c. Inr (c\<lparr>sv_listen_port := ucast val\<rparr>)) c1 = Inr c2"
    and c3: "try_get toml_string data ''hostname'' (\<lambda>val c. Inr (c\<lparr>sv_host_name := val\<rparr>)) c2 = Inr c3"
    and c: "try_get toml_string data ''name'' (\<lambda>val c. Inr (c\<lparr>sv_name := val\<rparr>)) c3 = Inr c"
    using assms by (auto simp: load_server_config_def bindE_eq_Inr)
  have "sv_base_url c1 = sv_base_url config" using c1 by (auto simp: try_get_Inr split: option.splits)
  moreover have "sv_base_url c2 = sv_base_url c1" using c2 by (auto simp: try_get_Inr)
  moreover have "sv_base_url c3 = sv_base_url c2" using c3 by (auto simp: try_get_Inr)
  moreover have "sv_base_url c = sv_base_url c3" using c by (auto simp: try_get_Inr)
  ultimately show ?thesis by simp
qed

lemma complete_server_config_base_url [simp]:
  "sv_base_url (complete_server_config K c) = sv_base_url c"
  by (simp add: complete_server_config_def Let_def)

lemma load_configuration_base_url:
  assumes "load_configuration K data = Inr c"
  shows "sv_base_url (cf_server c) = []"
proof -
  obtain server where "server = default_server_config \<or> (\<exists>d. load_server_config K d default_server_config = Inr server)"
    and "cf_server c = complete_server_config K server"
    using assms by (elim load_configuration_sections) (auto simp: bindE_eq_Inr)
  with load_server_config_base_url [of K _ default_server_config server] show ?thesis
    by (auto simp: default_server_config_def)
qed

text \<open>The port survives the fields read after it.\<close>

lemma load_server_config_port:
  assumes "load_server_config K data config = Inr c" and "map_of data ''port'' = Some (TomlInteger p)"
  shows "sv_listen_port c = ucast p"
proof -
  obtain c1 c3 where
    c3: "try_get toml_string data ''hostname'' (\<lambda>val c. Inr (c\<lparr>sv_host_name := val\<rparr>)) (c1\<lparr>sv_listen_port := ucast p\<rparr>) = Inr c3"
    and c: "try_get toml_string data ''name'' (\<lambda>val c. Inr (c\<lparr>sv_name := val\<rparr>)) c3 = Inr c"
    using assms by (auto simp: load_server_config_def bindE_eq_Inr try_get_Inr [of toml_integer])
  from c3 have "sv_listen_port c3 = ucast p" by (auto simp: try_get_Inr)
  with c show ?thesis by (auto simp: try_get_Inr)
qed

lemma uint_ucast_sint: "uint (ucast (p :: int64) :: 16 word) = sint p mod 2 ^ 16"
proof -
  have "uint (ucast p :: 16 word) = take_bit 16 (uint p)" by (simp add: unsigned_ucast_eq)
  also have "\<dots> = take_bit 16 (signed_take_bit 63 (uint p))" by (simp add: take_bit_signed_take_bit)
  also have "\<dots> = sint p mod 2 ^ 16" by (simp add: sint_uint take_bit_eq_mod)
  finally show ?thesis .
qed

end
