(* ===== verification/Xml.thy ===== *)
theory Xml
  imports NetLib Config
begin

text \<open>
  XML documents as pugixml holds them, and the interface to pugixml's printer and parser, to the
  UUID printer and to the two static service descriptions (\<^verbatim>\<open>src/cds.xml\<close>, \<^verbatim>\<open>src/cm.xml\<close>). Names,
  attribute values and text are set from C strings.
\<close>

datatype xml =
    Element string "(string \<times> string) list" "xml list"
  | Pcdata string
  | Declaration "(string \<times> string) list"

record ('f, 's) web_lib = "('f, 's) net_lib" +
  xml_chunks :: "xml list \<Rightarrow> bytes list"
  xml_load :: "bytes \<Rightarrow> string + xml list"
  uuid_string :: "uuid \<Rightarrow> string"
  cds_document :: string
  cm_document :: string

text \<open>\<^verbatim>\<open>node.append_child(name).text().set(s)\<close>.\<close>

definition text_element :: "string \<Rightarrow> string \<Rightarrow> xml" where
  "text_element name s = Element name [] [Pcdata (c_str s)]"

section \<open>Navigation\<close>

text \<open>A null node is \<open>None\<close>; every navigation from it stays null, and its name and value are empty.\<close>

fun element_children :: "xml option \<Rightarrow> xml list" where
  "element_children (Some (Element _ _ cs)) = cs"
| "element_children _ = []"

fun node_name :: "xml option \<Rightarrow> string" where
  "node_name (Some (Element n _ _)) = n"
| "node_name _ = []"

definition first_child :: "xml option \<Rightarrow> xml option" where
  "first_child node = (case element_children node of [] \<Rightarrow> None | c # _ \<Rightarrow> Some c)"

fun is_element :: "xml \<Rightarrow> bool" where
  "is_element (Element _ _ _) = True"
| "is_element _ = False"

fun is_pcdata :: "xml \<Rightarrow> bool" where
  "is_pcdata (Pcdata _) = True"
| "is_pcdata _ = False"

definition document_element :: "xml list \<Rightarrow> xml option" where
  "document_element doc = find is_element doc"

definition node_child :: "string \<Rightarrow> xml option \<Rightarrow> xml option" where
  "node_child name node = find (\<lambda>c. is_element c \<and> node_name (Some c) = name) (element_children node)"

definition node_text :: "xml option \<Rightarrow> string" where
  "node_text node =
     (case find is_pcdata (element_children node) of Some (Pcdata s) \<Rightarrow> s | _ \<Rightarrow> [])"

definition child_value :: "string \<Rightarrow> xml option \<Rightarrow> string" where
  "child_value name node = node_text (node_child name node)"

lemma node_text_text_element [simp]: "node_text (Some (text_element name s)) = c_str s"
  by (simp add: node_text_def text_element_def)

lemma node_name_text_element [simp]: "node_name (Some (text_element name s)) = name"
  by (simp add: text_element_def)

lemma is_element_text_element [simp]: "is_element (text_element name s)"
  by (simp add: text_element_def)

text \<open>\<^verbatim>\<open>fmt::format("{:04}", i)\<close>: zeros after the sign up to the width.\<close>

definition fmt_padded :: "nat \<Rightarrow> int \<Rightarrow> string" where
  "fmt_padded width i =
     (let digits = show_nat (nat \<bar>i\<bar>);
          sign = (if i < 0 then ''-'' else [])
      in sign @ replicate (width - length sign - length digits) (CHR ''0'') @ digits)"

end
