(* ===== verification/XmlSerialization.thy ===== *)
theory XmlSerialization
  imports Xml Store
begin

text \<open>
  The documents the server produces, \<^verbatim>\<open>src/xml_serialization.cpp\<close>: the device description, a
  listing of media objects in DIDL-Lite inside a SOAP envelope, and SOAP faults. A document is the
  list of its top nodes; serialising a media object gives the node it appends, or none.
\<close>

section \<open>Printing into a buffer\<close>

text \<open>
  A \<^verbatim>\<open>beast::flat_buffer\<close> is the bytes in it. The printer hands its output to the writer in pieces,
  each of which is copied behind what the buffer holds.
\<close>

definition buffer_write :: "bytes \<Rightarrow> bytes \<Rightarrow> bytes" where
  "buffer_write data buffer = buffer @ data"

definition append_null :: "bytes \<Rightarrow> bytes" where
  "append_null buffer = buffer @ [NUL]"

definition xml_print :: "('f, 's, 'm) web_lib_scheme \<Rightarrow> xml list \<Rightarrow> bytes" where
  "xml_print L document = foldl (\<lambda>buffer data. buffer_write data buffer) [] (xml_chunks L document)"

lemma xml_print_concat: "xml_print L document = concat (xml_chunks L document)"
proof -
  have "foldl (\<lambda>buffer data. buffer_write data buffer) b chunks = b @ concat chunks" for b chunks
    by (induction chunks arbitrary: b) (simp_all add: buffer_write_def)
  then show ?thesis by (simp add: xml_print_def)
qed

section \<open>Documents\<close>

definition generate_preamble ::
  "string \<Rightarrow> string \<Rightarrow> (string \<times> string) list \<Rightarrow> xml list \<Rightarrow> xml list" where
  "generate_preamble root_element root_ns attributes children =
     [Declaration [(''version'', ''1.0''), (''encoding'', ''UTF-8'')],
      Element root_element ((''xmlns'', root_ns) # attributes) children]"

section \<open>The device description\<close>

definition upnp_service_element :: "string \<Rightarrow> string \<Rightarrow> xml" where
  "upnp_service_element name path =
     Element ''service'' []
       [text_element ''serviceType'' (''urn:schemas-upnp-org:service:'' @ name @ '':1''),
        text_element ''serviceId'' (''urn:upnp-org:serviceId:'' @ name),
        text_element ''SCPDURL'' (''upnp/'' @ path @ ''.xml''),
        text_element ''controlURL'' (''upnp/'' @ path),
        text_element ''eventSubURL'' (''upnp/event/'' @ path)]"

definition device_document :: "('f, 's, 'm) web_lib_scheme \<Rightarrow> server_config \<Rightarrow> xml list" where
  "device_document L config =
     generate_preamble ''root'' ''urn:schemas-upnp-org:device-1-0'' []
       [Element ''specVersion'' [] [text_element ''major'' ''1'', text_element ''minor'' ''0''],
        text_element ''URLBase'' (sv_base_url config),
        Element ''device'' []
          [text_element ''deviceType'' ''urn:schemas-upnp-org:device:MediaServer:1'',
           text_element ''friendlyName'' (sv_name config),
           text_element ''UDN'' (''uuid:'' @ uuid_string L (sv_uuid config)),
           Element ''dlna:X_DLNADOC'' [(''xmlns:dlna'', ''urn:schemas-dlna-org:device-1-0'')]
             [Pcdata ''DMS-1.50''],
           Element ''serviceList'' []
             [upnp_service_element ''ContentDirectory'' ''cds'',
              upnp_service_element ''ConnectionManager'' ''cm'']]]"

definition root_device_description :: "('f, 's, 'm) web_lib_scheme \<Rightarrow> server_config \<Rightarrow> bytes" where
  "root_device_description L config = xml_print L (device_document L config)"

section \<open>Media objects\<close>

definition resource_url :: "string \<Rightarrow> int64 \<Rightarrow> string" where
  "resource_url content_base i = content_base @ ''/content/'' @ show_int (sint i)"

definition date_text :: "'u util_lib_scheme \<Rightarrow> int64 \<Rightarrow> string" where
  "date_text U days =
     (case date_ymd U (sint days) of (year, month, day) \<Rightarrow>
        fmt_padded 4 year @ ''-'' @ fmt_padded 2 (int month) @ ''-'' @ fmt_padded 2 (int day))"

fun artwork_type_name :: "ArtworkType \<Rightarrow> string" where
  "artwork_type_name Poster = ''poster''"
| "artwork_type_name Thumbnail = ''thumb''"

text \<open>The key of an artwork is used without a check that it is a resource key.\<close>

definition serialize_artwork :: "'n fb_lib_scheme \<Rightarrow> string \<Rightarrow> Artwork \<Rightarrow> xml list result" where
  "serialize_artwork F content_base aw =
     (case fb_key_root F (aw_ref aw) of
        ResourceKey i \<Rightarrow>
          let url = c_str (resource_url content_base i)
          in Inr [Element ''upnp:albumArtURI'' [] [Pcdata url],
                  Element ''xbmc:artwork'' [(''type'', artwork_type_name (aw_type aw))] [Pcdata url]]
      | _ \<Rightarrow> Inl Undefined)"

fun concat_results :: "('a \<Rightarrow> 'b list result) \<Rightarrow> 'a list \<Rightarrow> 'b list result" where
  "concat_results f [] = Inr []"
| "concat_results f (x # xs) =
     bindE (f x) (\<lambda>ys. bindE (concat_results f xs) (\<lambda>zs. Inr (ys @ zs)))"

definition common_attributes :: "MediaObject \<Rightarrow> (string \<times> string) list" where
  "common_attributes ob =
     [(''id'', show_int (sint (mo_id ob))), (''parentID'', show_int (sint (mo_parent_id ob))),
      (''restricted'', ''1'')]"

definition serialize_common_fields ::
  "'u util_lib_scheme \<Rightarrow> 'n fb_lib_scheme \<Rightarrow> string \<Rightarrow> MediaObject \<Rightarrow> xml list result" where
  "serialize_common_fields U F content_base ob =
     bindE (as_cstring (mo_dc_title ob)) (\<lambda>title.
     bindE (as_cstring (mo_upnp_class ob)) (\<lambda>cls.
     bindE (concat_results (serialize_artwork F content_base)
              (case mo_artwork ob of None \<Rightarrow> [] | Some aws \<Rightarrow> aws)) (\<lambda>artwork.
       Inr ([text_element ''dc:title'' title, text_element ''upnp:class'' cls]
            @ (if mo_dc_date ob \<noteq> 0 then [text_element ''dc:date'' (date_text U (mo_dc_date ob))] else [])
            @ artwork))))"

definition serialize_resource_ref :: "'n fb_lib_scheme \<Rightarrow> string \<Rightarrow> ResourceRef \<Rightarrow> xml list result" where
  "serialize_resource_ref F content_base r =
     (case fb_key_root F (rr_ref r) of
        ResourceKey i \<Rightarrow>
          bindE (as_cstring (rr_protocol_info r)) (\<lambda>info.
            Inr [Element ''res'' [(''protocolInfo'', info)] [Pcdata (c_str (resource_url content_base i))]])
      | _ \<Rightarrow> Inl (RuntimeError ''Resource ref has no valid resource key''))"

definition serialize_media_object ::
  "'u util_lib_scheme \<Rightarrow> 'n fb_lib_scheme \<Rightarrow> string \<Rightarrow> MediaObject \<Rightarrow> xml option result" where
  "serialize_media_object U F content_base ob =
     (case mo_data ob of
        MediaItem rs \<Rightarrow>
          bindE (serialize_common_fields U F content_base ob) (\<lambda>fields.
          bindE (concat_results (serialize_resource_ref F content_base)
                   (case rs of None \<Rightarrow> [] | Some refs \<Rightarrow> refs)) (\<lambda>res.
            Inr (Some (Element ''item'' (common_attributes ob) (fields @ res)))))
      | MediaContainer _ \<Rightarrow>
          bindE (serialize_common_fields U F content_base ob) (\<lambda>fields.
            Inr (Some (Element ''container'' (common_attributes ob) fields)))
      | ObjectUnion_NONE \<Rightarrow> Inr None)"

section \<open>Browse responses\<close>

definition soap_envelope :: "xml list \<Rightarrow> xml list" where
  "soap_envelope body =
     [Element ''s:Envelope''
        [(''xmlns:s'', ''http://schemas.xmlsoap.org/soap/envelope/''),
         (''s:encodingStyle'', ''http://schemas.xmlsoap.org/soap/encoding/'')]
        [Element ''s:Body'' [] body]]"

text \<open>
  \<^verbatim>\<open>count_if\<close> over a part of the view: each key is read through the cursor, the object's node is
  appended, and the objects that gave a node are counted.
\<close>

fun serialize_listing ::
  "'u util_lib_scheme \<Rightarrow> ('db, 'it, 'n) store_lib_scheme \<Rightarrow> string \<Rightarrow> bytes list \<Rightarrow> 'it
    \<Rightarrow> (xml list \<times> nat) result" where
  "serialize_listing U S content_base [] it = Inr ([], 0)"
| "serialize_listing U S content_base (k # ks) it =
     (case cursor_read S k it of
        (Inl e, _) \<Rightarrow> Inl e
      | (Inr ob, it') \<Rightarrow>
          bindE (serialize_media_object U S content_base ob) (\<lambda>node.
          bindE (serialize_listing U S content_base ks it') (\<lambda>(nodes, n).
            case node of None \<Rightarrow> Inr (nodes, n) | Some x \<Rightarrow> Inr (x # nodes, n + 1))))"

definition didl_document :: "xml list \<Rightarrow> xml list" where
  "didl_document nodes =
     generate_preamble ''DIDL-Lite'' ''urn:schemas-upnp-org:metadata-1-0/DIDL-Lite/''
       [(''xmlns:upnp'', ''urn:schemas-upnp-org:metadata-1-0/upnp/''),
        (''xmlns:dc'', ''http://purl.org/dc/elements/1.1/''),
        (''xmlns:xbmc'', ''urn:schemas-xbmc-org:metadata-1-0/'')] nodes"

definition browse_document :: "nat \<Rightarrow> nat \<Rightarrow> bytes \<Rightarrow> xml list" where
  "browse_document returned matches didl =
     soap_envelope
       [Element ''u:BrowseResponse''
          [(''xmlns:u'', ''urn:schemas-upnp-org:service:ContentDirectory:1'')]
          [text_element ''NumberReturned'' (show_nat returned),
           text_element ''TotalMatches'' (show_nat matches),
           text_element ''UpdateID'' ''0'',
           text_element ''Result'' didl]]"

text \<open>A requested count of zero is replaced by the number of objects, converted to 32 bits.\<close>

definition requested_slice :: "32 word \<Rightarrow> 32 word \<Rightarrow> bytes list \<Rightarrow> bytes list" where
  "requested_slice start_index requested_count keys =
     (let requested = (if requested_count = 0 then word_of_nat (length keys) else requested_count)
      in take (unat requested) (drop (unat start_index) keys))"

definition browse_response ::
  "('f, 's, 'm) web_lib_scheme \<Rightarrow> ('db, 'it, 'n) store_lib_scheme \<Rightarrow> 'it list_result_view
    \<Rightarrow> 32 word \<Rightarrow> 32 word \<Rightarrow> string \<Rightarrow> bytes result" where
  "browse_response L S view start_index requested_count base_url =
     bindE (serialize_listing L S base_url
              (requested_slice start_index requested_count (objects view)) (db_it view)) (\<lambda>(nodes, returned).
       Inr (xml_print L (browse_document returned (length (objects view))
              (append_null (xml_print L (didl_document nodes))))))"

section \<open>Faults\<close>

definition fault_document :: "int \<Rightarrow> string \<Rightarrow> xml list" where
  "fault_document code description =
     soap_envelope
       [Element ''s:Fault'' []
          [text_element ''faultcode'' ''s:Client'',
           text_element ''faultstring'' ''UPnPError'',
           Element ''detail'' []
             [Element ''UPnPError'' [(''xmlns'', ''urn:schemas-upnp-org:control-1-0'')]
                [text_element ''errorCode'' (show_int code),
                 text_element ''errorDescription'' description]]]]"

definition error_response :: "('f, 's, 'm) web_lib_scheme \<Rightarrow> int \<Rightarrow> string \<Rightarrow> bytes" where
  "error_response L code description = xml_print L (fault_document code description)"

end
