(* ===== verification/Soap.thy ===== *)
theory Soap
  imports Xml
begin

text \<open>
  SOAP requests, \<^verbatim>\<open>src/soap.cpp\<close>: the method, the content type and the SOAPACTION header are
  checked, the body is parsed, and the first child of the body's first child must be named like the
  action.
\<close>

record soap_action_info =
  sa_service_id :: string
  sa_action :: string
  sa_params :: "xml option"

definition local_name :: "xml option \<Rightarrow> string" where
  "local_name node =
     (let fqname = node_name node;
          before = takeWhile (\<lambda>c. c \<noteq> CHR '':'') fqname
      in if length before < length fqname then drop (length before + 1) fqname else fqname)"

text \<open>\<^verbatim>\<open>'"' >> +(char_ - '#') >> '#' >> +(char_ - '"') >> '"'\<close>.\<close>

definition quote :: string where
  "quote = [CHR 0x22]"

definition soapaction_parser :: "(unit \<times> string \<times> unit \<times> string \<times> unit) parser" where
  "soapaction_parser =
     seq (lit quote) (seq (plus_chars (\<lambda>c. c \<noteq> CHR ''#'')) (seq (lit ''#'')
       (seq (plus_chars (\<lambda>c. c \<noteq> CHR 0x22)) (lit quote))))"

definition parse_soap_request ::
  "('f, 's, 'm) web_lib_scheme \<Rightarrow> http_request \<Rightarrow> soap_action_info result" where
  "parse_soap_request L req =
     (if rq_method req \<noteq> Post then Inl (HttpError 400 ''Unsupported HTTP-method'')
      else if \<not> starts_with (field_value (rq_fields req) ''Content-Type'') ''text/xml''
      then Inl (HttpError 415 ''Must be an XML'')
      else case parse soapaction_parser (field_value (rq_fields req) ''soapaction'') of
             None \<Rightarrow> Inl (HttpError 400 ''Invalid SOAPACTION header'')
           | Some (_, service_id, _, action, _) \<Rightarrow>
               (case xml_load L (rq_body req) of
                  Inl description \<Rightarrow> Inl (HttpError 400 (c_str description))
                | Inr doc \<Rightarrow>
                    let params = first_child (first_child (document_element doc))
                    in if local_name params \<noteq> action
                       then Inl (HttpError 400 ''Invalid action element'')
                       else Inr \<lparr>sa_service_id = service_id, sa_action = action, sa_params = params\<rparr>))"

section \<open>What is accepted\<close>

lemma takeWhile_stop: "\<forall>c \<in> set s. P c \<Longrightarrow> \<not> P d \<Longrightarrow> takeWhile P (s @ d # r) = s"
  by (induction s) auto

lemma plus_chars_stop:
  "s \<noteq> [] \<Longrightarrow> \<forall>c \<in> set s. P c \<Longrightarrow> \<not> P d \<Longrightarrow> plus_chars P (s @ d # r) = Some (s, d # r)"
  by (simp add: plus_chars_def takeWhile_stop Let_def)

lemma lit_Cons: "lit [c] (c # r) = Some ((), r)"
  by (simp add: lit_def)

text \<open>The header \<^verbatim>\<open>"service#action"\<close> is read as the service and the action.\<close>

lemma soapaction_roundtrip:
  assumes "service \<noteq> []" and "CHR ''#'' \<notin> set service" and "action \<noteq> []" and "CHR 0x22 \<notin> set action"
  shows "parse soapaction_parser (quote @ service @ ''#'' @ action @ quote) =
    Some ((), service, (), action, ())"
proof -
  have "plus_chars (\<lambda>c. c \<noteq> CHR 0x22) (action @ CHR 0x22 # []) = Some (action, [CHR 0x22])"
    using assms(3,4) by (intro plus_chars_stop) auto
  moreover have "plus_chars (\<lambda>c. c \<noteq> CHR ''#'') (service @ CHR ''#'' # action @ [CHR 0x22]) =
      Some (service, CHR ''#'' # action @ [CHR 0x22])"
    using assms(1,2) by (intro plus_chars_stop) auto
  ultimately show ?thesis
    by (simp add: parse_Some soapaction_parser_def quote_def seq_def lit_Cons)
qed

lemma local_name_prefixed:
  "CHR '':'' \<notin> set p \<Longrightarrow> local_name (Some (Element (p @ '':'' @ n) as cs)) = n"
proof -
  assume p: "CHR '':'' \<notin> set p"
  have "takeWhile (\<lambda>c. c \<noteq> CHR '':'') (p @ CHR '':'' # n) = p"
    using p by (intro takeWhile_stop) auto
  then show ?thesis by (simp add: local_name_def Let_def)
qed

lemma local_name_plain:
  "CHR '':'' \<notin> set n \<Longrightarrow> local_name (Some (Element n as cs)) = n"
proof -
  assume "CHR '':'' \<notin> set n"
  then have "takeWhile (\<lambda>c. c \<noteq> CHR '':'') n = n" by (auto simp: takeWhile_eq_all_conv)
  then show ?thesis by (simp only: local_name_def node_name.simps Let_def less_irrefl if_False)
qed

text \<open>The arguments of a call are the texts of its elements.\<close>

lemma child_value_arguments:
  assumes "distinct (map fst args)" and "(n, t) \<in> set args" and "NUL \<notin> set t"
  shows "child_value n (Some (Element name as (map (\<lambda>(n, t). text_element n t) args))) = t"
proof -
  have plain: "c_str t = t" using assms(3) by simp
  have "find (\<lambda>c. is_element c \<and> node_name (Some c) = n) (map (\<lambda>(n, t). text_element n t) args) =
      Some (text_element n t)"
    using assms(1,2) by (induction args) (auto simp: rev_image_eqI)
  then show ?thesis by (simp add: child_value_def node_child_def plain)
qed

lemma parse_soap_request_call:
  assumes header: "service \<noteq> []" "CHR ''#'' \<notin> set service" "action \<noteq> []" "CHR 0x22 \<notin> set action"
      "field_value (rq_fields req) ''soapaction'' = quote @ service @ ''#'' @ action @ quote"
    and post: "rq_method req = Post" "starts_with (field_value (rq_fields req) ''Content-Type'') ''text/xml''"
    and body: "xml_load L (rq_body req) = Inr doc"
      "document_element doc = Some (Element envelope eas (Element body bas (call # calls) # parts))"
      "local_name (Some call) = action"
  shows "parse_soap_request L req = Inr \<lparr>sa_service_id = service, sa_action = action, sa_params = Some call\<rparr>"
  using soapaction_roundtrip [OF header(1-4)] header(5) post body
  by (simp add: parse_soap_request_def first_child_def)

lemma parse_soap_request_Inr:
  "parse_soap_request L req = Inr info \<Longrightarrow>
     rq_method req = Post \<and> local_name (sa_params info) = sa_action info
     \<and> (\<exists>doc. xml_load L (rq_body req) = Inr doc
          \<and> sa_params info = first_child (first_child (document_element doc)))"
  by (auto simp: parse_soap_request_def Let_def split: if_splits option.splits sum.splits)

lemma parse_soap_request_Inl:
  "parse_soap_request L req = Inl e \<Longrightarrow> \<exists>code what. e = HttpError code what \<and> code \<in> {400, 415}"
  by (auto simp: parse_soap_request_def Let_def split: if_splits option.splits sum.splits)

end
