(* ===== verification/Upnp.thy ===== *)
theory Upnp
  imports XmlSerialization Soap
begin

text \<open>
  The UPnP service, \<^verbatim>\<open>src/upnp.cpp\<close>: the descriptions, the Browse action of the content directory,
  and the responses and faults it answers with.
\<close>

section \<open>Responses\<close>

definition create_buffer_response ::
  "('f, 's, 'm) web_lib_scheme \<Rightarrow> http_request \<Rightarrow> bytes \<Rightarrow> string \<Rightarrow> nat \<Rightarrow> http_response" where
  "create_buffer_response L req buffer mime_type status =
     (let resp = set_field ''Content-Type'' mime_type
                   (set_field ''Server'' (beast_version L) (new_response status (rq_version req)));
          resp' = (if rq_method req = Post then set_field ''ext'' [] resp else resp)
      in (content_length (length buffer) (resp'\<lparr>rs_body := buffer\<rparr>))\<lparr>rs_keep_alive := Some (rq_keep_alive req)\<rparr>)"

text \<open>The bytes of a string literal, up to its terminator.\<close>

definition make_string_buffer :: "string \<Rightarrow> bytes" where
  "make_string_buffer str = c_str str"

definition make_upnp_error_response ::
  "('f, 's, 'm) web_lib_scheme \<Rightarrow> int \<Rightarrow> string \<Rightarrow> http_request \<Rightarrow> http_response" where
  "make_upnp_error_response L code what req =
     (let body = error_response L code what
      in content_length (length body)
           ((set_field ''Content-Type'' ''text/xml''
              (set_field ''Server'' (beast_version L) (new_response 500 (rq_version req))))
              \<lparr>rs_keep_alive := Some (rq_keep_alive req), rs_body := body\<rparr>))"

text \<open>The codes of \<^verbatim>\<open>upnp_error::code\<close>, and the exception with one of them.\<close>

datatype upnp_code =
    invalid_action
  | invalid_args
  | argument_value_invalid
  | argument_value_out_of_range
  | no_such_object

fun upnp_code_value :: "upnp_code \<Rightarrow> int" where
  "upnp_code_value invalid_action = 401"
| "upnp_code_value invalid_args = 402"
| "upnp_code_value argument_value_invalid = 600"
| "upnp_code_value argument_value_out_of_range = 601"
| "upnp_code_value no_such_object = 701"

definition upnp_error :: "upnp_code \<Rightarrow> string \<Rightarrow> exn" where
  "upnp_error c description = UpnpError (upnp_code_value c) description"

section \<open>Browse\<close>

definition browse_contents ::
  "('db, 'it, 'n) store_lib_scheme \<Rightarrow> string \<Rightarrow> int64 \<Rightarrow> 'db \<Rightarrow> 'it list_result_view result" where
  "browse_contents S flag key db =
     (if flag = ''BrowseDirectChildren'' then store_list S key db
      else if flag = ''BrowseMetadata'' then Inr (store_get S key db)
      else Inl (upnp_error argument_value_out_of_range ''Invalid BrowseFlag''))"

definition cds_browse ::
  "('f, 's, 'm) web_lib_scheme \<Rightarrow> ('db, 'it, 'n) store_lib_scheme \<Rightarrow> server_config \<Rightarrow> 'db
    \<Rightarrow> soap_action_info \<Rightarrow> bytes result" where
  "cds_browse L S config db soap_req =
     (case parse (x3_int64 L) (child_value ''ObjectID'' (sa_params soap_req)) of
        None \<Rightarrow> Inl (upnp_error no_such_object ''Invalid ID'')
      | Some object_id \<Rightarrow>
     (case parse (x3_uint32 L) (child_value ''StartingIndex'' (sa_params soap_req)) of
        None \<Rightarrow> Inl (upnp_error invalid_args ''Invalid StartingIndex'')
      | Some start_index \<Rightarrow>
     (case parse (x3_uint32 L) (child_value ''RequestedCount'' (sa_params soap_req)) of
        None \<Rightarrow> Inl (upnp_error invalid_args ''Invalid RequestedCount'')
      | Some requested_count \<Rightarrow>
          bindE (browse_contents S (child_value ''BrowseFlag'' (sa_params soap_req))
                   (word_of_int object_id) db) (\<lambda>contents.
            browse_response L S contents (word_of_nat start_index) (word_of_nat requested_count)
              (sv_base_url config)))))"

definition handle_cds_browse ::
  "('f, 's, 'm) web_lib_scheme \<Rightarrow> ('db, 'it, 'n) store_lib_scheme \<Rightarrow> server_config \<Rightarrow> 'db
    \<Rightarrow> http_request \<Rightarrow> soap_action_info \<Rightarrow> ('s, unit) proc" where
  "handle_cds_browse L S config db req soap_req s =
     (case cds_browse L S config db soap_req of
        Inl e \<Rightarrow> (Inl e, s)
      | Inr body \<Rightarrow> write_response L (create_buffer_response L req body ''text/xml'' 200) s)"

section \<open>Dispatch\<close>

definition handle_upnp_request ::
  "('f, 's, 'm) web_lib_scheme \<Rightarrow> ('db, 'it, 'n) store_lib_scheme \<Rightarrow> server_config \<Rightarrow> 'db
    \<Rightarrow> http_request \<Rightarrow> string \<Rightarrow> ('s, unit) proc" where
  "handle_upnp_request L S config db req sub_path s =
     (if sub_path = ''device''
      then write_response L (create_buffer_response L req (root_device_description L config) ''text/xml'' 200) s
      else if sub_path = ''cds.xml''
      then write_response L (create_buffer_response L req (make_string_buffer (cds_document L)) ''text/xml'' 200) s
      else if sub_path = ''cm.xml''
      then write_response L (create_buffer_response L req (make_string_buffer (cm_document L)) ''text/xml'' 200) s
      else case parse_soap_request L req of
             Inl e \<Rightarrow> (Inl e, s)
           | Inr soap_info \<Rightarrow>
               if sub_path = ''cds''
               then if sa_action soap_info \<noteq> ''Browse'' then (Inl (HttpError 400 ''Invalid action''), s)
                    else handle_cds_browse L S config db req soap_info s
               else (Inl (HttpError 404 ''Not found''), s))"

end
