(* ===== verification/Content.thy ===== *)
theory Content
  imports NetLib Store
begin

text \<open>
  The content service, \<^verbatim>\<open>src/content_service.cpp\<close>: the response to a request for a stored resource
  with its range arithmetic on 64-bit words, and the loop that sends the body in blocks. The loop
  runs on fuel, and \<open>None\<close> is running out of it.
\<close>

section \<open>Ranges\<close>

definition range_parser ::
  "'u util_lib_scheme \<Rightarrow> (unit \<times> nat option \<times> unit \<times> nat option) parser" where
  "range_parser U =
     seq (lit ''bytes='') (seq (opt (x3_uintmax U)) (seq (lit ''-'') (opt (x3_uintmax U))))"

definition requested_range ::
  "'u util_lib_scheme \<Rightarrow> http_request \<Rightarrow> (64 word option \<times> 64 word option) result" where
  "requested_range U req =
     (let range_header = field_value (rq_fields req) ''Range''
      in if range_header = [] then Inr (None, None)
         else case parse (range_parser U) range_header of
                None \<Rightarrow> Inl (HttpError 416 [])
              | Some (_, first, _, final) \<Rightarrow>
                  Inr (map_option word_of_nat first, map_option word_of_nat final))"

definition select_range ::
  "64 word option \<Rightarrow> 64 word option \<Rightarrow> 64 word \<Rightarrow> (64 word \<times> 64 word) result" where
  "select_range first final len =
     (if (case (first, final) of (Some f, Some l) \<Rightarrow> l < f | _ \<Rightarrow> False) then Inl (HttpError 416 [])
      else if (case first of Some f \<Rightarrow> len \<le> f | None \<Rightarrow> False) then Inl (HttpError 416 [])
      else
        let last1 = (case final of None \<Rightarrow> len - 1 | Some l \<Rightarrow> l)
        in case first of
             Some f \<Rightarrow> Inr (f, last1)
           | None \<Rightarrow> let l = min len last1 in Inr (len - l, l))"

definition show_word :: "64 word \<Rightarrow> string" where
  "show_word w = show_nat (unat w)"

definition content_range :: "64 word \<Rightarrow> 64 word \<Rightarrow> 64 word \<Rightarrow> string" where
  "content_range first final len =
     ''bytes '' @ show_word first @ ''-'' @ show_word final @ ''/'' @ show_word len"

section \<open>The response\<close>

definition base_response :: "('f, 's, 'm) net_lib_scheme \<Rightarrow> http_request \<Rightarrow> http_response" where
  "base_response L req =
     (set_field ''Accept-Ranges'' ''bytes''
       (set_field ''Server'' (beast_version L) (new_response 200 (rq_version req))))
       \<lparr>rs_keep_alive := Some (rq_keep_alive req)\<rparr>"

definition ranged_response ::
  "('f, 's, 'm) net_lib_scheme \<Rightarrow> http_request \<Rightarrow> 64 word option \<times> 64 word option \<Rightarrow> 'f
    \<Rightarrow> (http_response \<times> 'f \<times> 64 word) result" where
  "ranged_response L req req_range f =
     (case f_size L f of
        Inl ec \<Rightarrow> Inl (HttpError 500 (c_str ec))
      | Inr len \<Rightarrow>
          if fst req_range = None \<and> snd req_range = None
          then Inr (content_length (unat len) (base_response L req), f, len)
          else bindE (select_range (fst req_range) (snd req_range) len) (\<lambda>(first, final).
                 let resp = set_field ''Content-Range'' (content_range first final len)
                              ((base_response L req)\<lparr>rs_status := 206\<rparr>);
                     n = final - first + 1
                 in case f_seek L first f of
                      Inl ec \<Rightarrow> Inl (HttpError 500 (c_str ec))
                    | Inr f' \<Rightarrow> Inr (content_length (unat n) resp, f', n)))"

definition create_response ::
  "('f, 's, 'm) net_lib_scheme \<Rightarrow> ('db, 'it, 'n) store_lib_scheme \<Rightarrow> string \<Rightarrow> http_request \<Rightarrow> 'db
    \<Rightarrow> (http_response \<times> 'f \<times> 64 word) result" where
  "create_response L S sub_path req db =
     (case parse (x3_int64 L) (c_str sub_path) of
        None \<Rightarrow> Inl (HttpError 404 (c_str sub_path))
      | Some resource_id \<Rightarrow>
          bindE (requested_range L req) (\<lambda>request_range.
            case get_resource S (word_of_int resource_id) db of
              None \<Rightarrow> Inl (HttpError 404 (c_str sub_path))
            | Some resource \<Rightarrow>
                (case res_location resource of
                   None \<Rightarrow> Inl (HttpError 404 (c_str sub_path))
                 | Some loc \<Rightarrow>
                     bindE (as_cstring loc) (\<lambda>location.
                       case f_open L location of
                         FileMissing \<Rightarrow> Inl (HttpError 404 (c_str sub_path))
                       | FileError ec \<Rightarrow> Inl (HttpError 500 (c_str ec))
                       | FileOpen f \<Rightarrow> ranged_response L req request_range f))))"

section \<open>The body\<close>

fun body_loop ::
  "('f, 's, 'm) net_lib_scheme \<Rightarrow> nat \<Rightarrow> 64 word \<Rightarrow> 'f \<Rightarrow> 's \<Rightarrow> (bool \<times> 's) option" where
  "body_loop L 0 len f s = None"
| "body_loop L (Suc fuel) len f s =
     (let produce = unat (min len 4096)
      in if produce = 0 then Some (True, s)
         else case f_read L produce f of
                (Inl ec, f') \<Rightarrow> Some (False, s_close L s)
              | (Inr block, f') \<Rightarrow>
                  (case s_write L block s of
                     (Some ec, s') \<Rightarrow> Some (False, s')
                   | (None, s') \<Rightarrow>
                       body_loop L fuel (len - word_of_nat (length block)) f' s'))"

definition content_handle_request ::
  "('f, 's, 'm) net_lib_scheme \<Rightarrow> ('db, 'it, 'n) store_lib_scheme \<Rightarrow> 'db \<Rightarrow> nat \<Rightarrow> http_request
    \<Rightarrow> string \<Rightarrow> 's \<Rightarrow> (bool result \<times> 's) option" where
  "content_handle_request L S db fuel req sub_path s =
     (case create_response L S sub_path req db of
        Inl e \<Rightarrow> Some (Inl e, s)
      | Inr (response, f, len) \<Rightarrow>
          (case s_write L (header_bytes L response) s of
             (Some ec, s') \<Rightarrow> Some (Inl (SystemError ec), s')
           | (None, s') \<Rightarrow>
               if rq_method req = Head then Some (Inr True, s')
               else map_option (\<lambda>(more, s''). (Inr more, s'')) (body_loop L fuel len f s')))"

end
