(* ===== verification/Server.thy ===== *)
theory Server
  imports Upnp Content Paths
begin

text \<open>
  The HTTP server, \<^verbatim>\<open>src/server.cpp\<close>: the target of a request is split into its query and the
  components of its path, the first component chooses the service, exceptions of the services
  become error responses or end the connection, and a connection serves requests until reading
  fails, a service asks to stop or an exception escapes. One connection is modelled at a time, as if
  it ran alone; \<open>Coroutine\<close> and \<open>EventLoop\<close> have the steps in which they really run. A
  request is served on fuel for the content service's body loop, and \<open>None\<close> is running out of it.
\<close>

section \<open>Targets\<close>

definition parse_target :: "string \<Rightarrow> string \<times> string" where
  "parse_target target =
     (let path = takeWhile (\<lambda>c. c \<noteq> CHR ''?'') target
      in if length path < length target then (path, drop (length path) target) else (target, []))"

datatype route = Welcome | UpnpRoute string | ContentRoute string | UnknownRoute string

definition route_of :: "string \<Rightarrow> route" where
  "route_of target =
     (case dropWhile has_root_directory (components (fst (parse_target target))) of
        [] \<Rightarrow> Welcome
      | service # rest \<Rightarrow>
          let sub_path = foldl path_append [] rest
          in if service = ''upnp'' then UpnpRoute sub_path
             else if service = ''content'' then ContentRoute sub_path
             else UnknownRoute service)"

section \<open>One request\<close>

datatype outcome = Continue | Stop | Terminated exn

definition welcome_page :: string where
  "welcome_page = ''<html><body>Welcome!</body></html>''"

definition send_or_terminate ::
  "('f, 's, 'm) web_lib_scheme \<Rightarrow> http_response \<Rightarrow> 's \<Rightarrow> outcome \<times> 's" where
  "send_or_terminate L resp s =
     (case write_response L resp s of
        (Inr _, s') \<Rightarrow> (Continue, s')
      | (Inl e, s') \<Rightarrow> (Terminated e, s'))"

text \<open>The two catch clauses around the services; any other exception ends the connection.\<close>

definition handle_exception ::
  "('f, 's, 'm) web_lib_scheme \<Rightarrow> http_request \<Rightarrow> exn \<Rightarrow> 's \<Rightarrow> outcome \<times> 's" where
  "handle_exception L req e s =
     (case e of
        HttpError status what \<Rightarrow>
          send_or_terminate L (make_error_response (beast_version L) status what req) s
      | UpnpError code what \<Rightarrow> send_or_terminate L (make_upnp_error_response L code what req) s
      | _ \<Rightarrow> (Terminated e, s))"

definition serve_request ::
  "('f, 's, 'm) web_lib_scheme \<Rightarrow> ('db, 'it, 'n) store_lib_scheme \<Rightarrow> server_config \<Rightarrow> 'db \<Rightarrow> nat
    \<Rightarrow> http_request \<Rightarrow> 's \<Rightarrow> (outcome \<times> 's) option" where
  "serve_request L S config db fuel req s =
     (case route_of (rq_target req) of
        Welcome \<Rightarrow>
          Some (send_or_terminate L (make_error_response (beast_version L) 200 welcome_page req) s)
      | UpnpRoute sub_path \<Rightarrow>
          (case handle_upnp_request L S config db req sub_path s of
             (Inr _, s') \<Rightarrow> Some (Continue, s')
           | (Inl e, s') \<Rightarrow> Some (handle_exception L req e s'))
      | ContentRoute sub_path \<Rightarrow>
          (case content_handle_request L S db fuel req sub_path s of
             None \<Rightarrow> None
           | Some (Inr again, s') \<Rightarrow> Some (if again then Continue else Stop, s')
           | Some (Inl e, s') \<Rightarrow> Some (handle_exception L req e s'))
      | UnknownRoute _ \<Rightarrow>
          Some (send_or_terminate L (make_error_response (beast_version L) 404 ''Not found'' req) s))"

section \<open>A connection\<close>

text \<open>
  The loop over requests: \<open>requests\<close> bounds their number, \<open>fuel\<close> the blocks of one body. The result
  is the last state of the stream.
\<close>

fun handle_connections ::
  "('f, 's, 'm) web_lib_scheme \<Rightarrow> ('db, 'it, 'n) store_lib_scheme \<Rightarrow> server_config \<Rightarrow> 'db \<Rightarrow> nat
    \<Rightarrow> nat \<Rightarrow> 's \<Rightarrow> 's option" where
  "handle_connections L S config db fuel 0 s = None"
| "handle_connections L S config db fuel (Suc requests) s =
     (case read_request L s of
        (Inl ec, s') \<Rightarrow> Some s'
      | (Inr req, s') \<Rightarrow>
          (case serve_request L S config db fuel req s' of
             None \<Rightarrow> None
           | Some (Continue, s'') \<Rightarrow> handle_connections L S config db fuel requests s''
           | Some (_, s'') \<Rightarrow> Some s''))"

text \<open>Reaching the next read: the requests a connection has served so far.\<close>

inductive serves ::
  "('f, 's, 'm) web_lib_scheme \<Rightarrow> ('db, 'it, 'n) store_lib_scheme \<Rightarrow> server_config \<Rightarrow> 'db \<Rightarrow> nat
    \<Rightarrow> 's \<Rightarrow> http_request list \<Rightarrow> 's \<Rightarrow> bool"
  for L S config db fuel s
where
  start: "serves L S config db fuel s [] s"
| request: "serves L S config db fuel s reqs s1 \<Longrightarrow> read_request L s1 = (Inr req, s2) \<Longrightarrow>
    serve_request L S config db fuel req s2 = Some (Continue, s3) \<Longrightarrow>
    serves L S config db fuel s (reqs @ [req]) s3"

section \<open>Starting to listen\<close>

text \<open>The port is the one the acceptor was bound to.\<close>

definition start_listening :: "16 word \<Rightarrow> server_config \<Rightarrow> server_config" where
  "start_listening bound_port config =
     (let config1 = config\<lparr>sv_listen_port := bound_port\<rparr>
      in config1\<lparr>sv_base_url :=
           ''http://'' @ sv_host_name config1 @ '':'' @ show_nat (unat (sv_listen_port config1))\<rparr>)"

end
