(* ===== verification/Library.thy ===== *)
theory Library
  imports Store
begin

text \<open>
  The abstract specification of the store: a library is a map from identifiers to media objects and
  a map from identifiers to resources. \<open>library_of\<close> reads it off the database's entries,
  \<open>put_items_spec\<close> is what \<^verbatim>\<open>put_items\<close> promises to do to it, and \<open>wf_library\<close> is the
  well-formedness the rest of the server relies on: containers list existing children that name
  them as parent, every object but the root is listed by its parent, artwork and resource
  references lead to stored resources, and stored text is terminated. The lemmas show that the
  detailed operations of \<open>Store\<close> implement the specification and that the specification keeps
  well-formedness.
\<close>

section \<open>Libraries\<close>

record library =
  lib_objects :: "int64 \<rightharpoonup> MediaObject"
  lib_resources :: "int64 \<rightharpoonup> Resource"

definition library_of :: "'m fb_lib_scheme \<Rightarrow> (bytes \<times> bytes) list \<Rightarrow> library" where
  "library_of F es =
     \<lparr>lib_objects = (\<lambda>i. map_option (fb_object_root F) (map_of es (fb_key F (ObjectKey i)))),
      lib_resources = (\<lambda>i. map_option (fb_resource_root F) (map_of es (fb_key F (ResourceKey i))))\<rparr>"

definition children :: "MediaObject \<Rightarrow> bytes list option" where
  "children ob =
     (case mo_data ob of
        MediaContainer objs \<Rightarrow> Some (case objs of None \<Rightarrow> [] | Some refs \<Rightarrow> refs)
      | _ \<Rightarrow> None)"

definition artwork_list :: "MediaObject \<Rightarrow> Artwork list" where
  "artwork_list ob = (case mo_artwork ob of None \<Rightarrow> [] | Some aws \<Rightarrow> aws)"

definition resource_list :: "MediaObject \<Rightarrow> ResourceRef list" where
  "resource_list ob =
     (case mo_data ob of MediaItem (Some refs) \<Rightarrow> refs | _ \<Rightarrow> [])"

text \<open>A container with more children, as it is written back: no empty artwork vector, no date.\<close>

definition add_children :: "bytes list \<Rightarrow> MediaObject \<Rightarrow> MediaObject" where
  "add_children keys ob =
     ob\<lparr>mo_artwork := (if artwork_list ob = [] then None else mo_artwork ob),
        mo_dc_date := 0,
        mo_data := MediaContainer (Some (the (children ob) @ keys))\<rparr>"

definition put_items_spec ::
  "'m fb_lib_scheme \<Rightarrow> int64 \<Rightarrow> MediaObject list \<Rightarrow> (int64 \<times> Resource) list \<Rightarrow> library \<Rightarrow> library" where
  "put_items_spec F parent items resources lib =
     lib\<lparr>lib_objects :=
           (lib_objects lib ++ map_of (rev (map (\<lambda>ob. (mo_id ob, ob)) items)))
             (parent \<mapsto> add_children (map (\<lambda>ob. fb_key F (ObjectKey (mo_id ob))) items)
                          (the (lib_objects lib parent))),
         lib_resources := lib_resources lib ++ map_of (rev resources)\<rparr>"

section \<open>Well-formed libraries\<close>

definition resource_ref :: "'m fb_lib_scheme \<Rightarrow> (int64 \<rightharpoonup> Resource) \<Rightarrow> bytes \<Rightarrow> bool" where
  "resource_ref F res k \<longleftrightarrow> (\<exists>r \<in> dom res. k = fb_key F (ResourceKey r))"

definition wf_object :: "'m fb_lib_scheme \<Rightarrow> (int64 \<rightharpoonup> Resource) \<Rightarrow> MediaObject \<Rightarrow> bool" where
  "wf_object F res ob \<longleftrightarrow>
     stored_string (mo_dc_title ob) \<and> stored_string (mo_upnp_class ob)
     \<and> mo_data ob \<noteq> ObjectUnion_NONE
     \<and> (\<forall>aw \<in> set (artwork_list ob). resource_ref F res (aw_ref aw))
     \<and> (\<forall>rr \<in> set (resource_list ob).
           resource_ref F res (rr_ref rr) \<and> stored_string (rr_protocol_info rr))"

definition wf_resource :: "Resource \<Rightarrow> bool" where
  "wf_resource r \<longleftrightarrow>
     (\<exists>l m. res_location r = Some l \<and> stored_string l
          \<and> res_mime_type r = Some m \<and> stored_string m)"

definition wf_children :: "'m fb_lib_scheme \<Rightarrow> library \<Rightarrow> int64 \<Rightarrow> MediaObject \<Rightarrow> bool" where
  "wf_children F lib i ob \<longleftrightarrow>
     (\<forall>ks. children ob = Some ks \<longrightarrow>
        distinct ks \<and>
        (\<forall>k \<in> set ks. \<exists>c oc. k = fb_key F (ObjectKey c) \<and> lib_objects lib c = Some oc
                          \<and> mo_parent_id oc = i \<and> c \<noteq> 0))"

definition wf_listed :: "'m fb_lib_scheme \<Rightarrow> library \<Rightarrow> int64 \<Rightarrow> MediaObject \<Rightarrow> bool" where
  "wf_listed F lib i ob \<longleftrightarrow>
     (\<exists>po ks. lib_objects lib (mo_parent_id ob) = Some po \<and> children po = Some ks
           \<and> fb_key F (ObjectKey i) \<in> set ks \<and> sint (mo_parent_id ob) < sint i)"

definition wf_root :: "library \<Rightarrow> bool" where
  "wf_root lib \<longleftrightarrow> (\<exists>ob. lib_objects lib 0 = Some ob \<and> children ob \<noteq> None)"

definition wf_library :: "'m fb_lib_scheme \<Rightarrow> library \<Rightarrow> bool" where
  "wf_library F lib \<longleftrightarrow>
     wf_root lib
     \<and> (\<forall>i ob. lib_objects lib i = Some ob \<longrightarrow>
           mo_id ob = i \<and> 0 \<le> sint i \<and> wf_object F (lib_resources lib) ob
           \<and> wf_children F lib i ob \<and> (i \<noteq> 0 \<longrightarrow> wf_listed F lib i ob))
     \<and> (\<forall>i r. lib_resources lib i = Some r \<longrightarrow> 0 \<le> sint i \<and> wf_resource r)"

lemma wf_libraryD:
  assumes "wf_library F lib" and "lib_objects lib i = Some ob"
  shows "mo_id ob = i" "0 \<le> sint i" "wf_object F (lib_resources lib) ob"
    "wf_children F lib i ob" "i \<noteq> 0 \<Longrightarrow> wf_listed F lib i ob"
  using assms by (auto simp: wf_library_def)

lemma resource_ref_mono: "resource_ref F res k \<Longrightarrow> dom res \<subseteq> dom res' \<Longrightarrow> resource_ref F res' k"
  unfolding resource_ref_def by blast

lemma wf_object_mono:
  "wf_object F res ob \<Longrightarrow> dom res \<subseteq> dom res' \<Longrightarrow> wf_object F res' ob"
  using resource_ref_mono unfolding wf_object_def by blast

text \<open>What makes a batch of new items fit a library.\<close>

definition new_items ::
  "'m fb_lib_scheme \<Rightarrow> library \<Rightarrow> int64 \<Rightarrow> MediaObject list \<Rightarrow> (int64 \<times> Resource) list \<Rightarrow> bool" where
  "new_items F lib parent items resources \<longleftrightarrow>
     (\<exists>po. lib_objects lib parent = Some po \<and> children po \<noteq> None)
     \<and> distinct (map mo_id items)
     \<and> (\<forall>ob \<in> set items.
           lib_objects lib (mo_id ob) = None \<and> mo_parent_id ob = parent
           \<and> sint parent < sint (mo_id ob)
           \<and> children ob \<in> {None, Some []}
           \<and> wf_object F (lib_resources lib ++ map_of (rev resources)) ob)
     \<and> (\<forall>(i, r) \<in> set resources. 0 \<le> sint i \<and> wf_resource r)"

lemma add_children_simps [simp]:
  "mo_id (add_children ks ob) = mo_id ob"
  "mo_parent_id (add_children ks ob) = mo_parent_id ob"
  "mo_dc_title (add_children ks ob) = mo_dc_title ob"
  "mo_upnp_class (add_children ks ob) = mo_upnp_class ob"
  "artwork_list (add_children ks ob) = artwork_list ob"
  "resource_list (add_children ks ob) = []"
  "children (add_children ks ob) = Some (the (children ob) @ ks)"
  "mo_data (add_children ks ob) \<noteq> ObjectUnion_NONE"
  by (simp_all add: add_children_def artwork_list_def resource_list_def children_def)

lemma map_of_rev_items:
  assumes "distinct (map f xs)"
  shows "map_of (rev (map (\<lambda>x. (f x, x)) xs)) i = Some x \<longleftrightarrow> x \<in> set xs \<and> f x = i"
proof -
  have "distinct (map fst (rev (map (\<lambda>x. (f x, x)) xs)))"
    using assms by (simp add: comp_def flip: rev_map)
  then show ?thesis by (auto simp: map_of_eq_Some_iff)
qed

lemma map_of_rev_None:
  "map_of (rev (map (\<lambda>x. (f x, x)) xs)) i = None \<longleftrightarrow> i \<notin> f ` set xs"
  by (force simp: map_of_eq_None_iff)

text \<open>The objects of the library after \<open>put_items_spec\<close>.\<close>

lemma put_items_spec_objects:
  assumes "new_items F lib parent items resources"
  shows "lib_objects (put_items_spec F parent items resources lib) i = Some ob \<longleftrightarrow>
    (i = parent \<and> ob = add_children (map (\<lambda>o'. fb_key F (ObjectKey (mo_id o'))) items)
                        (the (lib_objects lib parent))
     \<or> i \<noteq> parent \<and> ob \<in> set items \<and> mo_id ob = i
     \<or> i \<noteq> parent \<and> lib_objects lib i = Some ob)"
proof -
  have "distinct (map mo_id items)" and fresh: "\<forall>o' \<in> set items. lib_objects lib (mo_id o') = None"
    using assms by (auto simp: new_items_def)
  note m = map_of_rev_items [OF this(1)]
  show ?thesis
  proof (cases "map_of (rev (map (\<lambda>o'. (mo_id o', o')) items)) i")
    case None
    then have "i \<notin> mo_id ` set items" by (simp add: map_of_rev_None)
    with None show ?thesis by (auto simp: put_items_spec_def map_add_def)
  next
    case (Some x)
    then have x: "x \<in> set items" "mo_id x = i" by (simp_all add: m)
    with fresh have old: "lib_objects lib i = None" by auto
    have "ob \<in> set items \<and> mo_id ob = i \<longleftrightarrow> x = ob"
      using x Some m [of i ob] by auto
    with Some old show ?thesis
      by (simp add: put_items_spec_def map_add_def) blast
  qed
qed

lemma put_items_spec_resources:
  "dom (lib_resources lib) \<subseteq> dom (lib_resources (put_items_spec F parent items resources lib))"
  by (auto simp: put_items_spec_def)

lemma put_items_spec_kept:
  assumes "new_items F lib parent items resources" and "lib_objects lib i = Some ob"
  shows "\<exists>ob'. lib_objects (put_items_spec F parent items resources lib) i = Some ob'
    \<and> mo_parent_id ob' = mo_parent_id ob
    \<and> (\<forall>cs. children ob = Some cs \<longrightarrow> (\<exists>cs'. children ob' = Some cs' \<and> set cs \<subseteq> set cs'))"
  using assms(2) by (cases "i = parent") (auto simp: put_items_spec_objects [OF assms(1)])

lemma put_items_spec_parent:
  assumes "new_items F lib parent items resources" and "lib_objects lib parent = Some po"
  shows "lib_objects (put_items_spec F parent items resources lib) parent =
    Some (add_children (map (\<lambda>o'. fb_key F (ObjectKey (mo_id o'))) items) po)"
  using assms by (simp add: put_items_spec_objects)

lemma put_items_spec_item:
  assumes "new_items F lib parent items resources" and "o' \<in> set items"
  shows "lib_objects (put_items_spec F parent items resources lib) (mo_id o') = Some o'"
proof -
  have "mo_id o' \<noteq> parent" using assms by (auto simp: new_items_def)
  with assms show ?thesis by (auto simp: put_items_spec_objects)
qed

lemma wf_children_kept:
  assumes new: "new_items F lib parent items resources" and old: "wf_children F lib i ob"
  shows "wf_children F (put_items_spec F parent items resources lib) i ob"
  unfolding wf_children_def
proof (intro allI impI conjI ballI)
  fix ks k assume ks: "children ob = Some ks"
  then show "distinct ks" using old by (simp add: wf_children_def)
  assume "k \<in> set ks"
  then obtain c oc where "k = fb_key F (ObjectKey c)" "lib_objects lib c = Some oc"
    "mo_parent_id oc = i" "c \<noteq> 0"
    using old ks unfolding wf_children_def by blast
  then show "\<exists>c oc. k = fb_key F (ObjectKey c)
      \<and> lib_objects (put_items_spec F parent items resources lib) c = Some oc
      \<and> mo_parent_id oc = i \<and> c \<noteq> 0"
    using put_items_spec_kept [OF new] by metis
qed

lemma wf_listed_kept:
  assumes new: "new_items F lib parent items resources" and old: "wf_listed F lib i ob"
    and same: "mo_parent_id ob' = mo_parent_id ob"
  shows "wf_listed F (put_items_spec F parent items resources lib) i ob'"
  using old put_items_spec_kept [OF new] same unfolding wf_listed_def by (metis subsetD)

lemma wf_object_add_children: "wf_object F res ob \<Longrightarrow> wf_object F res (add_children ks ob)"
  by (simp add: wf_object_def)

context flatbuffers
begin

lemma wf_children_parent:
  assumes wf: "wf_library F lib" and new: "new_items F lib parent items resources"
    and po: "lib_objects lib parent = Some po" "children po = Some ks"
  shows "wf_children F (put_items_spec F parent items resources lib) parent
    (add_children (map (\<lambda>o'. fb_key F (ObjectKey (mo_id o'))) items) po)"
proof -
  let ?lib = "put_items_spec F parent items resources lib"
  let ?keys = "map (\<lambda>o'. fb_key F (ObjectKey (mo_id o'))) items"
  note wf_po = wf_libraryD [OF wf po(1)]
  have item: "lib_objects lib (mo_id o') = None" "mo_parent_id o' = parent" "mo_id o' \<noteq> 0"
    if "o' \<in> set items" for o'
    using new wf_po(2) that by (auto simp: new_items_def)
  have "distinct ?keys"
    using new by (auto simp: new_items_def distinct_map inj_on_def)
  then have distinct: "distinct (ks @ ?keys)"
    using wf_po(4) po(2) item(1) by (fastforce simp: wf_children_def)
  show ?thesis
    unfolding wf_children_def
  proof (intro allI impI conjI ballI)
    fix cs k assume cs: "children (add_children ?keys po) = Some cs"
    then show "distinct cs" using distinct po(2) by simp
    assume "k \<in> set cs"
    with cs po(2) consider "k \<in> set ks"
      | o' where "o' \<in> set items" "k = fb_key F (ObjectKey (mo_id o'))"
      by auto
    then show "\<exists>c oc. k = fb_key F (ObjectKey c) \<and> lib_objects ?lib c = Some oc
        \<and> mo_parent_id oc = parent \<and> c \<noteq> 0"
    proof cases
      case 1
      then show ?thesis
        using wf_children_kept [OF new wf_po(4)] po(2) unfolding wf_children_def by blast
    next
      case 2
      then show ?thesis using put_items_spec_item [OF new] item by blast
    qed
  qed
qed

lemma put_items_spec_wf_object:
  assumes wf: "wf_library F lib" and new: "new_items F lib parent items resources"
    and ob: "lib_objects (put_items_spec F parent items resources lib) i = Some ob"
  shows "mo_id ob = i \<and> 0 \<le> sint i
    \<and> wf_object F (lib_resources (put_items_spec F parent items resources lib)) ob
    \<and> wf_children F (put_items_spec F parent items resources lib) i ob
    \<and> (i \<noteq> 0 \<longrightarrow> wf_listed F (put_items_spec F parent items resources lib) i ob)"
proof -
  let ?lib = "put_items_spec F parent items resources lib"
  let ?keys = "map (\<lambda>o'. fb_key F (ObjectKey (mo_id o'))) items"
  obtain po ks where po: "lib_objects lib parent = Some po" "children po = Some ks"
    using new by (auto simp: new_items_def)
  note wf_po = wf_libraryD [OF wf po(1)]
  have mono: "wf_object F (lib_resources ?lib) ob" if "wf_object F (lib_resources lib) ob" for ob
    using that put_items_spec_resources by (rule wf_object_mono)
  consider (parent) "i = parent" "ob = add_children ?keys po"
    | (item) "ob \<in> set items" "mo_id ob = i" | (old) "lib_objects lib i = Some ob"
    using ob by (auto simp: put_items_spec_objects [OF new] po)
  then show ?thesis
  proof cases
    case parent
    then show ?thesis
      using wf_po wf_children_parent [OF wf new po] wf_listed_kept [OF new wf_po(5)]
        wf_object_add_children [OF mono [OF wf_po(3)]] by simp
  next
    case item
    then have "mo_parent_id ob = parent" "sint parent < sint i" "children ob \<in> {None, Some []}"
      "wf_object F (lib_resources ?lib) ob"
      using new by (auto simp: new_items_def put_items_spec_def)
    with item wf_po(2) put_items_spec_parent [OF new po(1)] show ?thesis
      by (auto simp: wf_children_def wf_listed_def)
  next
    case old
    note wf_ob = wf_libraryD [OF wf old]
    show ?thesis
      using wf_ob mono wf_children_kept [OF new wf_ob(4)] wf_listed_kept [OF new wf_ob(5)] by blast
  qed
qed

lemma put_items_spec_wf:
  assumes wf: "wf_library F lib" and new: "new_items F lib parent items resources"
  shows "wf_library F (put_items_spec F parent items resources lib)"
  unfolding wf_library_def
proof (intro conjI allI impI)
  let ?lib = "put_items_spec F parent items resources lib"
  show "wf_root ?lib"
    using wf put_items_spec_kept [OF new] unfolding wf_library_def wf_root_def by fastforce
  fix i r assume "lib_resources ?lib i = Some r"
  then have "lib_resources lib i = Some r \<or> (i, r) \<in> set resources"
    by (auto simp: put_items_spec_def dest!: map_of_SomeD)
  then show "0 \<le> sint i" "wf_resource r"
    using wf new by (auto simp: wf_library_def new_items_def)
qed (use put_items_spec_wf_object [OF wf new] in blast)+

end

section \<open>Reachability\<close>

text \<open>What a client finds that starts at the root and follows the children of containers.\<close>

inductive reachable :: "'m fb_lib_scheme \<Rightarrow> library \<Rightarrow> int64 \<Rightarrow> bool"
  for F lib
where
  root: "reachable F lib 0"
| child: "reachable F lib p \<Longrightarrow> lib_objects lib p = Some po \<Longrightarrow> children po = Some ks
    \<Longrightarrow> fb_key F (ObjectKey i) \<in> set ks \<Longrightarrow> reachable F lib i"

lemma wf_library_reachable:
  assumes wf: "wf_library F lib" and "i \<in> dom (lib_objects lib)"
  shows "reachable F lib i"
  using assms(2)
proof (induction "nat (sint i)" arbitrary: i rule: less_induct)
  case less
  then obtain ob where ob: "lib_objects lib i = Some ob" by blast
  show ?case
  proof (cases "i = 0")
    case True
    then show ?thesis by (simp add: reachable.root)
  next
    case False
    then obtain po ks where po: "lib_objects lib (mo_parent_id ob) = Some po" "children po = Some ks"
      "fb_key F (ObjectKey i) \<in> set ks" "sint (mo_parent_id ob) < sint i"
      using wf_libraryD(5) [OF wf ob False] unfolding wf_listed_def by blast
    have "0 \<le> sint (mo_parent_id ob)" using wf_libraryD(2) [OF wf po(1)] .
    then have "nat (sint (mo_parent_id ob)) < nat (sint i)" using po(4) by simp
    then have "reachable F lib (mo_parent_id ob)" using less.hyps po(1) by blast
    then show ?thesis using po(1-3) by (rule reachable.child)
  qed
qed

end
