(* ===== verification/Refinement.thy ===== *)
theory Refinement
  imports Library
begin

text \<open>
  The store's operations over a sound backend (a database whose entries are in comparator order and
  whose keys were written by \<open>serialize_key\<close>) implement their specification on the library: reads
  are lookups, \<open>get_next_id\<close> is fresh, \<open>put_items\<close> is \<open>put_items_spec\<close>, and a listing of a
  well-formed library never meets a missing element.
\<close>

section \<open>Containers round trip\<close>

lemma read_container_meta_stored:
  assumes "stored_string (mo_dc_title ob)" and "stored_string (mo_upnp_class ob)"
  obtains t c where "mo_dc_title ob = put_string t" and "mo_upnp_class ob = put_string c"
    and "read_container_meta ob =
      Inr \<lparr>cm_id = mo_id ob, cm_parent_id = mo_parent_id ob, cm_dc_title = t, cm_upnp_class = c,
           cm_artwork = map (\<lambda>aw. (aw_ref aw, aw_type aw)) (artwork_list ob)\<rparr>"
  using assms
  by (auto elim!: stored_stringE
      simp: read_container_meta_def artwork_list_def split: option.splits)

context flatbuffers
begin

lemma container_root:
  "fb_object_root F (serialize_container F contents meta) =
     \<lparr>mo_id = cm_id meta, mo_parent_id = cm_parent_id meta,
      mo_dc_title = put_string (cm_dc_title meta), mo_upnp_class = put_string (cm_upnp_class meta),
      mo_artwork =
        (if cm_artwork meta = [] then None
         else Some (map (\<lambda>(ref, ty). \<lparr>aw_ref = ref, aw_type = ty\<rparr>) (cm_artwork meta))),
      mo_dc_date = 0, mo_data = MediaContainer (Some contents)\<rparr>"
  by (simp add: serialize_container_def)

text \<open>What \<open>serialize_container\<close> writes, \<open>read_container_meta\<close> reads back.\<close>

lemma container_meta_roundtrip:
  "read_container_meta (fb_object_root F (serialize_container F contents meta)) = Inr meta"
  by (auto simp: container_root read_container_meta_def comp_def split_def)

lemma serialize_add_children:
  assumes "children po = Some ks" and "stored_string (mo_dc_title po)"
    and "stored_string (mo_upnp_class po)" and "read_container_meta po = Inr meta"
  shows "fb_object_root F (serialize_container F (ks @ keys) meta) = add_children keys po"
proof -
  obtain t c where tc: "mo_dc_title po = put_string t" "mo_upnp_class po = put_string c"
    and "read_container_meta po =
      Inr \<lparr>cm_id = mo_id po, cm_parent_id = mo_parent_id po, cm_dc_title = t, cm_upnp_class = c,
           cm_artwork = map (\<lambda>aw. (aw_ref aw, aw_type aw)) (artwork_list po)\<rparr>"
    using read_container_meta_stored [OF assms(2,3)] by blast
  then have meta: "meta =
      \<lparr>cm_id = mo_id po, cm_parent_id = mo_parent_id po, cm_dc_title = t, cm_upnp_class = c,
       cm_artwork = map (\<lambda>aw. (aw_ref aw, aw_type aw)) (artwork_list po)\<rparr>"
    using assms(4) by simp
  have "mo_artwork po = Some (artwork_list po)" if "artwork_list po \<noteq> []"
    using that by (auto simp: artwork_list_def split: option.splits)
  moreover have "map (\<lambda>x. \<lparr>aw_ref = aw_ref x, aw_type = aw_type x\<rparr>) aws = aws" for aws :: "Artwork list"
    by (rule map_idI) simp
  ultimately show ?thesis
    using assms(1) tc by (cases po) (auto simp: container_root meta add_children_def comp_def)
qed

end

section \<open>Reading\<close>

lemma library_of_objects:
  "lib_objects (library_of F es) i = Some ob \<longleftrightarrow>
     (\<exists>v. map_of es (fb_key F (ObjectKey i)) = Some v \<and> fb_object_root F v = ob)"
  by (auto simp: library_of_def)

lemma library_of_objects_None:
  "lib_objects (library_of F es) i = None \<longleftrightarrow> map_of es (fb_key F (ObjectKey i)) = None"
  by (auto simp: library_of_def)

context store_backend
begin

lemma cursor_read_library:
  assumes "sound_entries S (snapshot it)"
  shows "fst (cursor_read S (serialize_key S (ObjectKey i)) it) =
    (case lib_objects (library_of S (snapshot it)) i of
       None \<Rightarrow> Inl (RuntimeError ''DB state is corrupted: non-existing element'')
     | Some ob \<Rightarrow> Inr ob)"
    and "snapshot (snd (cursor_read S k it)) = snapshot it"
  using iterator_hit [OF assms, of "serialize_key S (ObjectKey i)"]
  by (auto simp: cursor_read_def Let_def library_of_objects library_of_objects_None serialize_key_def
      split: option.splits)

lemma deserialize_container_library:
  assumes "sound_entries S (snapshot it)"
  shows "deserialize_container S (serialize_key S (ObjectKey i)) it include_meta =
    (case lib_objects (library_of S (snapshot it)) i of
       None \<Rightarrow> Inl (RuntimeError ''Container not found'')
     | Some ob \<Rightarrow>
         (case children ob of
            None \<Rightarrow> Inl (RuntimeError (''Object is not a container. type='' @
                       show_nat (ObjectUnion_code (mo_data ob))))
          | Some ks \<Rightarrow>
              bindE (if include_meta then bindE (read_container_meta ob) (\<lambda>m. Inr (Some m)) else Inr None)
                (\<lambda>m. Inr (ks, m))))"
proof (cases "lib_objects (library_of S (snapshot it)) i")
  case None
  then have "map_of (snapshot it) (serialize_key S (ObjectKey i)) = None"
    by (simp add: library_of_objects_None serialize_key_def)
  then have "\<not> (ldb_valid S (ldb_seek S (serialize_key S (ObjectKey i)) it)
      \<and> ldb_key S (ldb_seek S (serialize_key S (ObjectKey i)) it) = serialize_key S (ObjectKey i))"
    using iterator_hit [OF assms] by simp
  with None show ?thesis by (auto simp: deserialize_container_def Let_def)
next
  case (Some ob)
  then obtain v where v: "map_of (snapshot it) (serialize_key S (ObjectKey i)) = Some v"
    "fb_object_root S v = ob"
    by (auto simp: library_of_objects serialize_key_def)
  then have "ldb_valid S (ldb_seek S (serialize_key S (ObjectKey i)) it)
      \<and> ldb_key S (ldb_seek S (serialize_key S (ObjectKey i)) it) = serialize_key S (ObjectKey i)
      \<and> ldb_value S (ldb_seek S (serialize_key S (ObjectKey i)) it) = v"
    using iterator_hit [OF assms] by blast
  with Some v show ?thesis
    by (cases "mo_data ob")
      (simp_all add: deserialize_container_def Let_def children_def map_idI split: option.splits)
qed

lemma store_list_library:
  assumes "sound_db db" and "lib_objects (library_of S (entries db)) i = Some ob"
    and "children ob = Some ks"
  shows "store_list S i db = Inr \<lparr>db_it = create_iterator S db, objects = ks\<rparr>"
proof -
  have "sound_entries S (snapshot (create_iterator S db))"
    using assms(1) by (simp add: sound_db_def create_iterator_def)
  note d = deserialize_container_library [OF this, of i False]
  have "deserialize_container S (serialize_key S (ObjectKey i)) (create_iterator S db) False = Inr (ks, None)"
    unfolding d using assms(2,3) by (simp add: create_iterator_def)
  then show ?thesis by (simp add: store_list_def Let_def)
qed

lemma get_resource_library:
  assumes "sound_db db"
  shows "get_resource S i db = lib_resources (library_of S (entries db)) i"
proof -
  have "sound_entries S (snapshot (create_iterator S db))"
    using assms by (simp add: sound_db_def create_iterator_def)
  note hit = iterator_hit [OF this, of "serialize_key S (ResourceKey i)"]
  show ?thesis
    using hit
    by (auto simp: get_resource_def Let_def library_of_def serialize_key_def create_iterator_def
        split: option.splits)
qed

end

section \<open>Writing\<close>

lemma put_items_loop_eq:
  "put_items_loop S parent items (batch, data) =
     (if \<forall>buf \<in> set items. mo_parent_id (fb_object_root S buf) = parent
      then Inr (batch @ map (\<lambda>buf. (serialize_key S (ObjectKey (mo_id (fb_object_root S buf))), buf)) items,
                data @ map (\<lambda>buf. serialize_key S (ObjectKey (mo_id (fb_object_root S buf)))) items)
      else Inl (LogicError ''Parent mismatch''))"
  by (induction S parent items "(batch, data)" arbitrary: batch data rule: put_items_loop.induct)
    (auto simp: Let_def)

context store_backend
begin

lemma map_of_object_batch:
  "map_option (fb_object_root S)
     (map_of (map (\<lambda>buf. (fb_key S (ObjectKey (mo_id (fb_object_root S buf))), buf)) bufs)
       (fb_key S (ObjectKey i))) =
   map_of (map (\<lambda>ob. (mo_id ob, ob)) (map (fb_object_root S) bufs)) i"
  by (induction bufs) auto

lemma map_of_resource_batch:
  "map_option (fb_resource_root S)
     (map_of (map (\<lambda>(k, buf). (fb_key S (ResourceKey k), buf)) rs) (fb_key S (ResourceKey i))) =
   map_of (map (\<lambda>(k, buf). (k, fb_resource_root S buf)) rs) i"
  by (induction rs) auto

lemma map_of_other_batch:
  "map_of (map (\<lambda>(k, buf). (fb_key S (ResourceKey k), buf)) rs) (fb_key S (ObjectKey i)) = None"
  "map_of (map (\<lambda>buf. (fb_key S (ObjectKey (f buf)), buf)) bufs) (fb_key S (ResourceKey i)) = None"
  by (auto simp: map_of_eq_None_iff)

definition put_batch :: "bytes list \<Rightarrow> (int64 \<times> bytes) list \<Rightarrow> bytes \<times> bytes \<Rightarrow> (bytes \<times> bytes) list" where
  "put_batch items resources container =
     map (\<lambda>(k, buf). (fb_key S (ResourceKey k), buf)) resources
     @ map (\<lambda>buf. (fb_key S (ObjectKey (mo_id (fb_object_root S buf))), buf)) items
     @ [container]"

lemma put_batch_library:
  assumes "lib_objects (library_of S es) parent = Some po"
    and "fb_object_root S buf =
      add_children (map (\<lambda>ob. fb_key S (ObjectKey (mo_id ob))) (map (fb_object_root S) items)) po"
    and "map_of es' = map_of es ++ map_of (rev (put_batch items resources (fb_key S (ObjectKey parent), buf)))"
  shows "library_of S es' =
    put_items_spec S parent (map (fb_object_root S) items)
      (map (\<lambda>(k, b). (k, fb_resource_root S b)) resources) (library_of S es)"
proof (rule library.equality; simp?)
  have mo: "map_option f (map_add m n x) = map_add (map_option f \<circ> m) (map_option f \<circ> n) x" for f m n x
    by (simp add: map_add_def split: option.splits)
  show "lib_objects (library_of S es') =
    lib_objects (put_items_spec S parent (map (fb_object_root S) items)
      (map (\<lambda>(k, b). (k, fb_resource_root S b)) resources) (library_of S es))"
  proof
    fix i
    show "lib_objects (library_of S es') i =
      lib_objects (put_items_spec S parent (map (fb_object_root S) items)
        (map (\<lambda>(k, b). (k, fb_resource_root S b)) resources) (library_of S es)) i"
      using assms(1,2) map_of_object_batch [of "rev items" i]
      by (auto simp: library_of_def put_items_spec_def assms(3) put_batch_def map_add_def
          rev_map map_of_other_batch comp_def split: option.splits)
  qed
  show "lib_resources (library_of S es') =
    lib_resources (put_items_spec S parent (map (fb_object_root S) items)
      (map (\<lambda>(k, b). (k, fb_resource_root S b)) resources) (library_of S es))"
  proof
    fix i
    show "lib_resources (library_of S es') i =
      lib_resources (put_items_spec S parent (map (fb_object_root S) items)
        (map (\<lambda>(k, b). (k, fb_resource_root S b)) resources) (library_of S es)) i"
      using map_of_resource_batch [of "rev resources" i]
      by (auto simp: library_of_def put_items_spec_def assms(3) put_batch_def map_add_def
          rev_map map_of_other_batch comp_def split_def split: option.splits)
  qed
qed

lemma put_batch_canonical:
  "canonical S (fst container) \<Longrightarrow> \<forall>e \<in> set (put_batch items resources container). canonical S (fst e)"
  by (auto simp: put_batch_def canonical_def)


text \<open>
  \<^verbatim>\<open>put_items\<close> on an existing container with items that name it as parent returns normally; it
  implements \<open>put_items_spec\<close>, unless the backend refuses the batch, and then nothing changes.
\<close>

lemma put_items_library:
  assumes db: "sound_db db"
    and po: "lib_objects (library_of S (entries db)) parent = Some po" "children po \<noteq> None"
      "mo_id po = parent" "stored_string (mo_dc_title po)" "stored_string (mo_upnp_class po)"
    and parents: "\<forall>buf \<in> set items. mo_parent_id (fb_object_root S buf) = parent"
  obtains db' where "put_items S parent items resources db = (Inr (), db')" and "sound_db db'"
    and "library_of S (entries db') =
        put_items_spec S parent (map (fb_object_root S) items)
          (map (\<lambda>(k, b). (k, fb_resource_root S b)) resources) (library_of S (entries db))
      \<or> (\<exists>batch msg. fst (ldb_write S batch db) = Some msg) \<and> entries db' = entries db"
proof -
  let ?pk = "serialize_key S (ObjectKey parent)"
  let ?keys = "map (\<lambda>ob. fb_key S (ObjectKey (mo_id ob))) (map (fb_object_root S) items)"
  obtain ks where ks: "children po = Some ks" using po(2) by blast
  obtain meta where meta: "read_container_meta po = Inr meta"
    using read_container_meta_stored [OF po(4,5)] by blast
  define buf where "buf = serialize_container S (ks @ ?keys) meta"
  define batch where "batch = put_batch items resources (?pk, buf)"
  obtain status db' where w: "ldb_write S batch db = (status, db')" by fastforce
  have "sound_entries S (snapshot (create_iterator S db))"
    using db by (simp add: sound_db_def create_iterator_def)
  then have "deserialize_container S ?pk (create_iterator S db) True = Inr (ks, Some meta)"
    using po(1) ks meta by (simp add: deserialize_container_library create_iterator_def)
  then have put: "put_items S parent items resources db = (Inr (), db')"
    using parents w
    by (simp add: put_items_def Let_def put_items_loop_eq buf_def batch_def put_batch_def
        serialize_key_def comp_def)
  have root: "fb_object_root S buf = add_children ?keys po"
    unfolding buf_def by (rule serialize_add_children [OF ks po(4,5) meta])
  have can: "\<forall>e \<in> set batch. canonical S (fst e)"
    unfolding batch_def by (rule put_batch_canonical) simp
  show thesis
  proof (cases status)
    case None
    note wl = write_lookup [OF db can w [unfolded None]]
    show ?thesis
      by (rule that [OF put wl(1)], rule disjI1, rule put_batch_library [OF po(1) root])
        (use wl(2) in \<open>simp add: batch_def serialize_key_def\<close>)
  next
    case (Some msg)
    then have "entries db' = entries db" using w write_failed by blast
    with that [OF put] db w Some show ?thesis
      unfolding sound_db_def by (metis fst_conv)
  qed
qed

lemma put_items_wf:
  assumes db: "sound_db db" and wf: "wf_library S (library_of S (entries db))"
    and new: "new_items S (library_of S (entries db)) parent (map (fb_object_root S) items)
        (map (\<lambda>(k, b). (k, fb_resource_root S b)) resources)"
  obtains db' where "put_items S parent items resources db = (Inr (), db')" and "sound_db db'"
    and "wf_library S (library_of S (entries db'))"
    and "library_of S (entries db') =
        put_items_spec S parent (map (fb_object_root S) items)
          (map (\<lambda>(k, b). (k, fb_resource_root S b)) resources) (library_of S (entries db))
      \<or> (\<exists>batch msg. fst (ldb_write S batch db) = Some msg) \<and> entries db' = entries db"
proof -
  obtain po where po: "lib_objects (library_of S (entries db)) parent = Some po" "children po \<noteq> None"
    using new by (auto simp: new_items_def)
  have st: "mo_id po = parent" "stored_string (mo_dc_title po)" "stored_string (mo_upnp_class po)"
    using wf_libraryD(1,3) [OF wf po(1)] by (auto simp: wf_object_def)
  have parents: "\<forall>buf \<in> set items. mo_parent_id (fb_object_root S buf) = parent"
    using new by (auto simp: new_items_def)
  obtain db' where db': "put_items S parent items resources db = (Inr (), db')" "sound_db db'"
    "library_of S (entries db') =
        put_items_spec S parent (map (fb_object_root S) items)
          (map (\<lambda>(k, b). (k, fb_resource_root S b)) resources) (library_of S (entries db))
      \<or> (\<exists>batch msg. fst (ldb_write S batch db) = Some msg) \<and> entries db' = entries db"
    using put_items_library [OF db po st parents] by metis
  moreover have "wf_library S (library_of S (entries db'))"
    using db'(3) put_items_spec_wf [OF wf new] wf by auto
  ultimately show thesis using that by blast
qed

end

text \<open>Every outcome of \<^verbatim>\<open>put_items\<close>.\<close>

context store_backend
begin

lemma put_items_cases:
  assumes "sound_db db"
  shows "put_items S parent items resources db =
    (case lib_objects (library_of S (entries db)) parent of
       None \<Rightarrow> (Inl (RuntimeError ''Container not found''), db)
     | Some po \<Rightarrow>
         if children po = None
         then (Inl (RuntimeError (''Object is not a container. type='' @
                 show_nat (ObjectUnion_code (mo_data po)))), db)
         else case read_container_meta po of
                Inl e \<Rightarrow> (Inl e, db)
              | Inr meta \<Rightarrow>
                  if \<exists>buf \<in> set items. mo_parent_id (fb_object_root S buf) \<noteq> parent
                  then (Inl (LogicError ''Parent mismatch''), db)
                  else (Inr (), snd (ldb_write S
                     (map (\<lambda>(k, b). (fb_key S (ResourceKey k), b)) resources
                      @ map (\<lambda>b. (fb_key S (ObjectKey (mo_id (fb_object_root S b))), b)) items
                      @ [(fb_key S (ObjectKey parent),
                          serialize_container S (the (children po) @
                            map (\<lambda>b. fb_key S (ObjectKey (mo_id (fb_object_root S b)))) items) meta)]) db)))"
proof -
  have "sound_entries S (snapshot (create_iterator S db))"
    using assms by (simp add: sound_db_def create_iterator_def)
  note d = deserialize_container_library [OF this, of parent True]
  have snap: "snapshot (create_iterator S db) = entries db" by (simp add: create_iterator_def)
  show ?thesis
    unfolding put_items_def Let_def d snap
    by (auto simp: put_items_loop_eq serialize_key_def split: option.splits sum.splits)
qed

end

section \<open>Fresh identifiers\<close>

definition stored_ids :: "'m fb_lib_scheme \<Rightarrow> (int64 \<Rightarrow> LibraryKey) \<Rightarrow> (bytes \<times> bytes) list \<Rightarrow> int64 set" where
  "stored_ids F mk es = {i. fb_key F (mk i) \<in> fst ` set es}"

lemma between_keys:
  assumes "mk = ObjectKey \<or> mk = ResourceKey" and "mk i \<le> x" and "x \<le> mk j"
  obtains m where "x = mk m" and "sint i \<le> sint m"
  using assms
  by (cases x) (auto simp: less_eq_LibraryKey_def less_LibraryKey_def less_KeyUnion_def)

lemma mk_less_max:
  "mk = ObjectKey \<or> mk = ResourceKey \<Longrightarrow> i \<noteq> int64_max \<Longrightarrow> mk i < mk int64_max"
  using sint_int64_le [of i] sint_inject [of i int64_max]
  by (auto simp: less_LibraryKey_def)

context store_backend
begin

text \<open>The identifiers in use are the domains of the library's maps.\<close>

lemma stored_ids_library:
  "stored_ids S ObjectKey es = dom (lib_objects (library_of S es))"
  "stored_ids S ResourceKey es = dom (lib_resources (library_of S es))"
  by (auto simp: stored_ids_def library_of_def dom_def map_of_eq_None_iff image_iff)

lemma get_next_id_pos:
  fixes mk :: "int64 \<Rightarrow> LibraryKey"
  assumes "sound_db db"
  defines "es \<equiv> entries db" and "p \<equiv> lower_pos (Compare S) (serialize_key S (mk int64_max)) (entries db)"
  shows "get_next_id S mk db =
    (if p = 0 then Inr 0
     else if key_type (fb_key_root S (fst (es ! (p - 1)))) \<noteq> key_type (mk 0) then Inr 0
     else increment (key_id (fb_key_root S (fst (es ! (p - 1))))))"
proof -
  let ?start = "ldb_seek S (serialize_key S (mk int64_max)) (create_iterator S db)"
  let ?it = "if \<not> ldb_valid S ?start then ldb_seek_to_last S ?start else ldb_prev S ?start"
  have start: "snapshot ?start = es" "pos ?start = p"
    by (simp_all add: es_def p_def create_iterator_def)
  have p: "p \<le> length es" by (simp add: p_def es_def lower_pos_le)
  have snap: "snapshot ?it = es" using start by simp
  have it: "ldb_valid S ?it \<longleftrightarrow> p \<noteq> 0"
    "p \<noteq> 0 \<Longrightarrow> ldb_key S ?it = fst (es ! (p - 1))"
    using p start prev_pos [of ?start] key [of ?it] snap by (auto simp: valid)
  show ?thesis
    unfolding get_next_id_def Let_def using it by auto
qed

lemma stored_ids_index:
  assumes "i \<in> stored_ids S mk (entries db)"
  obtains j where "j < length (entries db)" and "fb_key_root S (fst (entries db ! j)) = mk i"
  using assms by (auto simp: stored_ids_def in_set_conv_nth)

lemma get_next_id_max:
  assumes mk: "mk = ObjectKey \<or> mk = ResourceKey" and db: "sound_db db"
    and free: "int64_max \<notin> stored_ids S mk (entries db)"
  shows "if stored_ids S mk (entries db) = {} then get_next_id S mk db = Inr 0
    else \<exists>m \<in> stored_ids S mk (entries db). get_next_id S mk db = Inr (m + 1)
      \<and> (\<forall>i \<in> stored_ids S mk (entries db). sint i \<le> sint m)"
proof -
  let ?es = "entries db"
  define p where "p = lower_pos (Compare S) (serialize_key S (mk int64_max)) ?es"
  let ?root = "\<lambda>j. fb_key_root S (fst (?es ! j))"
  note next_id = get_next_id_pos [OF db, of mk, folded p_def]
  have p_le: "p \<le> length ?es" by (simp add: p_def lower_pos_le)
  have before: "?root j < mk int64_max" if "j < p" for j
    using lower_pos_before that by (fastforce simp: p_def)
  have sorted: "?root i < ?root j" if "i < j" "j < length ?es" for i j
    using db that by (auto simp: sound_db_def sound_entries_def ascending_def sorted_wrt_iff_nth_less)
  have after: "j < p" if "j < length ?es" "?root j < mk int64_max" for j
  proof (rule ccontr)
    assume "\<not> j < p"
    then have "p < length ?es" "p \<le> j" using that by auto
    then have "\<not> ?root p < mk int64_max"
      using lower_pos_at [of "Compare S" "serialize_key S (mk int64_max)" ?es] by (simp add: p_def)
    moreover have "?root p \<le> ?root j"
      using \<open>p \<le> j\<close> that(1) sorted [of p j] by (cases "p = j") auto
    ultimately show False using that(2) by simp
  qed
  have can: "canonical S (fst (?es ! j))" if "j < length ?es" for j
    using db that by (simp add: sound_db_def sound_entries_def)
  have stored: "m \<in> stored_ids S mk ?es" if "j < length ?es" "?root j = mk m" for j m
    using that canonical_root [OF can [OF that(1)]] by (force simp: stored_ids_def)
  have below: "\<exists>m. ?root (p - 1) = mk m \<and> sint i \<le> sint m \<and> 0 < p"
    if i: "i \<in> stored_ids S mk ?es" for i
  proof -
    obtain j where j: "j < length ?es" "?root j = mk i" using stored_ids_index [OF i] by blast
    have "i \<noteq> int64_max" using i free by blast
    then have jp: "j < p" using mk_less_max [OF mk] after j by simp
    then have "mk i \<le> ?root (p - 1)"
      using sorted [of j "p - 1"] j p_le by (cases "j = p - 1") (auto intro!: less_imp_le)
    moreover have "?root (p - 1) \<le> mk int64_max" using before [of "p - 1"] jp by simp
    ultimately show ?thesis using between_keys [OF mk] jp by (metis less_nat_zero_code not_gr0)
  qed
  have mk_simps: "key_type (mk m) = key_type (mk 0)" "key_id (mk m) = m" for m using mk by auto
  show ?thesis
  proof (cases "stored_ids S mk ?es = {}")
    case True
    have "get_next_id S mk db = Inr 0"
    proof (rule ccontr)
      assume "get_next_id S mk db \<noteq> Inr 0"
      then have "0 < p" "key_type (?root (p - 1)) = key_type (mk 0)"
        by (auto simp: next_id split: if_splits)
      moreover from this have "?root (p - 1) = mk (key_id (?root (p - 1)))"
        using mk by (cases "?root (p - 1)") auto
      moreover have "p - 1 < length ?es" using \<open>0 < p\<close> p_le by simp
      ultimately show False using stored [of "p - 1"] True by blast
    qed
    with True show ?thesis by simp
  next
    case False
    then obtain m where m: "?root (p - 1) = mk m" "0 < p" using below by blast
    have "m \<in> stored_ids S mk ?es" using stored [of "p - 1"] m p_le by simp
    moreover from this have "m \<noteq> int64_max" using free by blast
    then have "get_next_id S mk db = Inr (m + 1)" using m mk_simps by (simp add: next_id increment_def)
    moreover have "sint i \<le> sint m" if "i \<in> stored_ids S mk ?es" for i
      using below [OF that] m mk by auto
    ultimately show ?thesis using False by auto
  qed
qed

lemma get_next_id_fresh:
  assumes "mk = ObjectKey \<or> mk = ResourceKey" and "sound_db db"
    and free: "int64_max \<notin> stored_ids S mk (entries db)"
  obtains n where "get_next_id S mk db = Inr n" and "0 \<le> sint n \<or> stored_ids S mk (entries db) \<noteq> {}"
    and "\<forall>i \<in> stored_ids S mk (entries db). sint i < sint n"
proof (cases "stored_ids S mk (entries db) = {}")
  case True
  with get_next_id_max [OF assms] that [of 0] show thesis by auto
next
  case False
  then obtain m where m: "m \<in> stored_ids S mk (entries db)" "get_next_id S mk db = Inr (m + 1)"
    "\<forall>i \<in> stored_ids S mk (entries db). sint i \<le> sint m"
    using get_next_id_max [OF assms] by auto
  then have "sint (m + 1) = sint m + 1" using free by (metis sint_plus1)
  with m False that [of "m + 1"] show thesis by fastforce
qed

end

section \<open>Opening\<close>

text \<open>What every operation relies on: entries a sound backend holds for a well-formed library.\<close>

definition served :: "'m fb_lib_scheme \<Rightarrow> (bytes \<times> bytes) list \<Rightarrow> bool" where
  "served F es \<longleftrightarrow> sound_entries F es \<and> wf_library F (library_of F es)"

definition root_object :: MediaObject where
  "root_object =
     \<lparr>mo_id = 0, mo_parent_id = -1, mo_dc_title = put_string [],
      mo_upnp_class = put_string upnp_container_class, mo_artwork = None, mo_dc_date = 0,
      mo_data = MediaContainer (Some [])\<rparr>"

lemma wf_fresh: "wf_library F \<lparr>lib_objects = [0 \<mapsto> root_object], lib_resources = Map.empty\<rparr>"
  by (auto simp: wf_library_def wf_root_def wf_object_def wf_children_def root_object_def
      children_def artwork_list_def resource_list_def split: if_splits)

context store_backend
begin

lemma open_db_fresh:
  assumes "open_db S path = Inr (False, db)"
  shows "sound_db db"
    and "library_of S (entries db) = \<lparr>lib_objects = [0 \<mapsto> root_object], lib_resources = Map.empty\<rparr>"
proof -
  let ?e = "(serialize_key S (ObjectKey 0), serialize_container S [] root_container)"
  obtain db0 where db0: "ldb_open S True True path = OpenOk db0" "ldb_write S [?e] db0 = (None, db)"
    using assms by (auto simp: open_db_def split: open_status.splits prod.splits option.splits)
  have e0: "entries db0 = []" using open_new db0(1) .
  then have "sound_db db0" by (simp add: sound_db_def sound_entries_def ascending_def)
  moreover have "\<forall>e \<in> set [?e]. canonical S (fst e)" by simp
  ultimately have w: "sound_db db" "map_of (entries db) = [fst ?e \<mapsto> snd ?e]"
    using write_lookup [OF _ _ db0(2)] e0 by simp_all
  then show "sound_db db" by blast
  show "library_of S (entries db) = \<lparr>lib_objects = [0 \<mapsto> root_object], lib_resources = Map.empty\<rparr>"
    using w(2) by (auto simp: library_of_def fun_eq_iff root_object_def container_root root_container_def
        serialize_key_def)
qed

end

end
