(* ===== verification/Serving.thy ===== *)
theory Serving
  imports Content Refinement
begin

text \<open>
  What the content service serves. The range arithmetic gives the requested slice for ranges with a
  first position inside the file; the body loop sends exactly the announced bytes when the file
  has them, a prefix of them when a call fails, and never ends when it has fewer; and the responses
  of \<open>create_response\<close> follow from the library.
\<close>

section \<open>Ranges\<close>

lemma select_range_closed:
  assumes "a \<le> b" and "a < len"
  shows "select_range (Some a) (Some b) len = Inr (a, b)"
  using assms by (simp add: select_range_def not_le not_less)

lemma select_range_from: "a < len \<Longrightarrow> select_range (Some a) None len = Inr (a, len - 1)"
  by (simp add: select_range_def)

lemma select_range_suffix: "select_range None (Some n) len = Inr (len - min len n, min len n)"
  by (simp add: select_range_def Let_def)

lemma select_range_unsatisfiable:
  "len \<le> a \<Longrightarrow> select_range (Some a) l len = Inl (HttpError 416 [])"
  "b < a \<Longrightarrow> select_range (Some a) (Some b) len = Inl (HttpError 416 [])"
  by (simp_all add: select_range_def)

lemma unat_slice_length:
  fixes a b len :: "64 word"
  assumes "a \<le> b" and "b < len"
  shows "unat (b - a + 1) = unat b - unat a + 1" and "unat a + unat (b - a + 1) \<le> unat len"
proof -
  have ab: "unat (b - a) = unat b - unat a" using assms(1) by (simp add: unat_sub)
  have lt: "unat b < unat len" using assms(2) by (simp add: word_less_nat_alt)
  have "unat len < 2 ^ 64" using unsigned_less [of len, where ?'a = nat] by simp
  with lt ab have "unat (b - a) + 1 < 2 ^ 64" by simp
  then show eq: "unat (b - a + 1) = unat b - unat a + 1"
    using ab by (simp add: unat_word_ariths)
  have "unat a \<le> unat b" using assms(1) by (simp add: word_le_nat_alt)
  with eq lt show "unat a + unat (b - a + 1) \<le> unat len" by simp
qed

section \<open>The body\<close>

lemma unat_produce: "unat (min len (4096 :: 64 word)) = min (unat len) 4096"
  by (simp add: min_def word_le_nat_alt)

lemma unat_rest:
  fixes len :: "64 word"
  assumes "k \<le> unat len"
  shows "unat (len - word_of_nat k) = unat len - k"
proof -
  have "unat (word_of_nat k :: 64 word) = k"
    using assms unsigned_less [of len, where ?'a = nat]
    by (simp add: unsigned_of_nat take_bit_nat_eq_self)
  then show ?thesis using assms by (simp add: unat_sub word_le_nat_alt)
qed

definition body_fuel :: "nat \<Rightarrow> nat" where
  "body_fuel n = (n + 4095) div 4096 + 1"

lemma body_fuel_block:
  assumes "0 < n"
  shows "body_fuel n = Suc (body_fuel (n - min n 4096))"
proof (cases "n \<le> 4096")
  case True
  then have "(n + 4095) div 4096 = 1" using assms by (intro div_nat_eqI) simp_all
  with True show ?thesis by (simp add: body_fuel_def)
next
  case False
  then have "n + 4095 = (n - 4096 + 4095) + 4096" by simp
  then have "(n + 4095) div 4096 = (n - 4096 + 4095) div 4096 + 1" by (metis div_add_self2 zero_neq_numeral)
  with False show ?thesis by (simp add: body_fuel_def)
qed

context net_io
begin

lemma body_loop_sends:
  assumes "file_pos f + unat len \<le> length (file_data f)" and "body_fuel (unat len) \<le> fuel"
  shows "\<exists>more s' k. body_loop L fuel len f s = Some (more, s')
    \<and> sent s' = sent s @ take k (drop (file_pos f) (file_data f))
    \<and> k \<le> unat len \<and> (more \<longrightarrow> k = unat len) \<and> (calls_succeed L \<longrightarrow> more)"
  using assms
proof (induction fuel arbitrary: len f s)
  case 0
  then show ?case by (simp add: body_fuel_def)
next
  case (Suc fuel)
  define p where "p = min (unat len) 4096"
  show ?case
  proof (cases "p = 0")
    case True
    then show ?thesis
      by (auto simp: unat_produce p_def intro!: exI [of _ True] exI [of _ s] exI [of _ "0::nat"])
  next
    case False
    obtain r f' where r: "f_read L p f = (r, f')" by fastforce
    have step: "body_loop L (Suc fuel) len f s =
       (case r of Inl ec \<Rightarrow> Some (False, s_close L s)
        | Inr block \<Rightarrow>
            (case s_write L block s of (Some ec, s') \<Rightarrow> Some (False, s')
             | (None, s') \<Rightarrow> body_loop L fuel (len - word_of_nat (length block)) f' s'))"
      using False r by (simp add: unat_produce p_def [symmetric])
    have ok: "\<exists>block. r = Inr block" if "calls_succeed L"
      using that r unfolding calls_succeed_def by (metis fst_conv)
    show ?thesis
    proof (cases r)
      case (Inl ec)
      with ok have "\<not> calls_succeed L" by auto
      with Inl show ?thesis
        by (auto simp: step close_sent simp del: body_loop.simps intro!: exI [of _ False] exI [of _ "s_close L s"] exI [of _ "0::nat"])
    next
      case (Inr block)
      let ?d = "drop (file_pos f) (file_data f)"
      have rd: "block = take p ?d" "file_data f' = file_data f" "file_pos f' = file_pos f + length block"
        using read_ok r Inr by blast+
      have len: "length block = p" using rd(1) Suc.prems(1) by (simp add: p_def)
      obtain w s1 where w: "s_write L block s = (w, s1)" by fastforce
      show ?thesis
      proof (cases w)
        case (Some ec)
        then obtain i where i: "sent s1 = sent s @ take i block" using write_failed w by blast
        have "\<not> calls_succeed L" using w Some unfolding calls_succeed_def by (metis fst_conv option.distinct(1))
        with i Some w Inr rd(1) show ?thesis
          by (auto simp: step p_def simp del: body_loop.simps intro!: exI [of _ False] exI [of _ s1] exI [of _ "min i p"])
      next
        case None
        have s1: "sent s1 = sent s @ block" using write_ok w None by blast
        have rest: "unat (len - word_of_nat p) = unat len - p" by (rule unat_rest) (simp add: p_def)
        have fuel: "body_fuel (unat len) = Suc (body_fuel (unat len - p))"
          using False body_fuel_block [of "unat len"] by (simp add: p_def)
        obtain more s' k where ih: "body_loop L fuel (len - word_of_nat p) f' s1 = Some (more, s')"
          "sent s' = sent s1 @ take k (drop (file_pos f') (file_data f'))"
          "k \<le> unat len - p" "more \<longrightarrow> k = unat len - p" "calls_succeed L \<longrightarrow> more"
          using Suc.IH [of f' "len - word_of_nat p" s1] Suc.prems fuel rest rd(2,3) len by (auto simp: p_def)
        have p_le: "p \<le> unat len" by (simp add: p_def)
        have "take p ?d @ take k (drop p ?d) = take (p + k) ?d" by (simp add: take_add)
        then have "sent s' = sent s @ take (p + k) ?d"
          using ih(2) s1 rd len by (simp add: add.commute)
        with ih p_le step Inr w None len show ?thesis
          by (auto simp del: body_loop.simps intro!: exI [of _ more] exI [of _ s'] exI [of _ "p + k"])
      qed
    qed
  qed
qed

text \<open>When more is announced than the file has left, the loop reads nothing for ever.\<close>

lemma body_loop_livelock:
  assumes "calls_succeed L" and "length (drop (file_pos f) (file_data f)) < unat len"
  shows "body_loop L fuel len f s = None"
  using assms(2)
proof (induction fuel arbitrary: len f s)
  case 0
  then show ?case by simp
next
  case (Suc fuel)
  define p where "p = min (unat len) 4096"
  have "p \<noteq> 0" using Suc.prems by (auto simp: p_def)
  obtain block f' where r: "f_read L p f = (Inr block, f')"
    using assms(1) unfolding calls_succeed_def by (metis prod.collapse)
  obtain s1 where w: "s_write L block s = (None, s1)"
    using assms(1) unfolding calls_succeed_def by (metis prod.collapse)
  have rd: "block = take p (drop (file_pos f) (file_data f))" "file_data f' = file_data f"
    "file_pos f' = file_pos f + length block"
    using read_ok r by blast+
  have len: "length block \<le> p" "length block \<le> length (file_data f) - file_pos f"
    by (simp_all add: rd(1))
  then have "unat (len - word_of_nat (length block)) = unat len - length block"
    by (intro unat_rest) (simp add: p_def)
  moreover have "length (drop (file_pos f') (file_data f')) < unat len - length block"
    using Suc.prems len(2) by (simp add: rd(2,3))
  ultimately have "body_loop L fuel (len - word_of_nat (length block)) f' s1 = None" by (intro Suc.IH) simp
  with \<open>p \<noteq> 0\<close> r w show ?case by (simp add: unat_produce p_def [symmetric])
qed

end

section \<open>The requested range\<close>

lemma requested_range_absent: "field_value (rq_fields req) ''Range'' = [] \<Longrightarrow> requested_range U req = Inr (None, None)"
  by (simp add: requested_range_def)

lemma starts_with_self [simp]: "starts_with (p @ r) p"
  by (auto simp: starts_with_append)

lemma lit_append [simp]: "lit s (s @ r) = Some ((), r)"
  by (simp add: lit_def)

lemma dash_no_digit [simp]: "\<not> is_digit CHR ''-''"
  by (simp add: is_digit_def)

context util
begin

lemma opt_uintmax:
  "n < 2 ^ 64 \<Longrightarrow> no_digit_first r \<Longrightarrow> opt (x3_uintmax U) (show_nat n @ r) = Some (Some n, r)"
  "no_digit_first r \<Longrightarrow> opt (x3_uintmax U) r = Some (None, r)"
  by (simp_all add: opt_def uintmax_parses uintmax_digit)

lemma range_parser_dash:
  assumes "opt (x3_uintmax U) (t @ ''-'' @ r) = Some (a, ''-'' @ r)" and "opt (x3_uintmax U) r = Some (b, [])"
  shows "parse (range_parser U) (''bytes='' @ t @ ''-'' @ r) = Some ((), a, (), b)"
proof -
  have "lit ''-'' (''-'' @ r) = Some ((), r)" by (rule lit_append)
  then have "seq (lit ''-'') (opt (x3_uintmax U)) (''-'' @ r) = Some (((), b), [])"
    using assms(2) by (simp add: seq_def)
  then have "seq (opt (x3_uintmax U)) (seq (lit ''-'') (opt (x3_uintmax U))) (t @ ''-'' @ r) = Some ((a, (), b), [])"
    using assms(1) by (simp add: seq_def)
  moreover have "lit ''bytes='' (''bytes='' @ t @ ''-'' @ r) = Some ((), t @ ''-'' @ r)" by (rule lit_append)
  ultimately show ?thesis by (simp only: parse_Some range_parser_def seq_def option.case prod.case)
qed

lemma requested_range_closed:
  assumes "field_value (rq_fields req) ''Range'' = ''bytes='' @ show_nat a @ ''-'' @ show_nat b"
    and "a < 2 ^ 64" and "b < 2 ^ 64"
  shows "requested_range U req = Inr (Some (word_of_nat a), Some (word_of_nat b))"
proof -
  have "parse (range_parser U) (''bytes='' @ show_nat a @ ''-'' @ show_nat b) = Some ((), Some a, (), Some b)"
    using opt_uintmax(1) [OF assms(2), of "''-'' @ show_nat b"] opt_uintmax(1) [OF assms(3), of "[]"]
    by (intro range_parser_dash) simp_all
  then show ?thesis by (simp add: requested_range_def assms(1))
qed

lemma requested_range_from:
  assumes "field_value (rq_fields req) ''Range'' = ''bytes='' @ show_nat a @ ''-''" and "a < 2 ^ 64"
  shows "requested_range U req = Inr (Some (word_of_nat a), None)"
proof -
  have "parse (range_parser U) (''bytes='' @ show_nat a @ ''-'' @ []) = Some ((), Some a, (), None)"
    using opt_uintmax(1) [OF assms(2), of "''-''"] opt_uintmax(2) [of "[]"]
    by (intro range_parser_dash) simp_all
  then show ?thesis by (simp add: requested_range_def assms(1))
qed

lemma requested_range_suffix:
  assumes "field_value (rq_fields req) ''Range'' = ''bytes=-'' @ show_nat n" and "n < 2 ^ 64"
  shows "requested_range U req = Inr (None, Some (word_of_nat n))"
proof -
  have "parse (range_parser U) (''bytes='' @ [] @ ''-'' @ show_nat n) = Some ((), None, (), Some n)"
    using opt_uintmax(1) [OF assms(2), of "[]"] opt_uintmax(2) [of "''-'' @ show_nat n"]
    by (intro range_parser_dash) simp_all
  then show ?thesis by (simp add: requested_range_def assms(1))
qed

end

section \<open>Responses\<close>

lemma create_response_stored:
  assumes "get_resource S (word_of_int i) db = Some r" and "res_location r = Some (put_string path)"
    and "NUL \<notin> set path" and "f_open L path = FileOpen f"
    and "parse (x3_int64 L) (c_str sub_path) = Some i" and "requested_range L req = Inr rng"
  shows "create_response L S sub_path req db = ranged_response L req rng f"
proof -
  have "takeWhile (\<lambda>c. c \<noteq> NUL) path = path" using assms(3) c_str_no_NUL by (simp add: c_str_def)
  then have "as_cstring (put_string path) = Inr path" by (simp add: as_cstring_put_string)
  then show ?thesis using assms by (simp add: create_response_def)
qed

lemma iequals_fields [simp]:
  "\<not> iequals ''Content-Length'' ''Content-Range''" "\<not> iequals ''Content-Range'' ''Content-Length''"
  by code_simp+

context net_io
begin

lemma full_response:
  assumes "calls_succeed L"
  obtains resp len where "ranged_response L req (None, None) f = Inr (resp, f, len)"
    and "unat len = length (file_data f)" and "rs_status resp = 200"
    and "field_value (rs_fields resp) ''Content-Length'' = show_nat (length (file_data f))"
proof -
  obtain len where len: "f_size L f = Inr len" using assms unfolding calls_succeed_def by blast
  note n = size_ok [OF len]
  show thesis
    by (rule that [of "content_length (unat len) (base_response L req)" len])
      (simp_all add: ranged_response_def len n base_response_def)
qed

text \<open>The response to a range whose positions are selected as \<open>a\<close> and \<open>b\<close>.\<close>

lemma partial_response_at:
  assumes len: "f_size L f = Inr len" and f': "f_seek L a f = Inr f'" and "rng \<noteq> (None, None)"
    and sel: "select_range (fst rng) (snd rng) len = Inr (a, b)"
  obtains resp where "ranged_response L req rng f = Inr (resp, f', b - a + 1)"
    and "file_data f' = file_data f" and "file_pos f' = unat a" and "rs_status resp = 206"
    and "field_value (rs_fields resp) ''Content-Length'' = show_nat (unat (b - a + 1))"
    and "field_value (rs_fields resp) ''Content-Range'' =
      ''bytes '' @ show_word a @ ''-'' @ show_word b @ ''/'' @ show_nat (length (file_data f))"
proof -
  let ?resp = "content_length (unat (b - a + 1))
    (set_field ''Content-Range'' (content_range a b len) ((base_response L req)\<lparr>rs_status := 206\<rparr>))"
  have "\<not> (fst rng = None \<and> snd rng = None)" using assms(3) by (cases rng) auto
  then have "ranged_response L req rng f = Inr (?resp, f', b - a + 1)"
    using sel by (auto simp: ranged_response_def len f' Let_def)
  then show thesis
    using seek_ok [OF f'] size_ok [OF len] by (intro that [of ?resp]) (simp_all add: content_range_def show_word_def)
qed

lemma partial_response:
  assumes "calls_succeed L" and rng: "rng \<noteq> (None, None)"
    and sel: "\<And>len. unat len = length (file_data f) \<Longrightarrow> select_range (fst rng) (snd rng) len = Inr (a, b)"
  obtains resp f' where "ranged_response L req rng f = Inr (resp, f', b - a + 1)"
    and "file_data f' = file_data f" and "file_pos f' = unat a" and "rs_status resp = 206"
    and "field_value (rs_fields resp) ''Content-Length'' = show_nat (unat (b - a + 1))"
    and "field_value (rs_fields resp) ''Content-Range'' =
      ''bytes '' @ show_word a @ ''-'' @ show_word b @ ''/'' @ show_nat (length (file_data f))"
proof -
  obtain len where len: "f_size L f = Inr len" using assms(1) unfolding calls_succeed_def by blast
  obtain f' where f': "f_seek L a f = Inr f'" using assms(1) unfolding calls_succeed_def by blast
  show thesis by (rule partial_response_at [OF len f' rng sel [OF size_ok [OF len]]]) (rule that)
qed

text \<open>The header and the announced bytes, from the position the file was left at.\<close>

lemma content_sends:
  assumes ok: "calls_succeed L" and resp: "create_response L S sub_path req db = Inr (resp, f, len)"
    and "rq_method req \<noteq> Head" and "file_pos f + unat len \<le> length (file_data f)"
    and "body_fuel (unat len) \<le> fuel"
  shows "\<exists>s'. content_handle_request L S db fuel req sub_path s = Some (Inr True, s')
    \<and> sent s' = sent s @ header_bytes L resp @ take (unat len) (drop (file_pos f) (file_data f))"
proof -
  obtain s1 where s1: "s_write L (header_bytes L resp) s = (None, s1)"
    using ok unfolding calls_succeed_def by (metis prod.collapse)
  from body_loop_sends [OF assms(4,5), of s1] obtain more s' k
    where b: "body_loop L fuel len f s1 = Some (more, s')"
      "sent s' = sent s1 @ take k (drop (file_pos f) (file_data f))"
      "more \<longrightarrow> k = unat len" "calls_succeed L \<longrightarrow> more" by blast
  with ok have "body_loop L fuel len f s1 = Some (True, s')"
      "sent s' = sent s1 @ take (unat len) (drop (file_pos f) (file_data f))" by simp_all
  with s1 write_ok [OF s1] resp assms(3) show ?thesis
    by (simp add: content_handle_request_def)
qed

lemma content_stuck:
  assumes ok: "calls_succeed L" and resp: "create_response L S sub_path req db = Inr (resp, f, len)"
    and "rq_method req \<noteq> Head" and "length (drop (file_pos f) (file_data f)) < unat len"
  shows "content_handle_request L S db fuel req sub_path s = None"
proof -
  obtain s1 where s1: "s_write L (header_bytes L resp) s = (None, s1)"
    using ok unfolding calls_succeed_def by (metis prod.collapse)
  with body_loop_livelock [OF ok assms(4)] resp assms(3) show ?thesis
    by (simp add: content_handle_request_def)
qed

end

section \<open>Requests for a stored file\<close>

text \<open>A resource of the library whose location opens as the file \<open>f\<close>.\<close>

definition resource_file :: "('f, 's, 'm) net_lib_scheme \<Rightarrow> library \<Rightarrow> int64 \<Rightarrow> 'f \<Rightarrow> bool" where
  "resource_file L lib i f \<longleftrightarrow>
     (\<exists>r path. lib_resources lib i = Some r \<and> res_location r = Some (put_string path)
          \<and> NUL \<notin> set path \<and> f_open L path = FileOpen f)"

lemma create_response_file:
  assumes backend: "store_backend S entries snapshot pos" and util: "util L"
    and sound: "sound_entries S (entries db)"
    and stored: "resource_file L (library_of S (entries db)) i f" and "requested_range L req = Inr rng"
  shows "create_response L S (show_int (sint i)) req db = ranged_response L req rng f"
proof -
  obtain r path where r: "lib_resources (library_of S (entries db)) i = Some r"
    "res_location r = Some (put_string path)" "NUL \<notin> set path" "f_open L path = FileOpen f"
    using stored by (auto simp: resource_file_def)
  have db: "store_backend.sound_db S entries db"
    using sound by (simp add: store_backend.sound_db_def [OF backend])
  have "get_resource S (word_of_int (sint i)) db = Some r"
    using store_backend.get_resource_library [OF backend db] r(1) by simp
  moreover have "parse (x3_int64 L) (c_str (show_int (sint i))) = Some (sint i)"
    using util.parse_int64_sint [OF util] show_int_plain(4) by simp
  ultimately show ?thesis
    by (rule create_response_stored [OF _ r(2-4) _ assms(5)])
qed

lemma unat_of_nat64: "n < 2 ^ 64 \<Longrightarrow> unat (word_of_nat n :: 64 word) = n"
  by (simp add: unsigned_of_nat take_bit_nat_eq_self)

lemma word_of_nat_le64: "a \<le> b \<Longrightarrow> b < 2 ^ 64 \<Longrightarrow> (word_of_nat a :: 64 word) \<le> word_of_nat b"
  unfolding word_le_nat_alt by (simp only: unat_of_nat64)

lemma word_of_nat_less64:
  fixes len :: "64 word"
  assumes "a < unat len"
  shows "word_of_nat a < len"
proof -
  have "a < 2 ^ 64" using assms unsigned_less [of len, where ?'a = nat] by simp
  then show ?thesis unfolding word_less_nat_alt by (simp only: unat_of_nat64 assms)
qed

context net_io
begin

lemma file_length_bound: "calls_succeed L \<Longrightarrow> length (file_data f) < 2 ^ 64"
proof -
  assume "calls_succeed L"
  then obtain len where "f_size L f = Inr len" unfolding calls_succeed_def by blast
  from size_ok [OF this] show ?thesis using unsigned_less [of len, where ?'a = nat] by simp
qed

lemma resource_file_pos: "resource_file L lib i f \<Longrightarrow> file_pos f = 0"
  using open_pos by (auto simp: resource_file_def)

text \<open>Positions inside the file are sent as they were asked for.\<close>

lemma slice_sends:
  assumes ok: "calls_succeed L" and "rq_method req \<noteq> Head"
    and resp: "create_response L S sub_path req db = ranged_response L req rng f" and rng: "rng \<noteq> (None, None)"
    and sel: "\<And>len. unat len = length (file_data f) \<Longrightarrow>
      select_range (fst rng) (snd rng) len = Inr (word_of_nat a, word_of_nat b)"
    and ab: "a \<le> b" "b < length (file_data f)" and fuel: "body_fuel (b - a + 1) \<le> fuel"
  shows "\<exists>resp s'. content_handle_request L S db fuel req sub_path s = Some (Inr True, s')
    \<and> rs_status resp = 206
    \<and> field_value (rs_fields resp) ''Content-Length'' = show_nat (b - a + 1)
    \<and> field_value (rs_fields resp) ''Content-Range'' =
        ''bytes '' @ show_nat a @ ''-'' @ show_nat b @ ''/'' @ show_nat (length (file_data f))
    \<and> sent s' = sent s @ header_bytes L resp @ take (b - a + 1) (drop a (file_data f))"
proof -
  let ?a = "word_of_nat a :: 64 word" and ?b = "word_of_nat b :: 64 word"
  let ?len = "word_of_nat (length (file_data f)) :: 64 word"
  have size: "length (file_data f) < 2 ^ 64" by (rule file_length_bound [OF ok])
  with ab have ua: "unat ?a = a" "unat ?b = b" "unat ?len = length (file_data f)"
    by (simp_all add: unat_of_nat64)
  have "?a \<le> ?b" "?b < ?len" using ab unfolding word_le_nat_alt word_less_nat_alt ua by simp_all
  note slice = unat_slice_length(1) [OF this] unat_slice_length(2) [OF this]
  have n: "unat (?b - ?a + 1) = b - a + 1" using slice(1) unfolding ua .
  from partial_response [OF ok rng sel] obtain resp f' where
    r: "ranged_response L req rng f = Inr (resp, f', ?b - ?a + 1)"
    "file_data f' = file_data f" "file_pos f' = unat ?a" "rs_status resp = 206"
    "field_value (rs_fields resp) ''Content-Length'' = show_nat (unat (?b - ?a + 1))"
    "field_value (rs_fields resp) ''Content-Range'' =
      ''bytes '' @ show_word ?a @ ''-'' @ show_word ?b @ ''/'' @ show_nat (length (file_data f))" by blast
  have "file_pos f' + unat (?b - ?a + 1) \<le> length (file_data f')"
    unfolding r(2,3) using slice(2) unfolding ua .
  moreover have "body_fuel (unat (?b - ?a + 1)) \<le> fuel" unfolding n by (rule fuel)
  ultimately obtain s' where
    "content_handle_request L S db fuel req sub_path s = Some (Inr True, s')"
    "sent s' = sent s @ header_bytes L resp @ take (unat (?b - ?a + 1)) (drop (file_pos f') (file_data f'))"
    using content_sends [OF ok _ assms(2), of S sub_path db resp f' "?b - ?a + 1" fuel s] resp r(1) by auto
  then show ?thesis
    using r(4-6) unfolding r(2,3) n ua show_word_def by blast
qed

end

lemma unat_announced:
  assumes "a \<le> b" and "b - a + 1 < 2 ^ 64" and "b < 2 ^ 64"
  shows "unat (word_of_nat b - word_of_nat a + 1 :: 64 word) = b - a + 1"
proof -
  have "word_of_nat b - word_of_nat a + 1 = (word_of_nat (b - a + 1) :: 64 word)"
    using assms(1) by (simp add: of_nat_diff)
  then show ?thesis using unat_of_nat64 [OF assms(2)] by (simp only:)
qed

text \<open>
  The length announced for the last \<open>n\<close> bytes of a longer file, when they are less than half of it:
  the positions are \<open>size - n\<close> and \<open>n\<close>, and the difference wraps around.
\<close>

lemma suffix_announced:
  assumes "2 * n + 1 < len" and "len < 2 ^ 64"
  shows "unat (word_of_nat n - word_of_nat (len - n) + 1 :: 64 word) = 2 ^ 64 - (len - 2 * n - 1)"
proof -
  let ?k = "2 ^ 64 - (len - 2 * n - 1)"
  have "int ?k = 2 ^ 64 + int n - int (len - n) + 1" using assms by simp
  then have "of_int (int ?k) = (of_int (2 ^ 64 + int n - int (len - n) + 1) :: 64 word)" by simp
  also have "\<dots> = word_of_nat n - word_of_nat (len - n) + 1"
    by simp
  finally have "word_of_nat ?k = (word_of_nat n - word_of_nat (len - n) + 1 :: 64 word)" by simp
  moreover have "unat (word_of_nat ?k :: 64 word) = ?k" using assms by (intro unat_of_nat64) simp
  ultimately show ?thesis by simp
qed

end
