(* ===== verification/Browse.thy ===== *)
theory Browse
  imports Upnp Refinement
begin

text \<open>
  Browsing a well-formed library. Every stored object has a node (\<open>media_node\<close>), the cursor reads
  every key of a listing, and a Browse request answers with the nodes of exactly the requested part
  of the children; the outcomes of Browse on missing objects and on bad arguments follow.
\<close>

section \<open>Nodes of well-formed objects\<close>

definition media_node :: "'u util_lib_scheme \<Rightarrow> 'n fb_lib_scheme \<Rightarrow> string \<Rightarrow> MediaObject \<Rightarrow> xml" where
  "media_node U F content_base ob =
     (case serialize_media_object U F content_base ob of Inr (Some node) \<Rightarrow> node | _ \<Rightarrow> Pcdata [])"

lemma concat_results_total:
  "\<forall>x \<in> set xs. \<exists>ys. f x = Inr ys \<Longrightarrow> concat_results f xs = Inr (concat (map (projr \<circ> f) xs))"
  by (induction xs) auto

lemma artwork_list_case: "(case mo_artwork ob of None \<Rightarrow> [] | Some aws \<Rightarrow> aws) = artwork_list ob"
  by (simp add: artwork_list_def)

context flatbuffers
begin

lemma resource_ref_root: "resource_ref F res k \<Longrightarrow> \<exists>i. fb_key_root F k = ResourceKey i"
  by (auto simp: resource_ref_def)

lemma serialize_artwork_total:
  "resource_ref F res (aw_ref aw) \<Longrightarrow> \<exists>ns. serialize_artwork F base aw = Inr ns"
  by (auto simp: serialize_artwork_def Let_def dest!: resource_ref_root)

lemma serialize_resource_ref_total:
  "resource_ref F res (rr_ref r) \<Longrightarrow> stored_string (rr_protocol_info r) \<Longrightarrow>
     \<exists>ns. serialize_resource_ref F base r = Inr ns"
  by (auto simp: serialize_resource_ref_def dest!: resource_ref_root stored_string_cstring)

lemma serialize_common_fields_total:
  assumes "wf_object F res ob"
  shows "\<exists>ns. serialize_common_fields U F base ob = Inr ns"
proof -
  have aws: "\<forall>aw \<in> set (artwork_list ob). \<exists>ns. serialize_artwork F base aw = Inr ns"
    using assms serialize_artwork_total unfolding wf_object_def by blast
  have st: "stored_string (mo_dc_title ob)" "stored_string (mo_upnp_class ob)"
    using assms by (simp_all add: wf_object_def)
  obtain t where "as_cstring (mo_dc_title ob) = Inr t" using stored_string_cstring [OF st(1)] ..
  moreover obtain c where "as_cstring (mo_upnp_class ob) = Inr c" using stored_string_cstring [OF st(2)] ..
  ultimately show ?thesis
    by (simp add: serialize_common_fields_def artwork_list_case concat_results_total [OF aws])
qed

lemma serialize_media_object_total:
  assumes wf: "wf_object F res ob"
  shows "serialize_media_object U F base ob = Inr (Some (media_node U F base ob))"
proof -
  obtain fields where fields: "serialize_common_fields U F base ob = Inr fields"
    using serialize_common_fields_total [OF wf] by blast
  show ?thesis
  proof (cases "mo_data ob")
    case ObjectUnion_NONE
    with wf show ?thesis by (simp add: wf_object_def)
  next
    case (MediaContainer objs)
    with fields show ?thesis by (simp add: media_node_def serialize_media_object_def)
  next
    case (MediaItem rs)
    have refs: "(case rs of None \<Rightarrow> [] | Some refs \<Rightarrow> refs) = resource_list ob"
      by (simp add: resource_list_def MediaItem split: option.splits)
    have "\<forall>r \<in> set (resource_list ob). \<exists>ns. serialize_resource_ref F base r = Inr ns"
      using wf serialize_resource_ref_total unfolding wf_object_def by blast
    from concat_results_total [OF this] MediaItem fields show ?thesis
      by (simp add: media_node_def serialize_media_object_def refs)
  qed
qed

lemma item_node:
  assumes "wf_object F res ob" and "mo_data ob = MediaItem refs"
  shows "\<exists>attrs fs. serialize_media_object U F base ob = Inr (Some (Element ''item'' attrs fs))"
proof -
  note node = serialize_media_object_total [OF assms(1), of U base]
  then have "\<exists>attrs fs. media_node U F base ob = Element ''item'' attrs fs"
    using assms(2) by (auto simp: serialize_media_object_def bindE_eq_Inr dest: sym)
  with node show ?thesis by auto
qed

end

section \<open>The links in a node\<close>

text \<open>The texts of the elements of a name, as a client reads them.\<close>

fun links_named :: "string \<Rightarrow> xml list \<Rightarrow> string list" where
  "links_named name [] = []"
| "links_named name (Element n attrs [Pcdata u] # xs) = (if n = name then u # links_named name xs else links_named name xs)"
| "links_named name (x # xs) = links_named name xs"

lemma links_named_append [simp]: "links_named name (xs @ ys) = links_named name xs @ links_named name ys"
  by (induction name xs rule: links_named.induct) auto

lemma links_named_text_element [simp]:
  "links_named name (text_element n t # xs) = (if n = name then [c_str t] else []) @ links_named name xs"
  by (simp add: text_element_def)

definition link_of :: "'n fb_lib_scheme \<Rightarrow> string \<Rightarrow> bytes \<Rightarrow> string" where
  "link_of F content_base ref = c_str (resource_url content_base (key_id (fb_key_root F ref)))"

lemma artwork_link:
  "serialize_artwork F base aw = Inr xs \<Longrightarrow>
     links_named ''res'' xs = [] \<and> links_named ''upnp:albumArtURI'' xs = [link_of F base (aw_ref aw)]"
  by (auto simp: serialize_artwork_def link_of_def Let_def split: LibraryKey.splits)

lemma resource_link:
  "serialize_resource_ref F base r = Inr xs \<Longrightarrow>
     links_named ''res'' xs = [link_of F base (rr_ref r)] \<and> links_named ''upnp:albumArtURI'' xs = []"
  by (auto simp: serialize_resource_ref_def link_of_def bindE_eq_Inr split: LibraryKey.splits)

lemma artwork_links:
  "concat_results (serialize_artwork F base) aws = Inr ns \<Longrightarrow>
     links_named ''res'' ns = [] \<and> links_named ''upnp:albumArtURI'' ns = map (\<lambda>aw. link_of F base (aw_ref aw)) aws"
proof (induction aws arbitrary: ns)
  case Nil
  then show ?case by simp
next
  case (Cons aw aws)
  then obtain xs ys where "serialize_artwork F base aw = Inr xs"
    "concat_results (serialize_artwork F base) aws = Inr ys" "ns = xs @ ys"
    by (auto simp: bindE_eq_Inr)
  with Cons.IH [of ys] artwork_link [of F base aw xs] show ?case by simp
qed

lemma resource_links:
  "concat_results (serialize_resource_ref F base) rs = Inr ns \<Longrightarrow>
     links_named ''res'' ns = map (\<lambda>r. link_of F base (rr_ref r)) rs \<and> links_named ''upnp:albumArtURI'' ns = []"
proof (induction rs arbitrary: ns)
  case Nil
  then show ?case by simp
next
  case (Cons r rs)
  then obtain xs ys where "serialize_resource_ref F base r = Inr xs"
    "concat_results (serialize_resource_ref F base) rs = Inr ys" "ns = xs @ ys"
    by (auto simp: bindE_eq_Inr)
  with Cons.IH [of ys] resource_link [of F base r xs] show ?case by simp
qed

lemma serialize_media_object_links:
  assumes "serialize_media_object U F base ob = Inr (Some (Element name attrs fs))"
  shows "links_named ''res'' fs = map (\<lambda>r. link_of F base (rr_ref r)) (resource_list ob)"
    and "links_named ''upnp:albumArtURI'' fs = map (\<lambda>aw. link_of F base (aw_ref aw)) (artwork_list ob)"
proof -
  obtain fields where fields: "serialize_common_fields U F base ob = Inr fields"
    using assms by (cases "mo_data ob") (auto simp: serialize_media_object_def bindE_eq_Inr)
  then obtain ns where "concat_results (serialize_artwork F base) (artwork_list ob) = Inr ns"
    "links_named ''res'' fields = links_named ''res'' ns"
    "links_named ''upnp:albumArtURI'' fields = links_named ''upnp:albumArtURI'' ns"
    by (auto simp: serialize_common_fields_def artwork_list_case bindE_eq_Inr)
  with artwork_links [of F base "artwork_list ob"] have common: "links_named ''res'' fields = []"
    "links_named ''upnp:albumArtURI'' fields = map (\<lambda>aw. link_of F base (aw_ref aw)) (artwork_list ob)"
    by simp_all
  have "links_named ''res'' fs = map (\<lambda>r. link_of F base (rr_ref r)) (resource_list ob)
    \<and> links_named ''upnp:albumArtURI'' fs = map (\<lambda>aw. link_of F base (aw_ref aw)) (artwork_list ob)"
  proof (cases "mo_data ob")
    case (MediaItem rs)
    then have refs: "(case rs of None \<Rightarrow> [] | Some refs \<Rightarrow> refs) = resource_list ob"
      by (simp add: resource_list_def split: option.splits)
    from assms MediaItem fields obtain res where
      "concat_results (serialize_resource_ref F base) (resource_list ob) = Inr res" "fs = fields @ res"
      by (auto simp: serialize_media_object_def bindE_eq_Inr refs)
    with resource_links [of F base "resource_list ob" res] common show ?thesis by simp
  next
    case (MediaContainer objs)
    with assms fields common show ?thesis by (auto simp: serialize_media_object_def resource_list_def)
  next
    case ObjectUnion_NONE
    with assms show ?thesis by (simp add: serialize_media_object_def)
  qed
  then show "links_named ''res'' fs = map (\<lambda>r. link_of F base (rr_ref r)) (resource_list ob)"
    "links_named ''upnp:albumArtURI'' fs = map (\<lambda>aw. link_of F base (aw_ref aw)) (artwork_list ob)"
    by simp_all
qed

section \<open>Listings\<close>

definition listed_object :: "'n fb_lib_scheme \<Rightarrow> library \<Rightarrow> bytes \<Rightarrow> MediaObject" where
  "listed_object F lib k = the (lib_objects lib (key_id (fb_key_root F k)))"

context store_backend
begin

lemma cursor_read_hit:
  assumes "sound_entries S (snapshot it)" and "lib_objects (library_of S (snapshot it)) i = Some ob"
  obtains it' where "cursor_read S (fb_key S (ObjectKey i)) it = (Inr ob, it')"
    and "snapshot it' = snapshot it"
  using cursor_read_library(1) [OF assms(1), of i] assms(2) that
    cursor_read_library(2) [OF assms(1), of "fb_key S (ObjectKey i)"]
  by (cases "cursor_read S (fb_key S (ObjectKey i)) it") (auto simp: serialize_key_def)

lemma serialize_listing_library:
  assumes "sound_entries S (snapshot it)"
    and "\<forall>k \<in> set ks. \<exists>i ob. k = fb_key S (ObjectKey i)
           \<and> lib_objects (library_of S (snapshot it)) i = Some ob \<and> wf_object S res ob"
  shows "serialize_listing U S base ks it =
    Inr (map (media_node U S base \<circ> listed_object S (library_of S (snapshot it))) ks, length ks)"
  using assms
proof (induction ks arbitrary: it)
  case Nil
  then show ?case by simp
next
  case (Cons k ks)
  obtain i ob where i: "k = fb_key S (ObjectKey i)" "lib_objects (library_of S (snapshot it)) i = Some ob"
    "wf_object S res ob"
    using Cons.prems(2) by auto
  obtain it' where it': "cursor_read S k it = (Inr ob, it')" "snapshot it' = snapshot it"
    using cursor_read_hit [OF Cons.prems(1) i(2)] i(1) by blast
  have "serialize_listing U S base ks it' =
      Inr (map (media_node U S base \<circ> listed_object S (library_of S (snapshot it))) ks, length ks)"
    using Cons.IH [of it'] Cons.prems it'(2) by simp
  then show ?case
    using it'(1) i by (simp add: serialize_media_object_total [OF i(3)] listed_object_def)
qed

lemma children_listed:
  assumes wf: "wf_library S lib" and "lib_objects lib i = Some ob" and "children ob = Some ks"
  shows "\<forall>k \<in> set ks. \<exists>c oc. k = fb_key S (ObjectKey c) \<and> lib_objects lib c = Some oc
           \<and> wf_object S (lib_resources lib) oc"
proof
  fix k assume "k \<in> set ks"
  then obtain c oc where "k = fb_key S (ObjectKey c)" "lib_objects lib c = Some oc"
    using wf_libraryD(4) [OF wf assms(2)] assms(3) unfolding wf_children_def by blast
  with wf_libraryD(3) [OF wf] show "\<exists>c oc. k = fb_key S (ObjectKey c) \<and> lib_objects lib c = Some oc
           \<and> wf_object S (lib_resources lib) oc" by blast
qed

lemma set_requested_slice: "set (requested_slice a b ks) \<subseteq> set ks"
  by (auto simp: requested_slice_def Let_def dest: in_set_takeD in_set_dropD)

text \<open>A page of the children of a container.\<close>

lemma browse_children:
  assumes db: "sound_db db" and wf: "wf_library S (library_of S (entries db))"
    and ob: "lib_objects (library_of S (entries db)) i = Some ob" "children ob = Some ks"
  shows "bindE (browse_contents S ''BrowseDirectChildren'' i db)
      (\<lambda>view. browse_response L S view start cnt base) =
    Inr (xml_print L (browse_document (length (requested_slice start cnt ks)) (length ks)
      (xml_print L (didl_document
         (map (media_node L S base \<circ> listed_object S (library_of S (entries db)))
           (requested_slice start cnt ks))) @ [NUL])))"
proof -
  have view: "store_list S i db = Inr \<lparr>db_it = create_iterator S db, objects = ks\<rparr>"
    by (rule store_list_library [OF db ob])
  have snap: "snapshot (create_iterator S db) = entries db" by (simp add: create_iterator_def)
  have "\<forall>k \<in> set (requested_slice start cnt ks). \<exists>c oc. k = fb_key S (ObjectKey c)
      \<and> lib_objects (library_of S (snapshot (create_iterator S db))) c = Some oc
      \<and> wf_object S (lib_resources (library_of S (entries db))) oc"
    using children_listed [OF wf ob] set_requested_slice unfolding snap by blast
  from serialize_listing_library [OF _ this, of L base] db view show ?thesis
    by (simp add: browse_contents_def browse_response_def append_null_def snap sound_db_def)
qed

text \<open>The metadata of one object; a page that starts behind it is empty.\<close>

lemma browse_metadata:
  assumes db: "sound_db db" and wf: "wf_library S (library_of S (entries db))"
    and ob: "lib_objects (library_of S (entries db)) i = Some ob"
  shows "bindE (browse_contents S ''BrowseMetadata'' i db)
      (\<lambda>view. browse_response L S view 0 cnt base) =
    Inr (xml_print L (browse_document 1 1
      (xml_print L (didl_document [media_node L S base ob]) @ [NUL])))"
proof -
  let ?k = "serialize_key S (ObjectKey i)"
  have snap: "snapshot (create_iterator S db) = entries db" by (simp add: create_iterator_def)
  have slice: "requested_slice 0 cnt [?k] = [?k]"
    by (cases "unat cnt") (auto simp: requested_slice_def Let_def unat_eq_0)
  have "\<forall>k \<in> set [?k]. \<exists>c oc. k = fb_key S (ObjectKey c)
      \<and> lib_objects (library_of S (snapshot (create_iterator S db))) c = Some oc
      \<and> wf_object S (lib_resources (library_of S (entries db))) oc"
    using ob wf_libraryD(3) [OF wf ob] by (auto simp: snap serialize_key_def)
  from serialize_listing_library [OF _ this, of L base] db ob slice show ?thesis
    by (simp add: browse_contents_def browse_response_def append_null_def store_get_def snap sound_db_def
        listed_object_def serialize_key_def)
qed

text \<open>Browsing what is not there, or what is no container.\<close>

lemma browse_missing:
  assumes db: "sound_db db" and "lib_objects (library_of S (entries db)) i = None"
  shows "browse_contents S ''BrowseDirectChildren'' i db = Inl (RuntimeError ''Container not found'')"
    and "bindE (browse_contents S ''BrowseMetadata'' i db) (\<lambda>view. browse_response L S view 0 cnt base) =
      Inl (RuntimeError ''DB state is corrupted: non-existing element'')"
proof -
  let ?k = "serialize_key S (ObjectKey i)"
  have s: "sound_entries S (snapshot (create_iterator S db))"
    using db by (simp add: sound_db_def create_iterator_def)
  have none: "lib_objects (library_of S (snapshot (create_iterator S db))) i = None"
    using assms(2) by (simp add: create_iterator_def)
  show "browse_contents S ''BrowseDirectChildren'' i db = Inl (RuntimeError ''Container not found'')"
    using deserialize_container_library [OF s, of i False] none
    by (simp add: browse_contents_def store_list_def Let_def)
  have "fst (cursor_read S ?k (create_iterator S db)) =
      Inl (RuntimeError ''DB state is corrupted: non-existing element'')"
    using cursor_read_library(1) [OF s, of i] none by simp
  moreover have "requested_slice 0 cnt [?k] = [?k]"
    by (cases "unat cnt") (auto simp: requested_slice_def Let_def unat_eq_0)
  ultimately show "bindE (browse_contents S ''BrowseMetadata'' i db) (\<lambda>view. browse_response L S view 0 cnt base) =
      Inl (RuntimeError ''DB state is corrupted: non-existing element'')"
    by (cases "cursor_read S ?k (create_iterator S db)")
      (simp add: browse_contents_def browse_response_def append_null_def store_get_def)
qed

end

section \<open>Pages\<close>

text \<open>The part of a listing that a page shows, on natural numbers.\<close>

definition listing_page :: "nat \<Rightarrow> nat \<Rightarrow> 'a list \<Rightarrow> 'a list" where
  "listing_page start cnt xs = (if cnt = 0 then drop start xs else take cnt (drop start xs))"

lemma unat_of_nat32: "n < 2 ^ 32 \<Longrightarrow> unat (word_of_nat n :: 32 word) = n"
  by (simp add: unsigned_of_nat take_bit_nat_eq_self)

lemma requested_slice_page:
  assumes "start < 2 ^ 32" and "cnt < 2 ^ 32" and "length ks < 2 ^ 32"
  shows "requested_slice (word_of_nat start) (word_of_nat cnt) ks = listing_page start cnt ks"
proof -
  have zero: "(word_of_nat cnt :: 32 word) = 0 \<longleftrightarrow> cnt = 0"
    by (simp only: unat_eq_0 [symmetric] unat_of_nat32 [OF assms(2)])
  have "take (length ks) (drop start ks) = drop start ks" by simp
  moreover have "unat (if (word_of_nat cnt :: 32 word) = 0 then word_of_nat (length ks) else word_of_nat cnt :: 32 word)
      = (if cnt = 0 then length ks else cnt)"
    unfolding zero using unat_of_nat32 [OF assms(2)] unat_of_nat32 [OF assms(3)] by (cases "cnt = 0") simp_all
  ultimately show ?thesis
    unfolding requested_slice_def listing_page_def Let_def unat_of_nat32 [OF assms(1)] by simp
qed

lemma listing_pages_cover:
  assumes "0 < cnt" and "length ks \<le> pages * cnt"
  shows "concat (map (\<lambda>i. listing_page (i * cnt) cnt ks) [0..<pages]) = ks"
proof -
  have "concat (map (\<lambda>i. listing_page (i * cnt) cnt ks) [0..<n]) = take (n * cnt) ks" for n
  proof (induction n)
    case 0
    then show ?case by simp
  next
    case (Suc n)
    then show ?case
      using assms(1) by (simp add: listing_page_def take_add [symmetric] add.commute)
  qed
  with assms(2) show ?thesis by simp
qed

lemma listing_page_bound:
  fixes n :: nat
  assumes "i < pages" and "pages * cnt < n"
  shows "i * cnt < n" and "cnt < n"
proof -
  have "i * cnt \<le> pages * cnt" using assms(1) by (intro mult_le_mono1) simp
  then show "i * cnt < n" using assms(2) by (rule le_less_trans)
  have "1 * cnt \<le> pages * cnt" using assms(1) by (intro mult_le_mono1) simp
  then have "1 * cnt < n" using assms(2) by (rule le_less_trans)
  then show "cnt < n" by simp
qed

text \<open>The arguments of a Browse.\<close>

definition browse_arguments :: "soap_action_info \<Rightarrow> string \<Rightarrow> int \<Rightarrow> nat \<Rightarrow> nat \<Rightarrow> bool" where
  "browse_arguments info flag i start cnt \<longleftrightarrow>
     child_value ''BrowseFlag'' (sa_params info) = flag
     \<and> child_value ''ObjectID'' (sa_params info) = show_int i
     \<and> child_value ''StartingIndex'' (sa_params info) = show_nat start
     \<and> child_value ''RequestedCount'' (sa_params info) = show_nat cnt"

lemma cds_browse_arguments:
  assumes "util L" and "browse_arguments info flag (sint i) start cnt"
    and "start < 2 ^ 32" and "cnt < 2 ^ 32"
  shows "cds_browse L S config db info =
    bindE (browse_contents S flag i db) (\<lambda>contents.
      browse_response L S contents (word_of_nat start) (word_of_nat cnt) (sv_base_url config))"
  using assms util.parse_int64_sint [OF assms(1), of i] util.parse_uint32 [OF assms(1), of start]
    util.parse_uint32 [OF assms(1), of cnt]
  by (simp add: cds_browse_def browse_arguments_def)

text \<open>What a Browse that cannot be answered throws.\<close>

definition browse_failure :: "library \<Rightarrow> string \<Rightarrow> int64 \<Rightarrow> string option" where
  "browse_failure lib flag i =
     (case lib_objects lib i of
        None \<Rightarrow>
          if flag = ''BrowseDirectChildren'' then Some ''Container not found''
          else if flag = ''BrowseMetadata'' then Some ''DB state is corrupted: non-existing element''
          else None
      | Some ob \<Rightarrow>
          if flag = ''BrowseDirectChildren'' \<and> children ob = None
          then Some (''Object is not a container. type='' @ show_nat (ObjectUnion_code (mo_data ob)))
          else None)"

text \<open>The nodes of a list of keys of a library.\<close>

definition listed_nodes :: "'u util_lib_scheme \<Rightarrow> 'n fb_lib_scheme \<Rightarrow> string \<Rightarrow> library \<Rightarrow> bytes list \<Rightarrow> xml list" where
  "listed_nodes U F base lib ks = map (\<lambda>k. media_node U F base (listed_object F lib k)) ks"

context store_backend
begin

lemma cds_browse_children:
  assumes util: "util L" and db: "sound_db db" and wf: "wf_library S (library_of S (entries db))"
    and ob: "lib_objects (library_of S (entries db)) i = Some ob" "children ob = Some ks"
    and args: "browse_arguments info ''BrowseDirectChildren'' (sint i) start cnt"
    and bounds: "start < 2 ^ 32" "cnt < 2 ^ 32" "length ks < 2 ^ 32"
  shows "cds_browse L S config db info =
    Inr (xml_print L (browse_document (length (listing_page start cnt ks)) (length ks)
      (xml_print L (didl_document (listed_nodes L S (sv_base_url config) (library_of S (entries db))
        (listing_page start cnt ks))) @ [NUL])))"
  unfolding cds_browse_arguments [OF util args bounds(1,2)]
  using browse_children [OF db wf ob, where L = L and start = "word_of_nat start"
      and cnt = "word_of_nat cnt" and base = "sv_base_url config"]
  by (simp add: requested_slice_page [OF bounds] listed_nodes_def comp_def)

lemma cds_browse_metadata:
  assumes util: "util L" and db: "sound_db db" and wf: "wf_library S (library_of S (entries db))"
    and ob: "lib_objects (library_of S (entries db)) i = Some ob"
    and args: "browse_arguments info ''BrowseMetadata'' (sint i) 0 cnt" and bound: "cnt < 2 ^ 32"
  shows "cds_browse L S config db info =
    Inr (xml_print L (browse_document 1 1
      (xml_print L (didl_document [media_node L S (sv_base_url config) ob]) @ [NUL])))"
  using browse_metadata [OF db wf ob, where L = L and cnt = "word_of_nat cnt" and base = "sv_base_url config"]
  by (simp add: cds_browse_arguments [OF util args _ bound])

lemma cds_browse_fails:
  assumes util: "util L" and db: "sound_db db"
    and failure: "browse_failure (library_of S (entries db)) flag i = Some what"
    and args: "browse_arguments info flag (sint i) start cnt"
    and bounds: "start < 2 ^ 32" "cnt < 2 ^ 32" "flag = ''BrowseMetadata'' \<longrightarrow> start = 0"
  shows "cds_browse L S config db info = Inl (RuntimeError what)"
proof (cases "lib_objects (library_of S (entries db)) i")
  case None
  from None failure bounds(3) consider
      "flag = ''BrowseDirectChildren''" "what = ''Container not found''"
    | "flag = ''BrowseMetadata''" "start = 0" "what = ''DB state is corrupted: non-existing element''"
    by (auto simp: browse_failure_def split: if_splits)
  then show ?thesis
    by cases (simp_all add: cds_browse_arguments [OF util args bounds(1,2)] browse_missing [OF db None])
next
  case (Some ob)
  have "sound_entries S (snapshot (create_iterator S db))"
    using db by (simp add: sound_db_def create_iterator_def)
  from deserialize_container_library [OF this, of i False] Some failure
  have "browse_contents S flag i db = Inl (RuntimeError what)"
    by (auto simp: browse_failure_def browse_contents_def store_list_def Let_def create_iterator_def split: if_splits)
  then show ?thesis by (simp add: cds_browse_arguments [OF util args bounds(1,2)])
qed

end

end
