(* ===== verification/Answers.thy ===== *)
theory Answers
  imports Server Serving Browse
begin

text \<open>
  What a connection sends. \<open>answer\<close> is the specification: the bytes a request is answered with, as a
  function of the database and the files, or nothing when the connection is dropped instead. The
  server's handlers, which interleave reading, deciding and writing, implement it: a request that
  is served and followed by another read has sent exactly its answer, whatever calls fail; and when
  calls succeed and files hold what is announced, a request with an answer is served.
\<close>

section \<open>The specification\<close>

definition upnp_reply ::
  "('f, 's, 'm) web_lib_scheme \<Rightarrow> ('db, 'it, 'n) store_lib_scheme \<Rightarrow> server_config \<Rightarrow> 'db
    \<Rightarrow> http_request \<Rightarrow> string \<Rightarrow> http_response result" where
  "upnp_reply L S config db req sub_path =
     (let page = (\<lambda>body. create_buffer_response L req body ''text/xml'' 200)
      in if sub_path = ''device'' then Inr (page (root_device_description L config))
         else if sub_path = ''cds.xml'' then Inr (page (make_string_buffer (cds_document L)))
         else if sub_path = ''cm.xml'' then Inr (page (make_string_buffer (cm_document L)))
         else bindE (parse_soap_request L req) (\<lambda>soap_info.
           if sub_path \<noteq> ''cds'' then Inl (HttpError 404 ''Not found'')
           else if sa_action soap_info \<noteq> ''Browse'' then Inl (HttpError 400 ''Invalid action'')
           else bindE (cds_browse L S config db soap_info) (\<lambda>body. Inr (page body))))"

definition error_reply :: "('f, 's, 'm) web_lib_scheme \<Rightarrow> http_request \<Rightarrow> exn \<Rightarrow> http_response option" where
  "error_reply L req e =
     (case e of
        HttpError status what \<Rightarrow> Some (make_error_response (beast_version L) status what req)
      | UpnpError code what \<Rightarrow> Some (make_upnp_error_response L code what req)
      | _ \<Rightarrow> None)"

definition reply_bytes ::
  "('f, 's, 'm) web_lib_scheme \<Rightarrow> http_request \<Rightarrow> bytes result \<Rightarrow> bytes option" where
  "reply_bytes L req r =
     (case r of
        Inr bs \<Rightarrow> Some bs
      | Inl e \<Rightarrow> map_option (message_bytes L) (error_reply L req e))"

definition content_bytes ::
  "('f, 's, 'm) web_lib_scheme \<Rightarrow> ('f \<Rightarrow> bytes) \<Rightarrow> ('f \<Rightarrow> nat) \<Rightarrow> http_request
    \<Rightarrow> http_response \<times> 'f \<times> 64 word \<Rightarrow> bytes" where
  "content_bytes L file_data file_pos req r =
     (case r of (resp, f, len) \<Rightarrow>
        header_bytes L resp
        @ (if rq_method req = Head then [] else take (unat len) (drop (file_pos f) (file_data f))))"

definition answer ::
  "('f, 's, 'm) web_lib_scheme \<Rightarrow> ('f \<Rightarrow> bytes) \<Rightarrow> ('f \<Rightarrow> nat) \<Rightarrow> ('db, 'it, 'n) store_lib_scheme
    \<Rightarrow> server_config \<Rightarrow> 'db \<Rightarrow> http_request \<Rightarrow> bytes option" where
  "answer L file_data file_pos S config db req =
     (case route_of (rq_target req) of
        Welcome \<Rightarrow> Some (message_bytes L (make_error_response (beast_version L) 200 welcome_page req))
      | UpnpRoute sub_path \<Rightarrow>
          reply_bytes L req (bindE (upnp_reply L S config db req sub_path) (\<lambda>r. Inr (message_bytes L r)))
      | ContentRoute sub_path \<Rightarrow>
          reply_bytes L req (bindE (create_response L S sub_path req db)
            (\<lambda>r. Inr (content_bytes L file_data file_pos req r)))
      | UnknownRoute _ \<Rightarrow>
          Some (message_bytes L (make_error_response (beast_version L) 404 ''Not found'' req)))"

section \<open>The handlers against the specification\<close>

text \<open>The UPnP handler decides its reply, then writes it.\<close>

lemma handle_upnp_request_eq:
  "handle_upnp_request L S config db req sub_path s =
     (case upnp_reply L S config db req sub_path of
        Inl e \<Rightarrow> (Inl e, s)
      | Inr resp \<Rightarrow> write_response L resp s)"
  by (auto simp: handle_upnp_request_def upnp_reply_def handle_cds_browse_def Let_def
      split: sum.splits if_splits)

lemma handle_exception_eq:
  "handle_exception L req e s =
     (case error_reply L req e of
        None \<Rightarrow> (Terminated e, s)
      | Some resp \<Rightarrow> send_or_terminate L resp s)"
  by (simp add: handle_exception_def error_reply_def split: exn.splits)

lemma send_or_terminate_cases:
  "(\<exists>s'. s_write L (message_bytes L resp) s = (None, s') \<and> send_or_terminate L resp s = (Continue, s'))
   \<or> (\<exists>ec s'. s_write L (message_bytes L resp) s = (Some ec, s')
        \<and> send_or_terminate L resp s = (Terminated (SystemError ec), s'))"
  by (cases "s_write L (message_bytes L resp) s"; cases "fst (s_write L (message_bytes L resp) s)")
    (auto simp: send_or_terminate_def write_response_def)

context net_io
begin

text \<open>
  Whatever the calls do, the loop sends the announced part of the file from its start, and all of it
  if it goes on.
\<close>

lemma body_loop_prefix:
  "body_loop L fuel len f s = Some (again, s') \<Longrightarrow>
     \<exists>k \<le> unat len. sent s' = sent s @ take k (drop (file_pos f) (file_data f)) \<and> (again \<longrightarrow> k = unat len)"
proof (induction fuel arbitrary: len f s)
  case 0
  then show ?case by simp
next
  case (Suc fuel)
  define p where "p = min (unat len) 4096"
  have p_le: "p \<le> unat len" by (simp add: p_def)
  let ?d = "drop (file_pos f) (file_data f)"
  show ?case
  proof (cases "p = 0")
    case True
    then have "unat len = 0" by (simp add: p_def)
    moreover have "s' = s" using Suc.prems True by (simp add: unat_produce p_def [symmetric])
    ultimately show ?thesis by simp
  next
    case False
    obtain r f' where r: "f_read L p f = (r, f')" by fastforce
    show ?thesis
    proof (cases r)
      case (Inl ec)
      then have "s' = s_close L s" "\<not> again"
        using Suc.prems False r by (auto simp: unat_produce p_def [symmetric])
      then show ?thesis by (auto simp: close_sent intro!: exI [of _ "0::nat"])
    next
      case (Inr bs)
      obtain w s1 where w: "s_write L bs s = (w, s1)" by fastforce
      have rd: "bs = take p ?d" "file_data f' = file_data f" "file_pos f' = file_pos f + length bs"
        using read_ok r Inr by blast+
      have le: "length bs \<le> unat len" using p_le by (simp add: rd(1))
      have "bs = take (length bs) ?d" by (simp add: rd(1) min_def)
      then have join: "bs @ take k (drop (length bs) ?d) = take (length bs + k) ?d" for k
        by (metis take_add)
      show ?thesis
      proof (cases w)
        case (Some ec)
        then have "s' = s1" "\<not> again"
          using Suc.prems False r Inr w by (auto simp: unat_produce p_def [symmetric])
        moreover obtain i where "sent s1 = sent s @ take i bs" using write_failed w Some by blast
        ultimately show ?thesis using p_le by (auto simp: rd(1) intro!: exI [of _ "min i p"])
      next
        case None
        have rest: "body_loop L fuel (len - word_of_nat (length bs)) f' s1 = Some (again, s')"
          using Suc.prems False r Inr w None by (auto simp: unat_produce p_def [symmetric])
        have s1: "sent s1 = sent s @ bs" using write_ok w None by blast
        obtain k where "k \<le> unat len - length bs"
          "sent s' = sent s1 @ take k (drop (file_pos f') (file_data f'))"
          "again \<longrightarrow> k = unat len - length bs"
          using Suc.IH [OF rest] unfolding unat_rest [OF le] by blast
        then show ?thesis
          using s1 rd(2,3) le join [of k]
          by (intro exI [of _ "length bs + k"]) (auto simp: add.commute)
      qed
    qed
  qed
qed

lemma body_loop_complete:
  "body_loop L fuel len f s = Some (True, s') \<Longrightarrow>
     sent s' = sent s @ take (unat len) (drop (file_pos f) (file_data f))"
  using body_loop_prefix by blast

lemma write_response_prefix:
  assumes "write_response L resp s = (r, s')"
  shows "\<exists>i. sent s' = sent s @ take i (message_bytes L resp)"
proof -
  obtain w s1 where w: "s_write L (message_bytes L resp) s = (w, s1)" by fastforce
  then have s1: "s' = s1" using assms by (auto simp: write_response_def split: option.splits)
  show ?thesis
  proof (cases w)
    case None
    then have "sent s1 = sent s @ take (length (message_bytes L resp)) (message_bytes L resp)"
      using write_ok w by simp
    with s1 show ?thesis by blast
  next
    case (Some e)
    then show ?thesis using write_failed w s1 by blast
  qed
qed

end

lemma send_or_terminate_prefix:
  assumes "net_io L file_data file_pos sent" and "send_or_terminate L resp s = (out, s')"
  shows "\<exists>i. sent s' = sent s @ take i (message_bytes L resp)"
  using assms(2) net_io.write_response_prefix [OF assms(1), of resp s]
  by (cases "write_response L resp s") (auto simp: send_or_terminate_def split: sum.splits)

lemma send_continue:
  assumes "net_io L file_data file_pos sent" and "send_or_terminate L resp s = (Continue, s')"
  shows "sent s' = sent s @ message_bytes L resp"
  using send_or_terminate_cases [of L resp s] assms net_io.write_ok [OF assms(1)] by force

text \<open>Serving a request to the next read has sent its answer.\<close>

lemma serve_request_answer:
  assumes io: "net_io L file_data file_pos sent"
    and run: "serve_request L S config db fuel req s = Some (Continue, s')"
  shows "\<exists>bs. answer L file_data file_pos S config db req = Some bs \<and> sent s' = sent s @ bs"
proof -
  note send = send_continue [OF io]
  have exc: "\<exists>bs. reply_bytes L req (Inl e) = Some bs \<and> sent s' = sent s @ bs"
    if "handle_exception L req e s = (Continue, s')" for e
    using that send by (auto simp: handle_exception_eq reply_bytes_def split: option.splits)
  show ?thesis
  proof (cases "route_of (rq_target req)")
    case Welcome
    with run send show ?thesis by (auto simp: serve_request_def answer_def)
  next
    case (UnknownRoute x)
    with run send show ?thesis by (auto simp: serve_request_def answer_def)
  next
    case (UpnpRoute sub)
    show ?thesis
    proof (cases "upnp_reply L S config db req sub")
      case (Inl e)
      with run UpnpRoute exc [of e] show ?thesis
        by (simp add: serve_request_def answer_def handle_upnp_request_eq)
    next
      case (Inr resp)
      have "s_write L (message_bytes L resp) s = (None, s')"
        using run UpnpRoute Inr
        by (auto simp: serve_request_def handle_upnp_request_eq write_response_def handle_exception_def
            split: prod.splits option.splits)
      with UpnpRoute Inr net_io.write_ok [OF io] show ?thesis
        by (auto simp: answer_def reply_bytes_def)
    qed
  next
    case (ContentRoute sub)
    show ?thesis
    proof (cases "create_response L S sub req db")
      case (Inl e)
      with run ContentRoute exc [of e] show ?thesis
        by (simp add: serve_request_def answer_def content_handle_request_def)
    next
      case (Inr r)
      obtain resp f len where r: "r = (resp, f, len)" by (cases r)
      obtain w s1 where w: "s_write L (header_bytes L resp) s = (w, s1)" by fastforce
      have "w = None"
        using run ContentRoute Inr r w
        by (auto simp: serve_request_def content_handle_request_def handle_exception_def split: option.splits)
      with w have s1: "sent s1 = sent s @ header_bytes L resp" using net_io.write_ok [OF io] by blast
      have "rq_method req = Head \<and> s' = s1 \<or> rq_method req \<noteq> Head \<and> body_loop L fuel len f s1 = Some (True, s')"
        using run ContentRoute Inr r w \<open>w = None\<close>
        by (auto simp: serve_request_def content_handle_request_def split: option.splits if_splits)
      with s1 net_io.body_loop_complete [OF io] ContentRoute Inr r show ?thesis
        by (auto simp: answer_def reply_bytes_def content_bytes_def)
    qed
  qed
qed

text \<open>By rule induction: a connection has sent the answers of its requests, in order.\<close>

lemma serves_answers:
  assumes io: "net_io L file_data file_pos sent" and "serves L S config db fuel s reqs s'"
  shows "\<exists>bss. map (answer L file_data file_pos S config db) reqs = map Some bss
    \<and> sent s' = sent s @ concat bss"
  using assms(2)
proof (induction rule: serves.induct)
  case start
  show ?case by (rule exI [of _ "[]"]) simp
next
  case (request reqs s1 req s2 s3)
  then obtain bss where bss: "map (answer L file_data file_pos S config db) reqs = map Some bss"
    "sent s1 = sent s @ concat bss" by blast
  have "sent s2 = sent s1" using net_io.read_request_keeps [OF io request(2)] .
  moreover obtain bs where "answer L file_data file_pos S config db req = Some bs" "sent s3 = sent s2 @ bs"
    using serve_request_answer [OF io request(3)] by blast
  ultimately show ?case using bss by (intro exI [of _ "bss @ [bs]"]) simp
qed

section \<open>Progress\<close>

lemma calls_write: "calls_succeed L \<Longrightarrow> \<exists>s'. s_write L bs s = (None, s')"
  unfolding calls_succeed_def by (metis prod.collapse)

lemma send_succeeds: "calls_succeed L \<Longrightarrow> \<exists>s'. send_or_terminate L resp s = (Continue, s')"
  using calls_write [of L "message_bytes L resp" s]
  by (auto simp: send_or_terminate_def write_response_def)

text \<open>The file behind a content response holds what the response announces.\<close>

definition announces_within ::
  "('f \<Rightarrow> bytes) \<Rightarrow> ('f \<Rightarrow> nat) \<Rightarrow> http_response \<times> 'f \<times> 64 word \<Rightarrow> bool" where
  "announces_within file_data file_pos r \<longleftrightarrow>
     (case r of (resp, f, len) \<Rightarrow> file_pos f + unat len \<le> length (file_data f))"

lemma serve_request_progress:
  assumes io: "net_io L file_data file_pos sent" and ok: "calls_succeed L"
    and within: "\<And>sub r. route_of (rq_target req) = ContentRoute sub \<Longrightarrow> create_response L S sub req db = Inr r
        \<Longrightarrow> announces_within file_data file_pos r \<and> body_fuel (unat (snd (snd r))) \<le> fuel"
  shows "case answer L file_data file_pos S config db req of
      Some bs \<Rightarrow> \<exists>s'. serve_request L S config db fuel req s = Some (Continue, s') \<and> sent s' = sent s @ bs
    | None \<Rightarrow> \<exists>e. serve_request L S config db fuel req s = Some (Terminated e, s)"
proof -
  have exc: "case reply_bytes L req (Inl e) of
      Some bs \<Rightarrow> \<exists>s'. handle_exception L req e s = (Continue, s')
    | None \<Rightarrow> handle_exception L req e s = (Terminated e, s)" for e
    using send_succeeds [OF ok] by (simp add: handle_exception_eq reply_bytes_def split: option.splits)
  have sent: "\<exists>s'. serve_request L S config db fuel req s = Some (Continue, s') \<and> sent s' = sent s @ bs"
    if "\<exists>s'. serve_request L S config db fuel req s = Some (Continue, s')"
      "answer L file_data file_pos S config db req = Some bs" for bs
    using serve_request_answer [OF io] that by fastforce
  have cont: "\<exists>s'. serve_request L S config db fuel req s = Some (Continue, s')"
    if ans: "answer L file_data file_pos S config db req = Some bs" for bs
  proof (cases "route_of (rq_target req)")
    case (UpnpRoute sub)
    show ?thesis
    proof (cases "upnp_reply L S config db req sub")
      case (Inl e)
      with UpnpRoute ans exc [of e] show ?thesis
        by (auto simp: serve_request_def answer_def handle_upnp_request_eq)
    next
      case (Inr resp)
      with UpnpRoute calls_write [OF ok, of "message_bytes L resp" s] show ?thesis
        by (auto simp: serve_request_def handle_upnp_request_eq write_response_def)
    qed
  next
    case (ContentRoute sub)
    show ?thesis
    proof (cases "create_response L S sub req db")
      case (Inl e)
      with ContentRoute ans exc [of e] show ?thesis
        by (auto simp: serve_request_def answer_def content_handle_request_def)
    next
      case (Inr r)
      obtain resp f len where r: "r = (resp, f, len)" by (cases r)
      have w: "file_pos f + unat len \<le> length (file_data f)" "body_fuel (unat len) \<le> fuel"
        using within [OF ContentRoute Inr] by (simp_all add: r announces_within_def)
      show ?thesis
      proof (cases "rq_method req = Head")
        case True
        with ContentRoute Inr r calls_write [OF ok, of "header_bytes L resp" s] show ?thesis
          by (auto simp: serve_request_def content_handle_request_def)
      next
        case False
        from net_io.content_sends [OF io ok Inr [unfolded r] False w, of s] obtain s'
          where "content_handle_request L S db fuel req sub s = Some (Inr True, s')" by blast
        with ContentRoute show ?thesis by (simp add: serve_request_def)
      qed
    qed
  qed (use send_succeeds [OF ok] in \<open>auto simp: serve_request_def\<close>)
  have drop: "\<exists>e. serve_request L S config db fuel req s = Some (Terminated e, s)"
    if "answer L file_data file_pos S config db req = None"
  proof (cases "route_of (rq_target req)")
    case (UpnpRoute sub)
    with that obtain e where "upnp_reply L S config db req sub = Inl e" "reply_bytes L req (Inl e) = None"
      by (cases "upnp_reply L S config db req sub") (auto simp: answer_def reply_bytes_def)
    with UpnpRoute exc [of e] show ?thesis by (auto simp: serve_request_def handle_upnp_request_eq)
  next
    case (ContentRoute sub)
    with that obtain e where "create_response L S sub req db = Inl e" "reply_bytes L req (Inl e) = None"
      by (cases "create_response L S sub req db") (auto simp: answer_def reply_bytes_def)
    with ContentRoute exc [of e] show ?thesis by (auto simp: serve_request_def content_handle_request_def)
  qed (use that in \<open>auto simp: answer_def\<close>)
  show ?thesis using cont drop sent by (simp split: option.splits)
qed

section \<open>A whole connection\<close>

text \<open>Whatever fails while a request is served, only a prefix of its answer has been sent.\<close>

lemma serve_request_prefix:
  assumes io: "net_io L file_data file_pos sent"
    and run: "serve_request L S config db fuel req s = Some (out, s')"
  shows "\<exists>i. sent s' = sent s @ take i (case answer L file_data file_pos S config db req of
      None \<Rightarrow> [] | Some bs \<Rightarrow> bs)"
proof -
  note send = send_or_terminate_prefix [OF io]
  have none: "\<exists>i. sent s @ [] = sent s @ take i bs" for bs by (rule exI [of _ 0]) simp
  have exc: "\<exists>i. sent s' = sent s @ take i (case reply_bytes L req (Inl e) of None \<Rightarrow> [] | Some bs \<Rightarrow> bs)"
    if "handle_exception L req e s = (out, s')" for e
    using that send none by (auto simp: handle_exception_eq reply_bytes_def split: option.splits)
  show ?thesis
  proof (cases "route_of (rq_target req)")
    case Welcome
    with run send show ?thesis by (auto simp: serve_request_def answer_def)
  next
    case (UnknownRoute x)
    with run send show ?thesis by (auto simp: serve_request_def answer_def)
  next
    case (UpnpRoute sub)
    show ?thesis
    proof (cases "upnp_reply L S config db req sub")
      case (Inl e)
      with run UpnpRoute exc [of e] show ?thesis
        by (simp add: serve_request_def answer_def handle_upnp_request_eq)
    next
      case (Inr resp)
      obtain r s1 where r: "write_response L resp s = (r, s1)" by fastforce
      then have "s' = s1"
        using run UpnpRoute Inr
        by (auto simp: serve_request_def handle_upnp_request_eq write_response_def handle_exception_def
            split: prod.splits option.splits)
      with net_io.write_response_prefix [OF io r] UpnpRoute Inr show ?thesis
        by (simp add: answer_def reply_bytes_def)
    qed
  next
    case (ContentRoute sub)
    show ?thesis
    proof (cases "create_response L S sub req db")
      case (Inl e)
      with run ContentRoute exc [of e] show ?thesis
        by (simp add: serve_request_def answer_def content_handle_request_def)
    next
      case (Inr r)
      obtain resp f len where r: "r = (resp, f, len)" by (cases r)
      let ?rest = "if rq_method req = Head then [] else take (unat len) (drop (file_pos f) (file_data f))"
      have ans: "answer L file_data file_pos S config db req = Some (header_bytes L resp @ ?rest)"
        using ContentRoute Inr r by (simp add: answer_def reply_bytes_def content_bytes_def)
      obtain w s1 where w: "s_write L (header_bytes L resp) s = (w, s1)" by fastforce
      show ?thesis
      proof (cases w)
        case (Some ec)
        then have "s' = s1"
          using run ContentRoute Inr r w
          by (auto simp: serve_request_def content_handle_request_def handle_exception_def)
        moreover obtain i where "sent s1 = sent s @ take i (header_bytes L resp)"
          using net_io.write_failed [OF io] w Some by blast
        ultimately have "sent s' = sent s @ take (min i (length (header_bytes L resp))) (header_bytes L resp @ ?rest)"
          by (simp add: min_def)
        with ans show ?thesis by (simp only: option.case) blast
      next
        case None
        with w have s1: "sent s1 = sent s @ header_bytes L resp" using net_io.write_ok [OF io] by blast
        have "rq_method req = Head \<and> s' = s1
            \<or> rq_method req \<noteq> Head \<and> (\<exists>again. body_loop L fuel len f s1 = Some (again, s'))"
          using run ContentRoute Inr r w None
          by (auto simp: serve_request_def content_handle_request_def split: option.splits if_splits)
        then obtain k where "sent s' = sent s1 @ take k ?rest"
          using net_io.body_loop_prefix [OF io] by (fastforce simp: min_def)
        with s1 have "sent s' = sent s @ take (length (header_bytes L resp) + k) (header_bytes L resp @ ?rest)"
          by simp
        with ans show ?thesis by (simp only: option.case) blast
      qed
    qed
  qed
qed

text \<open>How the loop over requests ends: a read fails, or the last request does not go on.\<close>

definition connection_ends ::
  "('f, 's, 'm) web_lib_scheme \<Rightarrow> ('db, 'it, 'n) store_lib_scheme \<Rightarrow> server_config \<Rightarrow> 'db \<Rightarrow> nat
    \<Rightarrow> 's \<Rightarrow> http_request option \<Rightarrow> 's \<Rightarrow> bool" where
  "connection_ends L S config db fuel s unfinished s' \<longleftrightarrow>
     (case unfinished of
        None \<Rightarrow> \<exists>ec. read_request L s = (Inl ec, s')
      | Some req \<Rightarrow> \<exists>s1 out. read_request L s = (Inr req, s1) \<and> out \<noteq> Continue
          \<and> serve_request L S config db fuel req s1 = Some (out, s'))"

lemma handle_connections_serves:
  assumes "serves L S config db fuel s reqs s1"
    and "handle_connections L S config db fuel requests s1 = Some s'"
  shows "\<exists>reqs' s2 unfinished. serves L S config db fuel s (reqs @ reqs') s2
    \<and> connection_ends L S config db fuel s2 unfinished s'"
  using assms
proof (induction requests arbitrary: reqs s1)
  case 0
  then show ?case by simp
next
  case (Suc requests)
  obtain r s2 where r: "read_request L s1 = (r, s2)" by fastforce
  show ?case
  proof (cases r)
    case (Inl ec)
    with Suc.prems r show ?thesis
      by (intro exI [of _ "[]"] exI [of _ s1] exI [of _ None]) (simp add: connection_ends_def)
  next
    case (Inr req)
    with Suc.prems(2) r obtain out s3 where o: "serve_request L S config db fuel req s2 = Some (out, s3)"
      by (auto split: option.splits)
    show ?thesis
    proof (cases "out = Continue")
      case True
      have "serves L S config db fuel s (reqs @ [req]) s3"
        using serves.request [OF Suc.prems(1)] r Inr o True by blast
      from Suc.IH [OF this] Suc.prems(2) r Inr o True obtain reqs' s4 unfinished
        where "serves L S config db fuel s ((reqs @ [req]) @ reqs') s4"
          "connection_ends L S config db fuel s4 unfinished s'" by auto
      then show ?thesis by (intro exI [of _ "req # reqs'"]) auto
    next
      case False
      then have "s' = s3" using Suc.prems(2) r Inr o by (cases out) auto
      with Suc.prems(1) r Inr o False show ?thesis
        by (intro exI [of _ "[]"] exI [of _ s1] exI [of _ "Some req"]) (auto simp: connection_ends_def)
    qed
  qed
qed

lemma connection_ends_sent:
  assumes io: "net_io L file_data file_pos sent" and "connection_ends L S config db fuel s unfinished s'"
  shows "\<exists>i. sent s' = sent s @ take i (case unfinished of None \<Rightarrow> [] | Some req \<Rightarrow>
      (case answer L file_data file_pos S config db req of None \<Rightarrow> [] | Some bs \<Rightarrow> bs))"
proof (cases unfinished)
  case None
  then obtain ec where "read_request L s = (Inl ec, s')" using assms(2) by (auto simp: connection_ends_def)
  with net_io.read_request_keeps [OF io] None show ?thesis by simp
next
  case (Some req)
  then obtain s1 out where "read_request L s = (Inr req, s1)"
    "serve_request L S config db fuel req s1 = Some (out, s')"
    using assms(2) by (auto simp: connection_ends_def)
  with net_io.read_request_keeps [OF io] serve_request_prefix [OF io] Some show ?thesis by fastforce
qed

end
