(* ===== verification/Reference.thy ===== *)
theory Reference
  imports Refinement
begin

text \<open>
  An executable instance of the library interfaces: a self-delimiting codec for the tables in place
  of FlatBuffers' format, and a database that is its list of entries in place of LevelDB. It shows
  that the interfaces' laws can hold together with the code's comparator, and gives the witnesses
  something to evaluate. No property of the program is stated about it.
\<close>

section \<open>Decimal numerals read back\<close>

fun read_digits :: "nat \<Rightarrow> string \<Rightarrow> nat \<times> string" where
  "read_digits a [] = (a, [])"
| "read_digits a (c # cs) =
     (if is_digit c then read_digits (10 * a + (of_char c - 48)) cs else (a, c # cs))"

lemma of_char_digit_char [simp]: "of_char (digit_char d) = 48 + d mod 10"
proof -
  have "d mod 10 < 10" by simp
  then show ?thesis by (simp add: digit_char_def)
qed

lemma read_digits_show_nat: "read_digits 0 (show_nat n @ r) = read_digits n r"
proof (induction n arbitrary: r rule: show_nat.induct)
  case (1 n)
  show ?case
  proof (cases "n < 10")
    case True
    then show ?thesis by (simp add: show_nat.simps [of n])
  next
    case False
    then have "read_digits 0 (show_nat n @ r) = read_digits (n div 10) (digit_char n # r)"
      using 1 by (simp add: show_nat.simps [of n])
    also have "\<dots> = read_digits (10 * (n div 10) + n mod 10) r" by simp
    finally show ?thesis by simp
  qed
qed

section \<open>A codec\<close>

definition enc_nat :: "nat \<Rightarrow> bytes" where
  "enc_nat n = show_nat n @ '';''"

definition dec_nat :: "bytes \<Rightarrow> nat \<times> bytes" where
  "dec_nat s = (case read_digits 0 s of (n, r) \<Rightarrow> (n, drop 1 r))"

lemma dec_enc_nat [simp]: "dec_nat (enc_nat n @ r) = (n, r)"
  by (simp add: dec_nat_def enc_nat_def read_digits_show_nat is_digit_def)

definition enc_word :: "int64 \<Rightarrow> bytes" where
  "enc_word w = enc_nat (unat w)"

definition dec_word :: "bytes \<Rightarrow> int64 \<times> bytes" where
  "dec_word s = (case dec_nat s of (n, r) \<Rightarrow> (word_of_nat n, r))"

lemma dec_enc_word [simp]: "dec_word (enc_word w @ r) = (w, r)"
  by (simp add: dec_word_def enc_word_def)

definition enc_str :: "bytes \<Rightarrow> bytes" where
  "enc_str s = enc_nat (length s) @ s"

definition dec_str :: "bytes \<Rightarrow> bytes \<times> bytes" where
  "dec_str s = (case dec_nat s of (n, r) \<Rightarrow> (take n r, drop n r))"

lemma dec_enc_str [simp]: "dec_str (enc_str s @ r) = (s, r)"
  by (simp add: dec_str_def enc_str_def)

definition enc_list :: "('a \<Rightarrow> bytes) \<Rightarrow> 'a list \<Rightarrow> bytes" where
  "enc_list f xs = enc_nat (length xs) @ concat (map f xs)"

fun dec_many :: "(bytes \<Rightarrow> 'a \<times> bytes) \<Rightarrow> nat \<Rightarrow> bytes \<Rightarrow> 'a list \<times> bytes" where
  "dec_many g 0 s = ([], s)"
| "dec_many g (Suc n) s = (case g s of (x, r) \<Rightarrow> (case dec_many g n r of (xs, r') \<Rightarrow> (x # xs, r')))"

definition dec_list :: "(bytes \<Rightarrow> 'a \<times> bytes) \<Rightarrow> bytes \<Rightarrow> 'a list \<times> bytes" where
  "dec_list g s = (case dec_nat s of (n, r) \<Rightarrow> dec_many g n r)"

lemma dec_enc_list:
  assumes "\<And>x r. g (f x @ r) = (x, r)"
  shows "dec_list g (enc_list f xs @ r) = (xs, r)"
proof -
  have "dec_many g (length xs) (concat (map f xs) @ r) = (xs, r)"
    by (induction xs) (auto simp: assms)
  then show ?thesis by (simp add: dec_list_def enc_list_def)
qed

definition enc_opt :: "('a \<Rightarrow> bytes) \<Rightarrow> 'a option \<Rightarrow> bytes" where
  "enc_opt f x = (case x of None \<Rightarrow> enc_nat 0 | Some y \<Rightarrow> enc_nat 1 @ f y)"

definition dec_opt :: "(bytes \<Rightarrow> 'a \<times> bytes) \<Rightarrow> bytes \<Rightarrow> 'a option \<times> bytes" where
  "dec_opt g s =
     (case dec_nat s of (n, r) \<Rightarrow>
        if n = 0 then (None, r) else (case g r of (y, r') \<Rightarrow> (Some y, r')))"

lemma dec_enc_opt:
  assumes "\<And>x r. g (f x @ r) = (x, r)"
  shows "dec_opt g (enc_opt f x @ r) = (x, r)"
  by (cases x) (simp_all add: dec_opt_def enc_opt_def assms)

section \<open>The tables\<close>

definition enc_key :: "LibraryKey \<Rightarrow> bytes" where
  "enc_key k = enc_nat (KeyUnion_code (key_type k)) @ enc_word (key_id k)"

definition dec_key :: "bytes \<Rightarrow> LibraryKey" where
  "dec_key s =
     (case dec_nat s of (t, r) \<Rightarrow>
        if t = 0 then NoKey
        else if t = 1 then ObjectKey (fst (dec_word r)) else ResourceKey (fst (dec_word r)))"

lemma dec_enc_key [simp]: "dec_key (enc_key k) = k"
  using dec_enc_word [of "key_id k" "[]"]
  by (cases k) (simp_all add: dec_key_def enc_key_def)

definition enc_artwork :: "Artwork \<Rightarrow> bytes" where
  "enc_artwork a = enc_str (aw_ref a) @ enc_nat (ArtworkType_code (aw_type a))"

definition dec_artwork :: "bytes \<Rightarrow> Artwork \<times> bytes" where
  "dec_artwork s =
     (case dec_str s of (k, r) \<Rightarrow>
        (case dec_nat r of (t, r') \<Rightarrow>
           (\<lparr>aw_ref = k, aw_type = (if t = 0 then Poster else Thumbnail)\<rparr>, r')))"

lemma dec_enc_artwork [simp]: "dec_artwork (enc_artwork a @ r) = (a, r)"
  by (cases a; cases "aw_type a") (simp_all add: dec_artwork_def enc_artwork_def)

definition enc_ref :: "ResourceRef \<Rightarrow> bytes" where
  "enc_ref x = enc_str (rr_ref x) @ enc_str (rr_protocol_info x)"

definition dec_ref :: "bytes \<Rightarrow> ResourceRef \<times> bytes" where
  "dec_ref s =
     (case dec_str s of (k, r) \<Rightarrow>
        (case dec_str r of (p, r') \<Rightarrow> (\<lparr>rr_ref = k, rr_protocol_info = p\<rparr>, r')))"

lemma dec_enc_ref [simp]: "dec_ref (enc_ref x @ r) = (x, r)"
  by (simp add: dec_ref_def enc_ref_def)

fun enc_data :: "ObjectUnion \<Rightarrow> bytes" where
  "enc_data ObjectUnion_NONE = enc_nat 0"
| "enc_data (MediaContainer xs) = enc_nat 1 @ enc_opt (enc_list enc_str) xs"
| "enc_data (MediaItem xs) = enc_nat 2 @ enc_opt (enc_list enc_ref) xs"

definition dec_data :: "bytes \<Rightarrow> ObjectUnion" where
  "dec_data s =
     (case dec_nat s of (t, r) \<Rightarrow>
        if t = 0 then ObjectUnion_NONE
        else if t = 1 then MediaContainer (fst (dec_opt (dec_list dec_str) r))
        else MediaItem (fst (dec_opt (dec_list dec_ref) r)))"

lemma dec_enc_data [simp]: "dec_data (enc_data d) = d"
proof (cases d)
  case ObjectUnion_NONE
  then show ?thesis using dec_enc_nat [of 0 "[]"] by (simp add: dec_data_def)
next
  case (MediaContainer xs)
  have "dec_opt (dec_list dec_str) (enc_opt (enc_list enc_str) xs @ []) = (xs, [])"
    by (intro dec_enc_opt dec_enc_list dec_enc_str)
  with MediaContainer show ?thesis by (simp add: dec_data_def)
next
  case (MediaItem xs)
  have "dec_opt (dec_list dec_ref) (enc_opt (enc_list enc_ref) xs @ []) = (xs, [])"
    by (intro dec_enc_opt dec_enc_list dec_enc_ref)
  with MediaItem show ?thesis by (simp add: dec_data_def)
qed

definition enc_object :: "MediaObject \<Rightarrow> bytes" where
  "enc_object ob =
     enc_word (mo_id ob) @ enc_word (mo_parent_id ob) @ enc_str (mo_dc_title ob)
     @ enc_str (mo_upnp_class ob) @ enc_opt (enc_list enc_artwork) (mo_artwork ob)
     @ enc_word (mo_dc_date ob) @ enc_data (mo_data ob)"

definition dec_object :: "bytes \<Rightarrow> MediaObject" where
  "dec_object s0 =
     (let (i, s1) = dec_word s0; (p, s2) = dec_word s1; (t, s3) = dec_str s2; (c, s4) = dec_str s3;
          (a, s5) = dec_opt (dec_list dec_artwork) s4; (d, s6) = dec_word s5
      in \<lparr>mo_id = i, mo_parent_id = p, mo_dc_title = t, mo_upnp_class = c, mo_artwork = a,
          mo_dc_date = d, mo_data = dec_data s6\<rparr>)"

lemma dec_enc_object: "dec_object (enc_object ob) = ob"
proof -
  have "dec_opt (dec_list dec_artwork) (enc_opt (enc_list enc_artwork) x @ r) = (x, r)" for x r
    by (intro dec_enc_opt dec_enc_list dec_enc_artwork)
  then show ?thesis by (simp add: dec_object_def enc_object_def)
qed

definition enc_resource :: "Resource \<Rightarrow> bytes" where
  "enc_resource r = enc_opt enc_str (res_location r) @ enc_opt enc_str (res_mime_type r)"

definition dec_resource :: "bytes \<Rightarrow> Resource" where
  "dec_resource s =
     (case dec_opt dec_str s of (l, r) \<Rightarrow> \<lparr>res_location = l, res_mime_type = fst (dec_opt dec_str r)\<rparr>)"

lemma dec_enc_resource: "dec_resource (enc_resource r) = r"
proof -
  have "dec_opt dec_str (enc_opt enc_str x @ s) = (x, s)" for x s
    by (intro dec_enc_opt dec_enc_str)
  from this [of "res_location r" "enc_opt enc_str (res_mime_type r)"]
    this [of "res_mime_type r" "[]"]
  show ?thesis by (simp add: dec_resource_def enc_resource_def)
qed

section \<open>A database in memory\<close>

type_synonym ref_db = "(bytes \<times> bytes) list"

definition ref_fb :: fb_lib where
  "ref_fb =
     \<lparr>fb_key = enc_key, fb_key_root = dec_key, fb_object = enc_object, fb_object_root = dec_object,
      fb_resource = enc_resource, fb_resource_root = dec_resource,
      fb_sorted_tables = sort_key aw_type\<rparr>"

definition ref_lib :: "(ref_db, ref_db \<times> nat) store_lib" where
  "ref_lib =
     \<lparr>fb_key = enc_key, fb_key_root = dec_key, fb_object = enc_object, fb_object_root = dec_object,
      fb_resource = enc_resource, fb_resource_root = dec_resource,
      fb_sorted_tables = sort_key aw_type,
      ldb_open = (\<lambda>create excl path. if create then OpenOk [] else OpenInvalidArgument ''missing''),
      ldb_write = (\<lambda>batch db. (None, apply_batch (Compare ref_fb) batch db)),
      ldb_new_iterator = (\<lambda>db. (db, length db)),
      ldb_seek = (\<lambda>k it. (fst it, lower_pos (Compare ref_fb) k (fst it))),
      ldb_seek_to_last = (\<lambda>it. (fst it, length (fst it) - 1)),
      ldb_prev = (\<lambda>it. (fst it, if snd it = 0 then length (fst it) else snd it - 1)),
      ldb_valid = (\<lambda>it. snd it < length (fst it)),
      ldb_key = (\<lambda>it. fst (fst it ! snd it)),
      ldb_value = (\<lambda>it. snd (fst it ! snd it))\<rparr>"

lemma Compare_ref: "Compare ref_lib = Compare ref_fb"
  by (intro ext) (simp add: Compare_order ref_lib_def ref_fb_def)

interpretation ref: store_backend ref_lib "\<lambda>db. db" fst snd
proof (unfold_locales, goal_cases)
  case (5 aws)
  then show ?case by (simp add: ref_lib_def)
qed (simp_all add: Compare_ref, simp_all add: ref_lib_def dec_enc_object dec_enc_resource split: if_splits)

lemma ref_writes: "fst (ldb_write ref_lib batch db) = None"
  by (simp add: ref_lib_def)

text \<open>The database a first start creates.\<close>

definition ref_db0 :: ref_db where
  "ref_db0 = [(enc_key (ObjectKey 0), enc_object root_object)]"

lemma ref_open: "open_db ref_lib path = Inr (False, ref_db0)"
  by (simp add: open_db_def ref_db0_def ref_lib_def apply_batch_def)
    (simp add: serialize_key_def serialize_container_def root_container_def root_object_def)

lemma ref_fresh:
  "library_of ref_lib ref_db0 = \<lparr>lib_objects = [0 \<mapsto> root_object], lib_resources = Map.empty\<rparr>"
  by (rule ref.open_db_fresh(2) [OF ref_open])

lemma ref_served: "served ref_lib ref_db0"
  using ref.open_db_fresh(1) [OF ref_open] wf_fresh [of ref_lib]
  by (simp add: served_def ref.sound_db_def ref_fresh)

lemma store_backend_ref: "store_backend ref_lib (\<lambda>db. db) fst snd"
  by (rule ref.store_backend_axioms)

end
