(* ===== verification/ReferenceUtil.thy ===== *)
theory ReferenceUtil
  imports Reference Titles
begin

text \<open>
  An executable instance of the parsing, trimming and calendar interface: decimal parsers with a
  range check, trimming of white space at both ends, and a calendar that tells only the years
  apart. It shows that the interface's laws can hold together and gives the witnesses something to
  evaluate; no property of the program is stated about it.
\<close>

section \<open>Decimal parsers\<close>

definition ref_uint :: "nat \<Rightarrow> nat parser" where
  "ref_uint limit s =
     (if no_digit_first s then None
      else case read_digits 0 s of (n, r) \<Rightarrow> if n < limit then Some (n, r) else None)"

definition ref_int64 :: "int parser" where
  "ref_int64 s =
     (case s of
        [] \<Rightarrow> None
      | c # cs \<Rightarrow>
          if c = CHR ''-''
          then map_option (\<lambda>(n, r). (- int n, r)) (ref_uint (2 ^ 63 + 1) cs)
          else if c = CHR ''+''
          then map_option (\<lambda>(n, r). (int n, r)) (ref_uint (2 ^ 63) cs)
          else map_option (\<lambda>(n, r). (int n, r)) (ref_uint (2 ^ 63) s))"

lemma no_digit_first_show_nat [simp]: "\<not> no_digit_first (show_nat n @ r)"
proof -
  have "hd (show_nat n) \<in> set (show_nat n)" by simp
  then have "is_digit (hd (show_nat n))" by (rule show_nat_digits)
  then show ?thesis by (cases "show_nat n") (auto simp: no_digit_first_def)
qed

lemma read_digits_stop: "no_digit_first r \<Longrightarrow> read_digits n r = (n, r)"
  by (cases r) simp_all

lemma ref_uint_show_nat:
  "n < limit \<Longrightarrow> no_digit_first r \<Longrightarrow> ref_uint limit (show_nat n @ r) = Some (n, r)"
  by (simp add: ref_uint_def read_digits_show_nat read_digits_stop)

lemma ref_uint_range: "ref_uint limit s = Some (n, r) \<Longrightarrow> n < limit"
  by (auto simp: ref_uint_def split: if_splits prod.splits)

lemma show_nat_no_sign: "show_nat n = c # cs \<Longrightarrow> c \<noteq> CHR ''-'' \<and> c \<noteq> CHR ''+''"
proof -
  assume "show_nat n = c # cs"
  then have "is_digit c" using show_nat_digits [of c n] by simp
  then show ?thesis by (auto simp: is_digit_def)
qed

lemma ref_int64_show_int:
  assumes "- (2 ^ 63) \<le> i" and "i < 2 ^ 63" and "no_digit_first r"
  shows "ref_int64 (show_int i @ r) = Some (i, r)"
proof (cases "i < 0")
  case True
  then have "nat (- i) < 2 ^ 63 + 1" using assms by simp
  with True assms(3) show ?thesis
    by (simp add: ref_int64_def show_int_def ref_uint_show_nat)
next
  case False
  obtain c cs where c: "show_nat (nat i) = c # cs" by (cases "show_nat (nat i)") auto
  have "nat i < 2 ^ 63" using assms False by simp
  with assms(3) ref_uint_show_nat [of "nat i" "2 ^ 63" r] have "ref_uint (2 ^ 63) (c # cs @ r) = Some (nat i, r)"
    by (simp add: c)
  with False show_nat_no_sign [OF c] show ?thesis
    by (simp add: ref_int64_def show_int_def c)
qed

lemma ref_int64_range:
  assumes "ref_int64 s = Some (i, r)"
  shows "- (2 ^ 63) \<le> i \<and> i < 2 ^ 63"
proof -
  consider n where "i = - int n" "n < 2 ^ 63 + 1" | n where "i = int n" "n < 2 ^ 63"
    using assms by (cases s) (auto simp: ref_int64_def dest: ref_uint_range split: if_splits)
  then show ?thesis by cases auto
qed

section \<open>Trimming\<close>

definition ref_trim :: "string \<Rightarrow> string" where
  "ref_trim s = rev (dropWhile is_space (rev (dropWhile is_space s)))"

lemma ref_trim_substring:
  "\<exists>l r. s = l @ ref_trim s @ r \<and> list_all is_space l \<and> list_all is_space r"
proof -
  let ?t = "dropWhile is_space s"
  have "rev ?t = takeWhile is_space (rev ?t) @ dropWhile is_space (rev ?t)" by simp
  then have "?t = ref_trim s @ rev (takeWhile is_space (rev ?t))"
    unfolding ref_trim_def by (metis rev_append rev_rev_ident)
  then have "s = takeWhile is_space s @ ref_trim s @ rev (takeWhile is_space (rev ?t))"
    by (metis takeWhile_dropWhile_id)
  moreover have "list_all is_space (takeWhile is_space s)"
    "list_all is_space (rev (takeWhile is_space (rev ?t)))"
    by (auto simp: list_all_iff dest: set_takeWhileD)
  ultimately show ?thesis by blast
qed

lemma ref_trim_ends:
  assumes "ref_trim s \<noteq> []"
  shows "\<not> is_space (hd (ref_trim s))" and "\<not> is_space (last (ref_trim s))"
proof -
  let ?t = "dropWhile is_space s"
  have ne: "dropWhile is_space (rev ?t) \<noteq> []" using assms by (simp add: ref_trim_def)
  then show "\<not> is_space (last (ref_trim s))"
    unfolding ref_trim_def last_rev by (rule hd_dropWhile)
  have "last (dropWhile is_space (rev ?t)) = last (rev ?t)"
    using ne by (metis last_appendR takeWhile_dropWhile_id)
  have "?t \<noteq> []"
  proof
    assume "?t = []"
    then have "dropWhile is_space (rev ?t) = []" by (simp only: rev.simps(1) dropWhile.simps(1))
    with ne show False ..
  qed
  with \<open>last (dropWhile is_space (rev ?t)) = last (rev ?t)\<close>
  have "hd (ref_trim s) = hd ?t" by (simp add: ref_trim_def hd_rev last_rev)
  with \<open>?t \<noteq> []\<close> show "\<not> is_space (hd (ref_trim s))" by (simp add: hd_dropWhile)
qed

section \<open>The instance\<close>

definition ref_util :: util_lib where
  "ref_util =
     \<lparr>x3_int64 = ref_int64, x3_uint32 = ref_uint (2 ^ 32), x3_uintmax = ref_uint (2 ^ 64),
      algo_trim = ref_trim,
      date_sys_days = (\<lambda>y m d. y - 1970), date_ymd = (\<lambda>n. (n + 1970, 1, 1))\<rparr>"

interpretation ref_util: util ref_util
proof (unfold_locales, goal_cases)
  case (1 i r)
  then show ?case by (simp add: ref_util_def ref_int64_show_int)
next
  case (2 s i r)
  then show ?case using ref_int64_range [of s i r] by (simp add: ref_util_def)
next
  case (3 n r)
  then show ?case by (simp add: ref_util_def ref_uint_show_nat)
next
  case (4 s n r)
  then show ?case using ref_uint_range [of "2 ^ 32" s n r] by (simp add: ref_util_def)
next
  case (5 n r)
  then show ?case by (simp add: ref_util_def ref_uint_show_nat)
next
  case (6 s n r)
  then show ?case using ref_uint_range [of "2 ^ 64" s n r] by (simp add: ref_util_def)
next
  case (7 s)
  then show ?case by (simp add: ref_util_def ref_uint_def)
next
  case (8 s)
  then show ?case using ref_trim_substring by (simp add: ref_util_def)
next
  case (9 s)
  then show ?case using ref_trim_ends by (simp add: ref_util_def)
qed (simp_all add: ref_util_def)

end
