(* ===== verification/HttpSerialize.thy ===== *)
theory HttpSerialize
  imports Http
begin

text \<open>
  Whole messages in one buffer, \<^verbatim>\<open>src/http_serialize.h\<close>: a message is drained from Beast's
  serializer piece by piece into the buffer, and a request is parsed from a buffer by feeding it to
  Beast's parser until it is done. Both loops are do-while loops and run on fuel. The locales state
  what the loops rely on, and under them they end.
\<close>

section \<open>Serialising\<close>

record 'r serializer_lib =
  sr_new :: "http_response \<Rightarrow> 'r"
  sr_next :: "'r \<Rightarrow> string + bytes"
  sr_consume :: "nat \<Rightarrow> 'r \<Rightarrow> 'r"
  sr_is_done :: "'r \<Rightarrow> bool"

fun serialize_loop ::
  "('r, 'm) serializer_lib_scheme \<Rightarrow> nat \<Rightarrow> 'r \<Rightarrow> bytes \<Rightarrow> bytes result option" where
  "serialize_loop Z 0 sr buffer = None"
| "serialize_loop Z (Suc fuel) sr buffer =
     (case sr_next Z sr of
        Inl ec \<Rightarrow> Some (Inl (SystemError ec))
      | Inr read_buf \<Rightarrow>
          let sr' = sr_consume Z (length read_buf) sr;
              buffer' = buffer @ read_buf
          in if sr_is_done Z sr' then Some (Inr buffer') else serialize_loop Z fuel sr' buffer')"

definition serialize ::
  "('r, 'm) serializer_lib_scheme \<Rightarrow> nat \<Rightarrow> http_response \<Rightarrow> bytes \<Rightarrow> bytes result option" where
  "serialize Z fuel m buffer = serialize_loop Z fuel (sr_new Z m) buffer"

text \<open>A serializer hands out what is left of its message, a non-empty piece at a time.\<close>

locale serializer =
  fixes Z :: "('r, 'm) serializer_lib_scheme"
    and pending :: "'r \<Rightarrow> bytes"
    and message :: "http_response \<Rightarrow> bytes"
  assumes new_pending: "pending (sr_new Z m) = message m"
    and message_nonempty: "message m \<noteq> []"
    and next_pending: "pending r \<noteq> [] \<Longrightarrow> \<exists>bs rest. sr_next Z r = Inr bs \<and> bs \<noteq> [] \<and> pending r = bs @ rest"
    and consume_pending: "pending (sr_consume Z n r) = drop n (pending r)"
    and done_pending: "sr_is_done Z r \<longleftrightarrow> pending r = []"
begin

lemma serialize_loop_drains:
  "pending r \<noteq> [] \<Longrightarrow> length (pending r) \<le> fuel \<Longrightarrow>
     serialize_loop Z fuel r buffer = Some (Inr (buffer @ pending r))"
proof (induction fuel arbitrary: r buffer)
  case 0
  then show ?case by simp
next
  case (Suc fuel)
  obtain bs rest where bs: "sr_next Z r = Inr bs" "bs \<noteq> []" "pending r = bs @ rest"
    using next_pending [OF Suc.prems(1)] by blast
  have p: "pending (sr_consume Z (length bs) r) = rest" by (simp add: consume_pending bs(3))
  show ?case
  proof (cases "rest = []")
    case True
    with bs p show ?thesis by (simp add: done_pending)
  next
    case False
    have "length rest \<le> fuel" using Suc.prems(2) bs(2,3) by (cases bs) auto
    with Suc.IH [of "sr_consume Z (length bs) r" "buffer @ bs"] False p bs show ?thesis
      by (simp add: done_pending)
  qed
qed

lemma serialize_message:
  "length (message m) \<le> fuel \<Longrightarrow> serialize Z fuel m buffer = Some (Inr (buffer @ message m))"
  by (simp add: serialize_def serialize_loop_drains new_pending message_nonempty)

end

section \<open>Parsing\<close>

record 'p parser_lib =
  hp_new :: "'p"
  hp_put :: "bytes \<Rightarrow> 'p \<Rightarrow> (string + nat) \<times> 'p"
  hp_is_done :: "'p \<Rightarrow> bool"
  hp_release :: "'p \<Rightarrow> http_request"

fun deserialize_loop ::
  "('p, 'm) parser_lib_scheme \<Rightarrow> nat \<Rightarrow> bytes \<Rightarrow> 'p \<Rightarrow> http_request result option" where
  "deserialize_loop P 0 buffer p = None"
| "deserialize_loop P (Suc fuel) buffer p =
     (case hp_put P buffer p of
        (Inl ec, _) \<Rightarrow> Some (Inl (SystemError (''Invalid HTTP Request: '' @ ec)))
      | (Inr bytes_used, p') \<Rightarrow>
          if hp_is_done P p' then Some (Inr (hp_release P p'))
          else deserialize_loop P fuel (drop bytes_used buffer) p')"

definition deserialize_request ::
  "('p, 'm) parser_lib_scheme \<Rightarrow> nat \<Rightarrow> bytes \<Rightarrow> http_request result option" where
  "deserialize_request P fuel buffer = deserialize_loop P fuel buffer (hp_new P)"

text \<open>A parser that needs more data reports an error, so success without an end uses some bytes.\<close>

locale request_parser =
  fixes P :: "('p, 'm) parser_lib_scheme"
  assumes put_progress: "hp_put P buffer p = (Inr n, p') \<Longrightarrow> \<not> hp_is_done P p' \<Longrightarrow> 0 < n \<and> n \<le> length buffer"
begin

lemma deserialize_loop_terminates: "length buffer < fuel \<Longrightarrow> deserialize_loop P fuel buffer p \<noteq> None"
proof (induction fuel arbitrary: buffer p)
  case 0
  then show ?case by simp
next
  case (Suc fuel)
  obtain r p' where r: "hp_put P buffer p = (r, p')" by fastforce
  show ?case
  proof (cases r)
    case (Inl ec)
    with r show ?thesis by simp
  next
    case (Inr n)
    show ?thesis
    proof (cases "hp_is_done P p'")
      case True
      with r Inr show ?thesis by simp
    next
      case False
      with put_progress r Inr have "0 < n" "n \<le> length buffer" by blast+
      with Suc.prems have "length (drop n buffer) < fuel" by simp
      from Suc.IH [OF this] r Inr False show ?thesis by simp
    qed
  qed
qed

lemma deserialize_request_terminates: "length buffer < fuel \<Longrightarrow> deserialize_request P fuel buffer \<noteq> None"
  by (simp add: deserialize_request_def deserialize_loop_terminates)

end

end
