(* ===== verification/Discovery.thy ===== *)
theory Discovery
  imports HttpSerialize Config
begin

text \<open>
  The discovery service, \<^verbatim>\<open>src/discovery_service.cpp\<close>: which search requests are answered and how,
  and the loop over datagrams. The socket is an argument; \<open>EventLoop\<close> opens it.
  An exception leaves the loop, whose coroutine is detached: discovery has then ended.
\<close>

record ('k, 'e, 'r, 'p) udp_lib = "'r serializer_lib" +
  udp_parser :: "'p parser_lib"
  udp_uuid_string :: "uuid \<Rightarrow> string"
  udp_receive :: "nat \<Rightarrow> 'k \<Rightarrow> (string + bytes \<times> 'e) \<times> 'k"
  udp_send :: "bytes \<Rightarrow> 'e \<Rightarrow> 'k \<Rightarrow> string option \<times> 'k"

definition media_server_urn :: string where
  "media_server_urn = ''urn:schemas-upnp-org:device:MediaServer:1''"

definition ssdp_discover :: string where
  "ssdp_discover = [CHR 0x22] @ ''ssdp:discover'' @ [CHR 0x22]"

definition handle_request ::
  "('k, 'e, 'r, 'p, 'm) udp_lib_scheme \<Rightarrow> server_config \<Rightarrow> http_request \<Rightarrow> http_response option" where
  "handle_request D config req =
     (if rq_method req \<noteq> Msearch then None
      else if rq_target req \<noteq> ''*'' then None
      else if field_value (rq_fields req) ''MAN'' \<noteq> ssdp_discover then None
      else
        let st = field_value (rq_fields req) ''st''
        in if st \<noteq> ''upnp:rootdevice'' \<and> st \<noteq> media_server_urn then None
           else Some
             (set_field ''ext'' []
             (set_field ''usn'' (''uuid:'' @ udp_uuid_string D (sv_uuid config) @ ''::'' @ st)
             (set_field ''st'' st
             (set_field ''Location'' (sv_base_url config @ ''/upnp/device'')
             (set_field ''Cache-Control'' (''max-age='' @ show_nat 1800)
               (new_response 200 (rq_version req))))))))"

text \<open>One round of the loop. Datagrams are cut at 1500 bytes by the buffer.\<close>

definition discovery_round ::
  "('k, 'e, 'r, 'p, 'm) udp_lib_scheme \<Rightarrow> server_config \<Rightarrow> nat \<Rightarrow> 'k \<Rightarrow> (unit result \<times> 'k) option" where
  "discovery_round D config fuel k =
     (case udp_receive D 1500 k of
        (Inl ec, k') \<Rightarrow> Some (Inl (SystemError ec), k')
      | (Inr (datagram, sender_endpoint), k') \<Rightarrow>
          (case deserialize_request (udp_parser D) fuel datagram of
             None \<Rightarrow> None
           | Some (Inl e) \<Rightarrow> Some (Inl e, k')
           | Some (Inr req) \<Rightarrow>
               (case handle_request D config req of
                  None \<Rightarrow> Some (Inr (), k')
                | Some response \<Rightarrow>
                    (case serialize D fuel response [] of
                       None \<Rightarrow> None
                     | Some (Inl e) \<Rightarrow> Some (Inl e, k')
                     | Some (Inr buffer) \<Rightarrow>
                         (case udp_send D buffer sender_endpoint k' of
                            (Some ec, k'') \<Rightarrow> Some (Inl (SystemError ec), k'')
                          | (None, k'') \<Rightarrow> Some (Inr (), k''))))))"

text \<open>The first rounds of the loop: an exception ends it, and no later datagram is received.\<close>

fun run_service ::
  "('k, 'e, 'r, 'p, 'm) udp_lib_scheme \<Rightarrow> server_config \<Rightarrow> nat \<Rightarrow> nat \<Rightarrow> 'k \<Rightarrow> (unit result \<times> 'k) option" where
  "run_service D config fuel 0 k = Some (Inr (), k)"
| "run_service D config fuel (Suc rounds) k =
     (case discovery_round D config fuel k of
        None \<Rightarrow> None
      | Some (Inl e, k') \<Rightarrow> Some (Inl e, k')
      | Some (Inr _, k') \<Rightarrow> run_service D config fuel rounds k')"

section \<open>Which requests are answered\<close>

lemma iequals_ssdp [simp]:
  "\<not> iequals ''ext'' ''Location''" "\<not> iequals ''usn'' ''Location''" "\<not> iequals ''st'' ''Location''"
  "\<not> iequals ''ext'' ''st''" "\<not> iequals ''usn'' ''st''" "\<not> iequals ''ext'' ''usn''"
  by code_simp+

lemma handle_request_Some:
  "handle_request D config req = Some resp \<longleftrightarrow>
     rq_method req = Msearch \<and> rq_target req = ''*''
     \<and> field_value (rq_fields req) ''MAN'' = ssdp_discover
     \<and> field_value (rq_fields req) ''st'' \<in> {''upnp:rootdevice'', media_server_urn}
     \<and> resp = set_field ''ext'' []
             (set_field ''usn'' (''uuid:'' @ udp_uuid_string D (sv_uuid config) @ ''::''
                @ field_value (rq_fields req) ''st'')
             (set_field ''st'' (field_value (rq_fields req) ''st'')
             (set_field ''Location'' (sv_base_url config @ ''/upnp/device'')
             (set_field ''Cache-Control'' (''max-age='' @ show_nat 1800)
               (new_response 200 (rq_version req))))))"
  by (auto simp: handle_request_def Let_def)

lemma handle_request_fields:
  assumes "handle_request D config req = Some resp"
  shows "rs_status resp = 200"
    and "field_value (rs_fields resp) ''Location'' = sv_base_url config @ ''/upnp/device''"
    and "field_value (rs_fields resp) ''st'' = field_value (rq_fields req) ''st''"
    and "field_value (rs_fields resp) ''usn'' =
      ''uuid:'' @ udp_uuid_string D (sv_uuid config) @ ''::'' @ field_value (rq_fields req) ''st''"
  using assms by (auto simp: handle_request_Some)

section \<open>The loop\<close>

lemma run_service_stops:
  assumes "discovery_round D config fuel k = Some (Inl e, k')"
  shows "run_service D config fuel (Suc rounds) k = Some (Inl e, k')"
  using assms by simp

lemma malformed_round:
  assumes "udp_receive D 1500 k = (Inr (datagram, sender), k')"
    and "deserialize_request (udp_parser D) fuel datagram = Some (Inl e)"
  shows "discovery_round D config fuel k = Some (Inl e, k')"
  using assms by (simp add: discovery_round_def)

lemma discovery_round_replies:
  assumes Z: "serializer D pending message"
    and recv: "udp_receive D 1500 k = (Inr (datagram, sender), k')"
    and parsed: "deserialize_request (udp_parser D) fuel datagram = Some (Inr req)"
    and fuel: "\<And>resp. handle_request D config req = Some resp \<Longrightarrow> length (message resp) \<le> fuel"
  shows "discovery_round D config fuel k =
    (case handle_request D config req of
       None \<Rightarrow> Some (Inr (), k')
     | Some resp \<Rightarrow>
         (case udp_send D (message resp) sender k' of
            (Some ec, k'') \<Rightarrow> Some (Inl (SystemError ec), k'')
          | (None, k'') \<Rightarrow> Some (Inr (), k'')))"
  using recv parsed serializer.serialize_message [OF Z fuel]
  by (auto simp: discovery_round_def split: option.splits)

end
