(* ===== verification/ReferenceNet.thy ===== *)
theory ReferenceNet
  imports Answers ReferenceUtil Discovery
begin

text \<open>
  Executable instances of the interfaces to the network: every path under \<^verbatim>\<open>/films\<close> names a file with
  the same few bytes, a stream is what it has sent and the requests still to come, a document is
  printed as its tags and text, and Beast's serializer and parser work a byte, or a whole request,
  at a time. They show that the interfaces' laws can hold together and give the witnesses something
  to evaluate; no property of the program is stated about them.
\<close>

section \<open>Files, streams and documents\<close>

type_synonym ref_stream = "bytes \<times> http_request list"

definition ref_file :: bytes where
  "ref_file = ''0123456789''"

fun ref_print :: "xml \<Rightarrow> bytes" where
  "ref_print (Element n as cs) =
     ''<'' @ n @ concat (map (\<lambda>(k, v). '' '' @ k @ ''='' @ v) as) @ ''>'' @ concat (map ref_print cs)
     @ ''</>''"
| "ref_print (Pcdata s) = s"
| "ref_print (Declaration as) = concat (map (\<lambda>(k, v). '' '' @ k @ ''='' @ v) as)"

definition ref_action :: "string \<Rightarrow> string \<Rightarrow> xml" where
  "ref_action object_id flag =
     Element ''u:Browse'' []
       [text_element ''ObjectID'' object_id, text_element ''BrowseFlag'' flag,
        text_element ''StartingIndex'' ''0'', text_element ''RequestedCount'' ''0'']"

text \<open>A body is \<open>flag:object\<close>, and stands for the envelope of that Browse.\<close>

definition ref_load :: "bytes \<Rightarrow> string + xml list" where
  "ref_load body =
     Inr [Element ''s:Envelope'' [] [Element ''s:Body'' []
       [ref_action (drop 1 (dropWhile (\<lambda>c. c \<noteq> CHR '':'') body)) (takeWhile (\<lambda>c. c \<noteq> CHR '':'') body)]]]"

definition ref_header :: "http_response \<Rightarrow> bytes" where
  "ref_header resp =
     show_nat (rs_status resp) @ concat (map (\<lambda>(k, v). ''|'' @ k @ '':'' @ v) (rs_fields resp)) @ ''||''"

definition ref_web :: "(nat, ref_stream) web_lib" where
  "ref_web =
     \<lparr>x3_int64 = x3_int64 ref_util, x3_uint32 = x3_uint32 ref_util, x3_uintmax = x3_uintmax ref_util,
      algo_trim = algo_trim ref_util, date_sys_days = date_sys_days ref_util,
      date_ymd = date_ymd ref_util,
      beast_version = ''beast'',
      f_open = (\<lambda>path. if starts_with path ''/films/'' then FileOpen 0 else FileMissing),
      f_size = (\<lambda>f. Inr (word_of_nat (length ref_file))),
      f_seek = (\<lambda>p f. Inr (unat p)),
      f_read = (\<lambda>k f. (Inr (take k (drop f ref_file)), f + length (take k (drop f ref_file)))),
      header_bytes = ref_header,
      message_bytes = (\<lambda>resp. ref_header resp @ rs_body resp),
      s_write = (\<lambda>bs s. (None, (fst s @ bs, snd s))),
      s_close = (\<lambda>s. s),
      s_expires_after = (\<lambda>n s. s),
      s_read_request = (\<lambda>s. case snd s of [] \<Rightarrow> (Inl ''end of stream'', s)
                                 | req # reqs \<Rightarrow> (Inr req, (fst s, reqs))),
      xml_chunks = map ref_print,
      xml_load = ref_load,
      uuid_string = (\<lambda>u. u),
      cds_document = ''<scpd/>'', cm_document = ''<scpd/>''\<rparr>"

interpretation ref_web: net_io ref_web "\<lambda>_. ref_file" "\<lambda>f. f" fst
proof (unfold_locales, goal_cases)
  case (2 f len)
  then show ?case by (auto simp: ref_web_def ref_file_def)
qed (auto simp: ref_web_def split: if_splits list.splits)

lemma net_io_ref: "net_io ref_web (\<lambda>_. ref_file) (\<lambda>f. f) fst"
  by (rule ref_web.net_io_axioms)

lemma ref_calls_succeed: "calls_succeed ref_web"
  by (simp add: calls_succeed_def ref_web_def)

interpretation ref_web: util ref_web
proof (unfold_locales, goal_cases)
  case (1 i r)
  then show ?case using ref_util.int64_parses by (simp add: ref_web_def)
next
  case (2 s i r)
  then show ?case using ref_util.int64_range by (simp add: ref_web_def)
next
  case (3 n r)
  then show ?case using ref_util.uint32_parses by (simp add: ref_web_def)
next
  case (4 s n r)
  then show ?case using ref_util.uint32_range by (simp add: ref_web_def)
next
  case (5 n r)
  then show ?case using ref_util.uintmax_parses by (simp add: ref_web_def)
next
  case (6 s n r)
  then show ?case using ref_util.uintmax_range by (simp add: ref_web_def)
qed (use ref_util.util_axioms in \<open>simp_all add: util_def ref_web_def\<close>)

section \<open>Datagrams\<close>

text \<open>The serializer holds the bytes left; the parser knows one search request.\<close>

definition ref_search :: http_request where
  "ref_search =
     \<lparr>rq_method = Msearch, rq_target = ''*'', rq_version = 11, rq_keep_alive = True,
      rq_fields = [(''MAN'', ssdp_discover), (''ST'', ''upnp:rootdevice'')], rq_body = []\<rparr>"

definition ref_parser :: "bool parser_lib" where
  "ref_parser =
     \<lparr>hp_new = False,
      hp_put = (\<lambda>buffer p. if buffer = ''M-SEARCH'' then (Inr 8, True) else (Inl ''bad method'', p)),
      hp_is_done = (\<lambda>p. p), hp_release = (\<lambda>p. ref_search)\<rparr>"

interpretation ref_parser: request_parser ref_parser
  by unfold_locales (auto simp: ref_parser_def split: if_splits)

text \<open>A socket is the datagrams to come and the replies sent.\<close>

type_synonym ref_socket = "bytes list \<times> (bytes \<times> nat) list"

definition ref_udp :: "(ref_socket, nat, bytes, bool) udp_lib" where
  "ref_udp =
     \<lparr>sr_new = (\<lambda>resp. ref_header resp), sr_next = (\<lambda>r. Inr (take 1 r)), sr_consume = (\<lambda>n r. drop n r),
      sr_is_done = (\<lambda>r. r = []),
      udp_parser = ref_parser, udp_uuid_string = (\<lambda>u. u),
      udp_receive = (\<lambda>n k. case fst k of [] \<Rightarrow> (Inl ''closed'', k)
                             | d # ds \<Rightarrow> (Inr (take n d, length ds), (ds, snd k))),
      udp_send = (\<lambda>bs to k. (None, (fst k, snd k @ [(bs, to)])))\<rparr>"

interpretation ref_udp: serializer ref_udp "\<lambda>r. r" ref_header
proof (unfold_locales, goal_cases)
  case (3 r)
  then show ?case by (auto simp: ref_udp_def intro!: exI [of _ "drop 1 r"])
qed (simp_all add: ref_udp_def ref_header_def)

end
