(* ===== verification/Links.thy ===== *)
theory Links
  imports Server
begin

text \<open>
  The links the server hands out lead back to it: the target of a URL in a listing is routed to the
  content service with the identifier it was printed from, and the locations in the device
  description are routed to the UPnP service.
\<close>

lemma parse_target_split:
  "fst (parse_target target) @ snd (parse_target target) = target"
  "CHR ''?'' \<notin> set (fst (parse_target target))"
proof -
  let ?P = "\<lambda>c. c \<noteq> CHR ''?''"
  have split: "takeWhile ?P target @ dropWhile ?P target = target" by simp
  have drop: "drop (length (takeWhile ?P target)) target = dropWhile ?P target"
    by (simp add: dropWhile_eq_drop)
  show "fst (parse_target target) @ snd (parse_target target) = target"
    using split by (simp add: parse_target_def Let_def drop)
  have "takeWhile ?P target = target" if "\<not> length (takeWhile ?P target) < length target"
    using that split by (metis append.right_neutral append_eq_conv_conj length_takeWhile_le
        linorder_not_less order_antisym_conv take_all)
  then show "CHR ''?'' \<notin> set (fst (parse_target target))"
    by (auto simp: parse_target_def Let_def dest: set_takeWhileD)
qed

lemma parse_target_plain:
  assumes "CHR ''?'' \<notin> set target"
  shows "parse_target target = (target, [])"
proof -
  have "takeWhile (\<lambda>c. c \<noteq> CHR ''?'') target = target"
    using assms by (auto simp: takeWhile_eq_all_conv)
  then show ?thesis by (simp only: parse_target_def Let_def less_irrefl if_False)
qed

lemma split_slash_name: "CHR ''/'' \<notin> set n \<Longrightarrow> split_slash n = [n]"
  by (induction n) auto

lemma split_slash_append:
  "CHR ''/'' \<notin> set n \<Longrightarrow> split_slash (n @ CHR ''/'' # r) = n # split_slash r"
  by (induction n) auto

text \<open>A service and one name below it.\<close>

lemma route_of_service:
  assumes "service \<noteq> []" and "CHR ''/'' \<notin> set service" and "CHR ''?'' \<notin> set service"
    and "n \<noteq> []" and "CHR ''/'' \<notin> set n" and "CHR ''?'' \<notin> set n"
  shows "route_of (''/'' @ service @ ''/'' @ n) =
    (if service = ''upnp'' then UpnpRoute n
     else if service = ''content'' then ContentRoute n else UnknownRoute service)"
proof -
  let ?t = "''/'' @ service @ ''/'' @ n"
  have path: "fst (parse_target ?t) = ?t" using assms(3,6) by (simp add: parse_target_plain)
  have "last n \<noteq> CHR ''/''" using assms(4,5) last_in_set [of n] by metis
  then have "last ?t \<noteq> CHR ''/''" using assms(4) by (simp add: last_append)
  then have comps: "components ?t = [''/'', service, n]"
    using assms(1,4) split_slash_append [OF assms(2), of n] split_slash_name [OF assms(5)]
    by (simp add: components_def path_absolute_def Let_def)
  have rel: "\<not> path_absolute x" if "x \<noteq> []" "CHR ''/'' \<notin> set x" for x
    using that by (cases x) (auto simp: path_absolute_def)
  have "path_append [] n = n"
    using rel [OF assms(4,5)] by (simp add: path_append_def path_filename_def)
  moreover have "dropWhile has_root_directory (components (fst (parse_target ?t))) = [service, n]"
    unfolding path comps
    using rel [OF assms(1,2)] by (simp add: has_root_directory_def path_absolute_def)
  ultimately show ?thesis by (simp only: route_of_def list.case foldl.simps Let_def)
qed

text \<open>The URL of a resource, after the base, is a target of the content service.\<close>

lemma route_of_resource_url:
  "route_of (drop (length base) (resource_url base i)) = ContentRoute (show_int (sint i))"
  using route_of_service [of "''content''" "show_int (sint i)"] show_int_plain
  by (simp add: resource_url_def)

end
