(* ===== verification/Composer.thy ===== *)
theory Composer
  imports Scanner Library
begin

text \<open>
  What the object composer makes of one video: its loops over the ordered maps, with their breaks
  and their interleaved allocation of resource keys, are equal to a specification that first
  chooses the artwork and subtitle files by filtering the whole maps and then stores them in order.
  From the specification follow the facts the scan needs: the object written is well-formed over
  the resources stored so far, its identifier is the next one, and counters only grow.
\<close>

section \<open>Storing a list of files\<close>

fun store_all ::
  "'m fb_lib_scheme \<Rightarrow> file_info list \<Rightarrow> (object_composer \<times> 'db scanner, bytes list) proc" where
  "store_all F [] = returnP []"
| "store_all F (info # infos) =
     bindP (store_resource F info) (\<lambda>key. bindP (store_all F infos) (\<lambda>keys. returnP (key # keys)))"

section \<open>The files of an item\<close>

definition artwork_hits ::
  "string \<Rightarrow> (string \<times> file_info) list \<Rightarrow> (file_info \<times> ArtworkType) list" where
  "artwork_hits prefix m =
     List.map_filter
       (\<lambda>e. map_option (Pair (snd e)) (classify_artwork (drop (length prefix) (fst e)))) m"

definition item_artwork_files :: "object_composer \<Rightarrow> string \<Rightarrow> (file_info \<times> ArtworkType) list" where
  "item_artwork_files oc prefix =
     (let hits = artwork_hits prefix (filter (\<lambda>e. starts_with (fst e) prefix) (artwork_map oc))
      in if hits \<noteq> [] then hits
         else case get_folder_artwork oc of
                (None, _) \<Rightarrow> []
              | (Some found, art_type) \<Rightarrow> [(snd found, art_type)])"

definition item_subtitles :: "object_composer \<Rightarrow> string \<Rightarrow> file_info list" where
  "item_subtitles oc prefix =
     map snd (filter (\<lambda>e. starts_with (fst e) prefix) (subtitles_map oc))"

definition compose_spec ::
  "'m fb_lib_scheme \<Rightarrow> 'u util_lib_scheme \<Rightarrow> string \<times> file_info
    \<Rightarrow> (object_composer \<times> 'db scanner, bytes) proc" where
  "compose_spec F U p st =
     (let oc = fst st;
          prefix = resource_prefix_of oc (fst p);
          arts = item_artwork_files oc prefix;
          subs = item_subtitles oc prefix
      in bindP (store_resource F (snd p)) (\<lambda>key.
         bindP (store_all F (map fst arts)) (\<lambda>art_keys.
         bindP (store_all F subs) (\<lambda>sub_keys.
         bindP (on_scanner next_object_key) (\<lambda>item_id.
           returnP (fb_object F
             (composed_object F U oc (fst p) item_id
               (CreateResourceRef key (snd p) # map2 CreateResourceRef sub_keys subs)
               (map2 CreateArtwork art_keys (map snd arts)))))))) st)"

section \<open>The loops store the files of an item\<close>

lemma artwork_loop_eq:
  "artwork_loop F prefix es acc =
     bindP (store_all F (map fst (artwork_hits prefix (takeWhile (\<lambda>e. starts_with (fst e) prefix) es))))
       (\<lambda>keys. returnP (acc @ map2 CreateArtwork keys
          (map snd (artwork_hits prefix (takeWhile (\<lambda>e. starts_with (fst e) prefix) es)))))"
proof (induction es arbitrary: acc)
  case Nil
  then show ?case by (simp add: artwork_hits_def bindP_laws)
next
  case (Cons e es)
  then show ?case
    by (cases "classify_artwork (drop (length prefix) (fst e))")
      (simp_all add: artwork_hits_def map_filter_simps bindP_laws)
qed

lemma subtitles_loop_eq:
  "subtitles_loop F prefix es acc =
     bindP (store_all F (map snd (takeWhile (\<lambda>e. starts_with (fst e) prefix) es)))
       (\<lambda>keys. returnP (acc @ map2 CreateResourceRef keys
          (map snd (takeWhile (\<lambda>e. starts_with (fst e) prefix) es))))"
  by (induction es arbitrary: acc) (simp_all add: bindP_laws)

lemma folder_artwork_fallback_Cons [simp]:
  "folder_artwork_fallback F oc (a # as) = returnP (a # as)"
  by (simp add: folder_artwork_fallback_def)

lemma artwork_fallback_eq:
  assumes "map_sorted (artwork_map oc)"
  shows "bindP (artwork_loop F prefix (lower_bound prefix (artwork_map oc)) [])
       (folder_artwork_fallback F oc) =
     bindP (store_all F (map fst (item_artwork_files oc prefix)))
       (\<lambda>keys. returnP (map2 CreateArtwork keys (map snd (item_artwork_files oc prefix))))"
proof -
  let ?hits = "artwork_hits prefix (filter (\<lambda>e. starts_with (fst e) prefix) (artwork_map oc))"
  have loop: "artwork_loop F prefix (lower_bound prefix (artwork_map oc)) [] =
      bindP (store_all F (map fst ?hits)) (\<lambda>keys. returnP (map2 CreateArtwork keys (map snd ?hits)))"
    by (simp add: artwork_loop_eq name_map.prefix_range [OF assms])
  show ?thesis
  proof (cases ?hits)
    case Nil
    then show ?thesis
      by (auto simp: loop bindP_laws folder_artwork_fallback_def item_artwork_files_def
          split: prod.splits option.splits)
  next
    case (Cons h hs)
    then have files: "item_artwork_files oc prefix = ?hits"
      by (simp add: item_artwork_files_def)
    show ?thesis
      unfolding files by (simp add: loop bindP_laws Cons)
  qed
qed

lemma artwork_fallback_bind:
  assumes "map_sorted (artwork_map oc)"
  shows "bindP (artwork_loop F prefix (lower_bound prefix (artwork_map oc)) [])
       (\<lambda>art. bindP (folder_artwork_fallback F oc art) k) =
     bindP (store_all F (map fst (item_artwork_files oc prefix)))
       (\<lambda>keys. k (map2 CreateArtwork keys (map snd (item_artwork_files oc prefix))))"
  using arg_cong [OF artwork_fallback_eq [OF assms], of "\<lambda>m. bindP m k"]
  by (simp add: bindP_laws)

text \<open>The composer equals its specification, on every state, exceptions included.\<close>

lemma compose_eq_spec:
  assumes "map_sorted (artwork_map (fst st))" and "map_sorted (subtitles_map (fst st))"
  shows "compose F U p st = compose_spec F U p st"
  by (simp add: compose_def compose_spec_def Let_def artwork_fallback_bind [OF assms(1)]
      subtitles_loop_eq item_subtitles_def name_map.prefix_range [OF assms(2)] bindP_laws)

section \<open>How the composer moves the state\<close>

text \<open>
  A step adds resources with new identifiers between the old and the new counter and lets the
  counters grow; everything else stays.
\<close>

definition advances ::
  "'m fb_lib_scheme \<Rightarrow> object_composer \<times> 'db scanner \<Rightarrow> object_composer \<times> 'db scanner \<Rightarrow> bool" where
  "advances F st st' \<longleftrightarrow>
     (\<exists>new n m.
        fst st' = (fst st)\<lparr>resources := resources (fst st) @ new\<rparr>
        \<and> snd st' = (snd st)\<lparr>next_resource_id := n, next_object_id := m\<rparr>
        \<and> sint (next_resource_id (snd st)) \<le> sint n
        \<and> sint (next_object_id (snd st)) \<le> sint m
        \<and> (\<forall>(i, buf) \<in> set new.
              sint (next_resource_id (snd st)) \<le> sint i \<and> sint i < sint n
              \<and> wf_resource (fb_resource_root F buf))
        \<and> distinct (map fst new))"

lemma advances_refl [simp]: "advances F st st"
  unfolding advances_def
  by (rule exI [of _ "[]"], rule exI [of _ "next_resource_id (snd st)"],
      rule exI [of _ "next_object_id (snd st)"]) simp

lemma advances_trans:
  assumes "advances F a b" and "advances F b c"
  shows "advances F a c"
proof -
  obtain new n m where ab:
    "fst b = (fst a)\<lparr>resources := resources (fst a) @ new\<rparr>"
    "snd b = (snd a)\<lparr>next_resource_id := n, next_object_id := m\<rparr>"
    "sint (next_resource_id (snd a)) \<le> sint n" "sint (next_object_id (snd a)) \<le> sint m"
    "\<forall>(i, buf) \<in> set new. sint (next_resource_id (snd a)) \<le> sint i \<and> sint i < sint n
       \<and> wf_resource (fb_resource_root F buf)" "distinct (map fst new)"
    using assms(1) unfolding advances_def by blast
  obtain new' n' m' where bc:
    "fst c = (fst b)\<lparr>resources := resources (fst b) @ new'\<rparr>"
    "snd c = (snd b)\<lparr>next_resource_id := n', next_object_id := m'\<rparr>"
    "sint (next_resource_id (snd b)) \<le> sint n'" "sint (next_object_id (snd b)) \<le> sint m'"
    "\<forall>(i, buf) \<in> set new'. sint (next_resource_id (snd b)) \<le> sint i \<and> sint i < sint n'
       \<and> wf_resource (fb_resource_root F buf)" "distinct (map fst new')"
    using assms(2) unfolding advances_def by blast
  have "fst ` set new \<inter> fst ` set new' = {}"
    using ab(2,5) bc(5) by fastforce
  then have "distinct (map fst (new @ new'))" using ab(6) bc(6) by simp
  then show ?thesis
    unfolding advances_def
    by (intro exI [of _ "new @ new'"] exI [of _ n'] exI [of _ m']) (use ab bc in auto)
qed

lemma advances_simps:
  assumes "advances F a b"
  shows "parent_id (fst b) = parent_id (fst a)" "folder_name (fst b) = folder_name (fst a)"
    "artwork_map (fst b) = artwork_map (fst a)" "subtitles_map (fst b) = subtitles_map (fst a)"
    "sc_store (snd b) = sc_store (snd a)" "movies_folder (snd b) = movies_folder (snd a)"
    "set (resources (fst a)) \<subseteq> set (resources (fst b))"
    "sint (next_object_id (snd a)) \<le> sint (next_object_id (snd b))"
    "sint (next_resource_id (snd a)) \<le> sint (next_resource_id (snd b))"
  using assms by (auto simp: advances_def)

lemma advances_distinct:
  "advances F a b \<Longrightarrow> resources (fst a) = [] \<Longrightarrow> distinct (map fst (resources (fst b)))"
  by (auto simp: advances_def)

text \<open>A resource made of a file.\<close>

definition file_resource :: "file_info \<Rightarrow> Resource" where
  "file_resource info =
     \<lparr>res_location = Some (put_string (fi_path info)),
      res_mime_type = Some (put_string_view (fi_mime_type info))\<rparr>"

definition held_file :: "'m fb_lib_scheme \<Rightarrow> (int64 \<times> bytes) list \<Rightarrow> bytes \<Rightarrow> file_info \<Rightarrow> bool" where
  "held_file F res k info \<longleftrightarrow>
     (\<exists>i. k = fb_key F (ResourceKey i) \<and> (i, fb_resource F (file_resource info)) \<in> set res)"

lemma held_file_mono: "held_file F res k info \<Longrightarrow> set res \<subseteq> set res' \<Longrightarrow> held_file F res' k info"
  by (auto simp: held_file_def)

text \<open>An item whose first resource is the file.\<close>

definition main_file :: "'m fb_lib_scheme \<Rightarrow> (int64 \<times> bytes) list \<Rightarrow> MediaObject \<Rightarrow> file_info \<Rightarrow> bool" where
  "main_file F res ob info \<longleftrightarrow>
     (\<exists>k refs. mo_data ob = MediaItem (Some (CreateResourceRef k info # refs)) \<and> held_file F res k info)"

lemma main_file_mono: "main_file F res ob info \<Longrightarrow> set res \<subseteq> set res' \<Longrightarrow> main_file F res' ob info"
  using held_file_mono unfolding main_file_def by blast

text \<open>A key of a resource the composer holds.\<close>

definition held_key :: "'m fb_lib_scheme \<Rightarrow> object_composer \<Rightarrow> bytes \<Rightarrow> bool" where
  "held_key F oc k \<longleftrightarrow> (\<exists>i \<in> fst ` set (resources oc). k = fb_key F (ResourceKey i))"

lemma held_key_advances: "advances F a b \<Longrightarrow> held_key F (fst a) k \<Longrightarrow> held_key F (fst b) k"
  using advances_simps(7) unfolding held_key_def by blast

lemma wf_resource_entry:
  "wf_resource \<lparr>res_location = Some (put_string l), res_mime_type = Some (put_string m)\<rparr>"
  by (simp add: wf_resource_def)

lemma composed_object_simps [simp]:
  "mo_id (composed_object F U oc name i rrs aws) = i"
  "mo_parent_id (composed_object F U oc name i rrs aws) = parent_id oc"
  "mo_artwork (composed_object F U oc name i rrs aws) = put_sorted_vector F aws"
  "mo_data (composed_object F U oc name i rrs aws) = MediaItem (Some rrs)"
  "stored_string (mo_dc_title (composed_object F U oc name i rrs aws))"
  "stored_string (mo_upnp_class (composed_object F U oc name i rrs aws))"
  by (simp_all add: composed_object_def Let_def split_def)

text \<open>An item whose references are keys of resources the composer holds.\<close>

definition held_object :: "'m fb_lib_scheme \<Rightarrow> object_composer \<Rightarrow> MediaObject \<Rightarrow> bool" where
  "held_object F oc ob \<longleftrightarrow>
     stored_string (mo_dc_title ob) \<and> stored_string (mo_upnp_class ob)
     \<and> mo_data ob \<noteq> ObjectUnion_NONE \<and> children ob = None
     \<and> (\<forall>aw \<in> set (artwork_list ob). held_key F oc (aw_ref aw))
     \<and> (\<forall>rr \<in> set (resource_list ob). held_key F oc (rr_ref rr) \<and> stored_string (rr_protocol_info rr))"

lemma held_object_advances:
  "advances F a b \<Longrightarrow> held_object F (fst a) ob \<Longrightarrow> held_object F (fst b) ob"
  using held_key_advances unfolding held_object_def by blast

lemma triple_start:
  assumes "m s = m' s" and "triple (\<lambda>t. t = s) m' Q E"
  shows "triple (\<lambda>t. t = s) m Q E"
  using assms by (simp add: triple_def)

context flatbuffers
begin

text \<open>From any state the composer's steps only advance it; the one exception is overflow.\<close>

abbreviation "stops st0 \<equiv> \<lambda>e st. e = Undefined \<and> advances F st0 st"

lemma store_resource_triple:
  "triple (advances F st0) (store_resource F info)
     (\<lambda>k st. advances F st0 st \<and> held_key F (fst st) k) (stops st0)"
proof (rule tripleI)
  fix st k st' assume st: "advances F st0 st" and r: "store_resource F info st = (Inr k, st')"
  obtain i n where i: "i = next_resource_id (snd st)" "increment i = Inr n"
    and st': "st' = ((fst st)\<lparr>resources := resources (fst st) @
        [(i, fb_resource F \<lparr>res_location = Some (put_string (fi_path info)),
             res_mime_type = Some (put_string (fi_mime_type info))\<rparr>)]\<rparr>,
        (snd st)\<lparr>next_resource_id := n\<rparr>)"
    and k: "k = fb_key F (ResourceKey i)"
    using r
    by (auto simp: store_resource_def serialize_resource_def on_scanner_def next_resource_key_def
        bindP_def returnP_def serialize_key_def split: sum.splits prod.splits)
  have "advances F st st'"
    unfolding advances_def
    by (rule exI [of _ "[(i, fb_resource F \<lparr>res_location = Some (put_string (fi_path info)),
             res_mime_type = Some (put_string (fi_mime_type info))\<rparr>)]"], rule exI [of _ n],
        rule exI [of _ "next_object_id (snd st)"])
      (use i sint_increment in \<open>auto simp: st' wf_resource_entry\<close>)
  then show "advances F st0 st' \<and> held_key F (fst st') k"
    using advances_trans [OF st] by (auto simp: held_key_def st' k)
next
  fix st e st' assume st: "advances F st0 st" and r: "store_resource F info st = (Inl e, st')"
  then have "st' = st \<and> e = Undefined"
    by (auto simp: store_resource_def serialize_resource_def on_scanner_def next_resource_key_def
        bindP_def returnP_def increment_def split: sum.splits prod.splits if_splits)
  with st show "e = Undefined \<and> advances F st0 st'" by simp
qed

lemma store_all_triple:
  "triple (advances F st0) (store_all F infos)
     (\<lambda>ks st. advances F st0 st \<and> length ks = length infos \<and> (\<forall>k \<in> set ks. held_key F (fst st) k))
     (stops st0)"
proof (induction infos arbitrary: st0)
  case Nil
  then show ?case by (auto intro: triple_returnP)
next
  case (Cons info infos)
  have rest: "triple (\<lambda>st. advances F st0 st \<and> held_key F (fst st) k)
      (bindP (store_all F infos) (\<lambda>ks. returnP (k # ks)))
      (\<lambda>ks st. advances F st0 st \<and> length ks = length (info # infos)
         \<and> (\<forall>k \<in> set ks. held_key F (fst st) k)) (stops st0)" for k
  proof (rule triple_assume)
    fix st1 assume st1: "advances F st0 st1 \<and> held_key F (fst st1) k"
    have trans: "advances F st0 st" if "advances F st1 st" for st
      using advances_trans st1 that by blast
    have held: "held_key F (fst st) k" if "advances F st1 st" for st
      using held_key_advances [OF that] st1 by blast
    show "triple (\<lambda>s'. s' = st1) (bindP (store_all F infos) (\<lambda>ks. returnP (k # ks)))
      (\<lambda>ks st. advances F st0 st \<and> length ks = length (info # infos)
         \<and> (\<forall>k \<in> set ks. held_key F (fst st) k)) (stops st0)"
    proof (rule triple_bindP)
      show "triple (\<lambda>s'. s' = st1) (store_all F infos)
        (\<lambda>ks st. advances F st1 st \<and> length ks = length infos
           \<and> (\<forall>k \<in> set ks. held_key F (fst st) k)) (stops st0)"
        by (rule triple_conseq [OF Cons.IH [of st1]]) (auto intro: trans)
    qed (rule triple_returnP, use trans held in auto)
  qed
  show ?case
    by (simp only: store_all.simps) (rule triple_bindP [OF store_resource_triple rest])
qed

lemma next_object_key_triple:
  "triple (\<lambda>st. st = st1) (on_scanner next_object_key)
     (\<lambda>i st. advances F st1 st \<and> fst st = fst st1 \<and> i = next_object_id (snd st1)
        \<and> sint (next_object_id (snd st)) = sint i + 1)
     (stops st1)"
proof (rule tripleI)
  fix st i st' assume st: "st = st1" and r: "on_scanner next_object_key st = (Inr i, st')"
  then obtain n where n: "i = next_object_id (snd st1)" "increment i = Inr n"
    and st': "st' = (fst st1, (snd st1)\<lparr>next_object_id := n\<rparr>)"
    by (auto simp: on_scanner_def next_object_key_def split: sum.splits prod.splits)
  have "advances F st1 st'"
    unfolding advances_def
    by (rule exI [of _ "[]"], rule exI [of _ "next_resource_id (snd st1)"], rule exI [of _ n])
      (use n sint_increment in \<open>auto simp: st'\<close>)
  with n st' show "advances F st1 st' \<and> fst st' = fst st1 \<and> i = next_object_id (snd st1)
      \<and> sint (next_object_id (snd st')) = sint i + 1"
    by (simp add: sint_increment)
next
  fix st e st' assume "st = st1" and "on_scanner next_object_key st = (Inl e, st')"
  then show "e = Undefined \<and> advances F st1 st'"
    by (auto simp: on_scanner_def next_object_key_def increment_def
        split: sum.splits prod.splits if_splits)
qed

lemma store_all_frame:
  "triple (\<lambda>st. advances F st0 st \<and> (\<forall>k \<in> X. held_key F (fst st) k)) (store_all F infos)
     (\<lambda>ks st. advances F st0 st \<and> length ks = length infos
        \<and> (\<forall>k \<in> X \<union> set ks. held_key F (fst st) k))
     (stops st0)"
proof (rule triple_assume)
  fix st1 assume st1: "advances F st0 st1 \<and> (\<forall>k \<in> X. held_key F (fst st1) k)"
  have trans: "advances F st0 st" if "advances F st1 st" for st
    using advances_trans st1 that by blast
  have held: "\<forall>k \<in> X. held_key F (fst st) k" if "advances F st1 st" for st
    using held_key_advances [OF that] st1 by blast
  show "triple (\<lambda>st. st = st1) (store_all F infos)
     (\<lambda>ks st. advances F st0 st \<and> length ks = length infos
        \<and> (\<forall>k \<in> X \<union> set ks. held_key F (fst st) k))
     (stops st0)"
  proof (rule triple_conseq [OF store_all_triple [of st1 infos]], goal_cases)
    case (2 ks st)
    then show ?case using trans [of st] held [of st] by blast
  qed (use trans in auto)
qed

lemma composed_object_held:
  assumes "held_key F oc key" and "length art_keys = length tys" and "\<forall>k \<in> set art_keys. held_key F oc k"
    and "length sub_keys = length subs" and "\<forall>k \<in> set sub_keys. held_key F oc k"
  shows "held_object F oc
    (composed_object F U oc' name i (CreateResourceRef key info # map2 CreateResourceRef sub_keys subs)
      (map2 CreateArtwork art_keys tys))"
proof -
  let ?ob = "composed_object F U oc' name i
    (CreateResourceRef key info # map2 CreateResourceRef sub_keys subs) (map2 CreateArtwork art_keys tys)"
  have "set (artwork_list ?ob) = set (map2 CreateArtwork art_keys tys)"
    by (auto simp: artwork_list_def put_sorted_vector_def)
  moreover have "resource_list ?ob = CreateResourceRef key info # map2 CreateResourceRef sub_keys subs"
    by (simp add: resource_list_def)
  moreover have "children ?ob = None" by (simp add: children_def)
  ultimately show ?thesis
    using assms
    by (auto simp: held_object_def CreateArtwork_def CreateResourceRef_def dest: set_zip_leftD)
qed

text \<open>What a finished composition leaves behind.\<close>

abbreviation "composed st1 \<equiv> \<lambda>buf st. advances F st1 st \<and> held_object F (fst st) (fb_object_root F buf)
   \<and> mo_parent_id (fb_object_root F buf) = parent_id (fst st1)
   \<and> sint (next_object_id (snd st1)) \<le> sint (mo_id (fb_object_root F buf))
   \<and> sint (mo_id (fb_object_root F buf)) < sint (next_object_id (snd st))"

lemma compose_finish:
  "triple (\<lambda>st. advances F st1 st \<and> length sks = length subs
        \<and> length aks = length tys \<and> (\<forall>k \<in> insert key (set aks) \<union> set sks. held_key F (fst st) k))
      (bindP (on_scanner next_object_key) (\<lambda>i. returnP (fb_object F
        (composed_object F U (fst st1) name i
          (CreateResourceRef key info # map2 CreateResourceRef sks subs) (map2 CreateArtwork aks tys)))))
      (composed st1) (stops st1)"
proof (rule triple_assume, rule triple_bindP)
  fix st2 assume st2: "advances F st1 st2 \<and> length sks = length subs
        \<and> length aks = length tys \<and> (\<forall>k \<in> insert key (set aks) \<union> set sks. held_key F (fst st2) k)"
  show "triple (\<lambda>st. st = st2) (on_scanner next_object_key)
        (\<lambda>i st. advances F st2 st \<and> fst st = fst st2 \<and> i = next_object_id (snd st2)
           \<and> sint (next_object_id (snd st)) = sint i + 1) (stops st1)"
    by (rule triple_conseq [OF next_object_key_triple [of st2]]) (use st2 advances_trans in blast)+
  fix i
  show "triple (\<lambda>st. advances F st2 st \<and> fst st = fst st2 \<and> i = next_object_id (snd st2)
           \<and> sint (next_object_id (snd st)) = sint i + 1)
    (returnP (fb_object F (composed_object F U (fst st1) name i
          (CreateResourceRef key info # map2 CreateResourceRef sks subs) (map2 CreateArtwork aks tys))))
    (composed st1) (stops st1)"
  proof (rule triple_returnP)
    fix st assume st: "advances F st2 st \<and> fst st = fst st2 \<and> i = next_object_id (snd st2)
           \<and> sint (next_object_id (snd st)) = sint i + 1"
    have "held_object F (fst st) (composed_object F U (fst st1) name i
        (CreateResourceRef key info # map2 CreateResourceRef sks subs) (map2 CreateArtwork aks tys))"
      by (rule composed_object_held) (use st st2 in auto)
    moreover have "advances F st1 st" using st st2 advances_trans by blast
    moreover have "sint (next_object_id (snd st1)) \<le> sint i"
      using advances_simps(8) st st2 by blast
    ultimately show "composed st1 (fb_object F (composed_object F U (fst st1) name i
        (CreateResourceRef key info # map2 CreateResourceRef sks subs) (map2 CreateArtwork aks tys))) st"
      using st by simp
  qed
qed

lemma compose_triple:
  fixes st1 :: "object_composer \<times> 'db scanner"
  assumes "map_sorted (artwork_map (fst st1))" and "map_sorted (subtitles_map (fst st1))"
  shows "triple (\<lambda>st. st = st1) (compose F U p) (composed st1) (stops st1)"
proof -
  define arts where "arts = item_artwork_files (fst st1) (resource_prefix_of (fst st1) (fst p))"
  define subs where "subs = item_subtitles (fst st1) (resource_prefix_of (fst st1) (fst p))"
  let ?finish = "\<lambda>key aks sks. bindP (on_scanner (next_object_key :: ('db scanner, int64) proc)) (\<lambda>i. returnP (fb_object F
        (composed_object F U (fst st1) (fst p) i
          (CreateResourceRef key (snd p) # map2 CreateResourceRef sks subs)
          (map2 CreateArtwork aks (map snd arts)))))"
  have subs: "triple (\<lambda>st. st = st2) (bindP (store_all F subs) (?finish key aks)) (composed st1) (stops st1)"
    if "advances F st1 st2 \<and> length aks = length (map fst arts)
      \<and> (\<forall>k \<in> {key} \<union> set aks. held_key F (fst st2) k)" for key aks st2
  proof (rule triple_bindP)
    show "triple (\<lambda>st. st = st2) (store_all F subs)
        (\<lambda>ks st. advances F st1 st \<and> length ks = length subs
           \<and> (\<forall>k \<in> insert key (set aks) \<union> set ks. held_key F (fst st) k)) (stops st1)"
      by (rule triple_pre [OF store_all_frame]) (use that in auto)
  qed (rule triple_pre [OF compose_finish], use that in auto)
  have arts: "triple (\<lambda>st. advances F st1 st \<and> (\<forall>k \<in> {key}. held_key F (fst st) k))
      (bindP (store_all F (map fst arts)) (\<lambda>aks. bindP (store_all F subs) (?finish key aks)))
      (composed st1) (stops st1)" for key
    by (rule triple_bindP [OF store_all_frame], rule triple_assume) (rule subs)
  define m where "m = bindP (store_resource F (snd p)) (\<lambda>key.
      bindP (store_all F (map fst arts)) (\<lambda>aks. bindP (store_all F subs) (?finish key aks)))"
  have "triple (\<lambda>st. st = st1) m (composed st1) (stops st1)"
    unfolding m_def
    by (rule triple_bindP [OF triple_conseq [OF store_resource_triple [of st1]] arts]) auto
  moreover have "compose F U p st1 = m st1"
    by (simp add: compose_eq_spec [OF assms] compose_spec_def Let_def arts_def subs_def m_def)
  ultimately show ?thesis by (rule triple_start [rotated])
qed

text \<open>All the videos of a directory: as many items, with identifiers of their own.\<close>

definition composed_all ::
  "object_composer \<times> 'db scanner \<Rightarrow> bytes list \<Rightarrow> object_composer \<times> 'db scanner \<Rightarrow> bool" where
  "composed_all st1 bufs st \<longleftrightarrow>
     advances F st1 st
     \<and> distinct (map (\<lambda>buf. mo_id (fb_object_root F buf)) bufs)
     \<and> (\<forall>buf \<in> set bufs. held_object F (fst st) (fb_object_root F buf)
          \<and> mo_parent_id (fb_object_root F buf) = parent_id (fst st1)
          \<and> sint (next_object_id (snd st1)) \<le> sint (mo_id (fb_object_root F buf))
          \<and> sint (mo_id (fb_object_root F buf)) < sint (next_object_id (snd st)))"

lemma composed_all_Nil [simp]: "composed_all st [] st"
  by (simp add: composed_all_def)

lemma composed_all_Cons:
  assumes buf: "composed st1 buf st2" and bufs: "composed_all st2 bufs st"
  shows "composed_all st1 (buf # bufs) st"
proof -
  have adv: "advances F st1 st2" "advances F st2 st"
    using assms by (simp_all add: composed_all_def)
  note s12 = advances_simps [OF adv(1)] and s2 = advances_simps [OF adv(2)]
  have "held_object F (fst st) (fb_object_root F buf)"
    using held_object_advances [OF adv(2)] buf by blast
  moreover have "mo_id (fb_object_root F b) \<noteq> mo_id (fb_object_root F buf)" if "b \<in> set bufs" for b
  proof
    assume eq: "mo_id (fb_object_root F b) = mo_id (fb_object_root F buf)"
    have "sint (next_object_id (snd st2)) \<le> sint (mo_id (fb_object_root F b))"
      using bufs that by (simp add: composed_all_def)
    moreover have "sint (mo_id (fb_object_root F buf)) < sint (next_object_id (snd st2))"
      using buf by blast
    ultimately show False by (simp add: eq)
  qed
  moreover have "sint (next_object_id (snd st1)) \<le> sint (mo_id (fb_object_root F b))"
    if "b \<in> set bufs" for b
    using bufs that s12(8) unfolding composed_all_def by (meson order.trans)
  ultimately show ?thesis
    using buf bufs advances_trans [OF adv] s12(1) s2(8)
    by (auto simp: composed_all_def)
qed

lemma compose_all_triple:
  assumes "map_sorted (artwork_map (fst st1))" and "map_sorted (subtitles_map (fst st1))"
  shows "triple (\<lambda>st. st = st1) (compose_all F U vs)
    (\<lambda>bufs st. composed_all st1 bufs st \<and> length bufs = length vs) (stops st1)"
  using assms
proof (induction vs arbitrary: st1)
  case Nil
  then show ?case by (auto intro: triple_returnP)
next
  case (Cons v vs)
  have rest: "triple (\<lambda>st. st = st2) (bindP (compose_all F U vs) (\<lambda>bufs. returnP (buf # bufs)))
      (\<lambda>bufs st. composed_all st1 bufs st \<and> length bufs = length (v # vs)) (stops st1)"
    if st2: "composed st1 buf st2" for buf st2
  proof (rule triple_bindP)
    note adv = advances_simps [OF st2 [THEN conjunct1]]
    show "triple (\<lambda>st. st = st2) (compose_all F U vs)
        (\<lambda>bufs st. composed_all st2 bufs st \<and> length bufs = length vs) (stops st1)"
      by (rule triple_conseq [OF Cons.IH [of st2, unfolded adv(3,4), OF Cons.prems]])
        (use advances_trans st2 in blast)+
  qed (rule triple_returnP, use composed_all_Cons [OF st2] in auto)
  show ?case
    by (simp only: compose_all.simps)
      (rule triple_bindP [OF compose_triple [OF Cons.prems]], rule triple_assume, rule rest)
qed

section \<open>The files of the items\<close>

lemma store_resource_held:
  assumes "store_resource F info st = (Inr k, st')"
  shows "held_file F (resources (fst st')) k info"
  using assms
  by (auto simp: store_resource_def serialize_resource_def on_scanner_def next_resource_key_def
      bindP_def returnP_def serialize_key_def held_file_def file_resource_def split: sum.splits prod.splits)

lemma store_all_advances: "store_all F infos st = (Inr ks, st') \<Longrightarrow> advances F st st'"
  using triple_Inr [OF store_all_triple advances_refl] by blast

lemma next_object_key_advances: "on_scanner next_object_key st = (Inr i, st') \<Longrightarrow> advances F st st'"
  using triple_Inr [OF next_object_key_triple refl] by blast

lemma compose_main_file:
  assumes "map_sorted (artwork_map (fst st))" and "map_sorted (subtitles_map (fst st))"
    and run: "compose F U p st = (Inr buf, st')"
  shows "main_file F (resources (fst st')) (fb_object_root F buf) (snd p)"
proof -
  let ?oc = "fst st"
  let ?arts = "item_artwork_files ?oc (resource_prefix_of ?oc (fst p))"
  let ?subs = "item_subtitles ?oc (resource_prefix_of ?oc (fst p))"
  obtain key st1 aks st2 sks st3 i where key: "store_resource F (snd p) st = (Inr key, st1)"
    and steps: "store_all F (map fst ?arts) st1 = (Inr aks, st2)"
      "store_all F ?subs st2 = (Inr sks, st3)" "on_scanner next_object_key st3 = (Inr i, st')"
    and buf: "buf = fb_object F (composed_object F U ?oc (fst p) i
        (CreateResourceRef key (snd p) # map2 CreateResourceRef sks ?subs)
        (map2 CreateArtwork aks (map snd ?arts)))"
    using run unfolding compose_eq_spec [OF assms(1,2)] compose_spec_def Let_def
    by (auto simp: bindP_eq_Inr returnP_eq)
  have "advances F st1 st'"
    by (rule advances_trans [OF store_all_advances [OF steps(1)]
          advances_trans [OF store_all_advances [OF steps(2)] next_object_key_advances [OF steps(3)]]])
  then have "held_file F (resources (fst st')) key (snd p)"
    using held_file_mono [OF store_resource_held [OF key]] advances_simps(7) by blast
  then show ?thesis by (auto simp: main_file_def buf)
qed

lemma compose_all_main_files:
  assumes "map_sorted (artwork_map (fst st))" and "map_sorted (subtitles_map (fst st))"
    and "compose_all F U vs st = (Inr bufs, st')"
  shows "\<forall>v \<in> set vs. \<exists>buf \<in> set bufs. main_file F (resources (fst st')) (fb_object_root F buf) (snd v)"
  using assms
proof (induction vs arbitrary: st bufs)
  case Nil
  then show ?case by simp
next
  case (Cons v vs)
  obtain buf st1 rest where run: "compose F U v st = (Inr buf, st1)"
    "compose_all F U vs st1 = (Inr rest, st')" "bufs = buf # rest"
    using Cons.prems(3) by (auto simp: bindP_eq_Inr returnP_eq)
  have adv: "advances F st st1"
    using triple_Inr [OF compose_triple [OF Cons.prems(1,2)] refl run(1)] by blast
  have sorted: "map_sorted (artwork_map (fst st1))" "map_sorted (subtitles_map (fst st1))"
    using Cons.prems(1,2) by (simp_all add: advances_simps(3,4) [OF adv])
  have "advances F st1 st'"
    using triple_Inr [OF compose_all_triple [OF sorted] refl run(2)] by (simp add: composed_all_def)
  then have "main_file F (resources (fst st')) (fb_object_root F buf) (snd v)"
    using main_file_mono [OF compose_main_file [OF Cons.prems(1,2) run(1)]] advances_simps(7) by blast
  moreover have "\<forall>v \<in> set vs. \<exists>buf \<in> set rest. main_file F (resources (fst st')) (fb_object_root F buf) (snd v)"
    by (rule Cons.IH [OF sorted run(2)])
  ultimately show ?case by (auto simp: run(3))
qed

end

end
