(* ===== verification/ScanTree.thy ===== *)
theory ScanTree
  imports Scanner
begin

text \<open>
  The directory tree a scan sees, and the videos in it: the specification of what a scan is to find,
  and the listing of one directory against it.
\<close>

section \<open>Trees\<close>

text \<open>The names a directory iterator yields: not empty, without a slash.\<close>

definition plain_names :: "file_system \<Rightarrow> bool" where
  "plain_names fs \<longleftrightarrow>
     (\<forall>path items. fs path = Some items \<longrightarrow> (\<forall>(n, kind) \<in> set items. n \<noteq> [] \<and> CHR ''/'' \<notin> set n))"

inductive in_tree :: "file_system \<Rightarrow> string \<Rightarrow> string \<Rightarrow> bool"
  for fs root
where
  root: "in_tree fs root root"
| subdirectory: "in_tree fs root path \<Longrightarrow> fs path = Some items \<Longrightarrow> (n, Directory) \<in> set items
    \<Longrightarrow> in_tree fs root (path_append path n)"

definition video_file :: "string \<Rightarrow> bool" where
  "video_file path \<longleftrightarrow> (\<exists>mime. get_mime_type path = Some mime \<and> is_video_type mime)"

text \<open>The videos below a directory, as paths.\<close>

definition film_below :: "file_system \<Rightarrow> string \<Rightarrow> string \<Rightarrow> bool" where
  "film_below fs root path \<longleftrightarrow>
     (\<exists>dir items n. in_tree fs root dir \<and> fs dir = Some items \<and> (n, RegularFile) \<in> set items
        \<and> path = path_append dir n \<and> video_file path)"

lemma in_tree_step:
  "in_tree fs root path \<Longrightarrow>
     path = root \<or> (\<exists>items n. fs root = Some items \<and> (n, Directory) \<in> set items
        \<and> in_tree fs (path_append root n) path)"
proof (induction rule: in_tree.induct)
  case root
  then show ?case by simp
next
  case (subdirectory path items n)
  then show ?case using in_tree.root in_tree.subdirectory by metis
qed

lemma film_below_step:
  assumes "film_below fs root path"
  obtains items n where "fs root = Some items" and "(n, RegularFile) \<in> set items"
      and "path = path_append root n" and "video_file path"
    | items n where "fs root = Some items" and "(n, Directory) \<in> set items"
      and "film_below fs (path_append root n) path"
proof -
  obtain dir items n where f: "in_tree fs root dir" "fs dir = Some items" "(n, RegularFile) \<in> set items"
    "path = path_append dir n" "video_file path"
    using assms by (auto simp: film_below_def)
  from in_tree_step [OF f(1)] show thesis
  proof
    assume "dir = root"
    with f that(1) show thesis by blast
  next
    assume "\<exists>items n. fs root = Some items \<and> (n, Directory) \<in> set items
        \<and> in_tree fs (path_append root n) dir"
    with f that(2) show thesis unfolding film_below_def by blast
  qed
qed

section \<open>A listing finds its videos\<close>

lemma emplace_key: "\<exists>info. (k, info) \<in> set (emplace k v m)"
  by (induction m) auto

lemma emplace_keeps: "x \<in> set m \<Longrightarrow> x \<in> set (emplace k v m)"
  by (induction m) auto

lemma emplace_new: "x \<in> set (emplace k v m) \<Longrightarrow> x = (k, v) \<or> x \<in> set m"
  by (induction m) (auto split: if_splits)

text \<open>Videos are kept under their file names.\<close>

definition videos_in :: "string \<Rightarrow> scan_listing \<Rightarrow> bool" where
  "videos_in path l \<longleftrightarrow> (\<forall>(k, info) \<in> set (fst (snd l)). fi_path info = path_append path k)"

lemma scan_entry_videos:
  assumes name: "n \<noteq> []" "CHR ''/'' \<notin> set n" and l: "videos_in path l"
  shows "videos_in path (scan_entry path parent (n, kind) l)"
    and "set (fst (snd l)) \<subseteq> set (fst (snd (scan_entry path parent (n, kind) l)))"
    and "kind = RegularFile \<Longrightarrow> video_file (path_append path n) \<Longrightarrow>
      \<exists>v \<in> set (fst (snd (scan_entry path parent (n, kind) l))). fi_path (snd v) = path_append path n"
proof -
  obtain ds vs oc where l': "l = (ds, vs, oc)" by (cases l)
  note fname = path_append_filename [OF name(2,1), of path]
  have vs: "\<forall>(k, info) \<in> set vs. fi_path info = path_append path k"
    using l by (simp add: videos_in_def l')
  have emp: "\<forall>(k, info) \<in> set (emplace n \<lparr>fi_mime_type = m, fi_path = path_append path n\<rparr> vs).
      fi_path info = path_append path k" for m
    using vs by (auto dest!: emplace_new)
  show in': "videos_in path (scan_entry path parent (n, kind) l)"
    using vs emp by (auto simp: videos_in_def l' Let_def fname split: file_kind.splits option.splits)
  show "set (fst (snd l)) \<subseteq> set (fst (snd (scan_entry path parent (n, kind) l)))"
    by (auto simp: l' Let_def emplace_keeps split: file_kind.splits option.splits)
  assume kind: "kind = RegularFile" and video: "video_file (path_append path n)"
  obtain m where m: "get_mime_type (path_append path n) = Some m" "is_video_type m"
    using video by (auto simp: video_file_def)
  obtain info where "(n, info) \<in> set (emplace n \<lparr>fi_mime_type = m, fi_path = path_append path n\<rparr> vs)"
    using emplace_key [of n "\<lparr>fi_mime_type = m, fi_path = path_append path n\<rparr>" vs] by blast
  with emp [of m] m kind show "\<exists>v \<in> set (fst (snd (scan_entry path parent (n, kind) l))).
      fi_path (snd v) = path_append path n"
    by (fastforce simp: l' Let_def fname)
qed

lemma scan_listing_finds:
  assumes names: "\<forall>(n, kind) \<in> set items. n \<noteq> [] \<and> CHR ''/'' \<notin> set n"
    and "(n, RegularFile) \<in> set items" and "video_file (path_append path n)"
  shows "\<exists>v \<in> set (fst (snd (scan_listing path parent items))). fi_path (snd v) = path_append path n"
proof -
  have "videos_in path (fold (scan_entry path parent) items l)
      \<and> set (fst (snd l)) \<subseteq> set (fst (snd (fold (scan_entry path parent) items l)))
      \<and> (\<forall>n. (n, RegularFile) \<in> set items \<longrightarrow> video_file (path_append path n) \<longrightarrow>
          (\<exists>v \<in> set (fst (snd (fold (scan_entry path parent) items l))). fi_path (snd v) = path_append path n))"
    if "videos_in path l" for l
    using names that
  proof (induction items arbitrary: l)
    case Nil
    then show ?case by simp
  next
    case (Cons e items)
    obtain n kind where e: "e = (n, kind)" by (cases e)
    have name: "n \<noteq> []" "CHR ''/'' \<notin> set n" using Cons.prems(1) by (auto simp: e)
    note step = scan_entry_videos [OF name Cons.prems(2), where parent = parent and kind = kind]
    have "\<forall>(n, kind) \<in> set items. n \<noteq> [] \<and> CHR ''/'' \<notin> set n" using Cons.prems(1) by simp
    note ih = Cons.IH [OF this step(1)]
    have "\<exists>v \<in> set (fst (snd (fold (scan_entry path parent) items (scan_entry path parent (n, kind) l)))).
        fi_path (snd v) = path_append path x"
      if "(x, RegularFile) \<in> set (e # items)" "video_file (path_append path x)" for x
    proof (cases "(x, RegularFile) \<in> set items")
      case True
      with ih that show ?thesis by blast
    next
      case False
      with that(1) e have "x = n" "kind = RegularFile" by auto
      with step(3) that(2) ih show ?thesis by blast
    qed
    with ih step(2) show ?case by (simp add: e del: scan_entry.simps) blast
  qed
  from this [of "([], [], new_composer parent)"] assms(2,3) show ?thesis
    by (simp add: videos_in_def scan_listing_def)
qed

section \<open>The directories a scan hands on\<close>

definition subdirectories :: "string \<Rightarrow> (string \<times> file_kind) list \<Rightarrow> string list" where
  "subdirectories path items =
     map (path_append path \<circ> fst) (filter (\<lambda>e. snd e = Directory) items)"

lemma scan_listing_directories:
  "map fst (fst (scan_listing path parent items)) = subdirectories path items"
proof -
  have "map fst (fst (fold (scan_entry path parent) items l)) =
      map fst (fst l) @ subdirectories path items" for l
  proof (induction items arbitrary: l)
    case Nil
    then show ?case by (simp add: subdirectories_def)
  next
    case (Cons e items)
    have "map fst (fst (scan_entry path parent e l)) =
        map fst (fst l) @ (if snd e = Directory then [path_append path (fst e)] else [])"
      by (cases e; cases l; cases "snd e") (auto simp: Let_def split: option.splits)
    with Cons.IH show ?case by (simp add: subdirectories_def del: scan_entry.simps)
  qed
  from this [of "([], [], new_composer parent)"] show ?thesis by (simp add: scan_listing_def)
qed

lemma add_collection_directories:
  assumes "add_collection S path config parent l sc = (Inr dc, sc')"
  shows "map fst (fst dc) = map fst (fst l)"
  using assms by (auto simp: add_collection_def Let_def bindP_eq_Inr returnP_eq split: prod.splits if_splits)

lemma scan_directory_subdirectories:
  assumes "scan_directory S U fs path config parent sc = (Inr ds, sc')"
  obtains items where "fs path = Some items" and "map fst ds = subdirectories path items"
proof (cases "fs path")
  case None
  with assms show thesis by (simp add: scan_directory_def raiseP_def)
next
  case (Some items)
  from assms obtain dc sc1
    where dc: "add_collection S path config parent (scan_listing path parent items) sc = (Inr dc, sc1)"
      "ds = fst dc"
    by (auto simp: scan_directory_def Some Let_def bindP_eq_Inr returnP_eq split: if_splits)
  from add_collection_directories [OF dc(1)] dc(2) Some that show thesis
    by (simp add: scan_listing_directories)
qed

end
