(* ===== verification/ScanSafe.thy ===== *)
theory ScanSafe
  imports Composer Refinement ScanTree
begin

text \<open>
  A scan keeps the library well-formed. The invariant of the scanner says that the store is sound
  and its library well-formed, that both counters are above every stored identifier, and, when the
  backend refuses no write, that the cached movies folder is a container. Every step of the scan
  keeps it, whether it returns or throws; and when no write is refused the only exceptions are an
  unreadable directory and the overflow of an identifier. A film that is listed stays listed, and a
  scan that ends normally has listed every video below the directory it was started on.
\<close>

definition has_container :: "library \<Rightarrow> int64 \<Rightarrow> bool" where
  "has_container lib i \<longleftrightarrow> (\<exists>ob. lib_objects lib i = Some ob \<and> children ob \<noteq> None)"

text \<open>The root's children are containers: the scanner puts nothing else there.\<close>

definition root_of_containers :: "library \<Rightarrow> bool" where
  "root_of_containers lib \<longleftrightarrow>
     (\<forall>i ob. lib_objects lib i = Some ob \<longrightarrow> mo_parent_id ob = 0 \<longrightarrow> children ob \<noteq> None)"

definition writes_ok :: "('db, 'it, 'm) store_lib_scheme \<Rightarrow> bool" where
  "writes_ok S \<longleftrightarrow> (\<forall>batch db. fst (ldb_write S batch db) = None)"

definition scan_exn :: "exn \<Rightarrow> bool" where
  "scan_exn e \<longleftrightarrow> e = Undefined \<or> (\<exists>path. e = FilesystemError path)"

text \<open>An item of the library whose first resource is the file at \<open>path\<close>.\<close>

definition listed_film :: "'m fb_lib_scheme \<Rightarrow> library \<Rightarrow> string \<Rightarrow> bool" where
  "listed_film F lib path \<longleftrightarrow>
     (\<exists>i ob ref refs j r. lib_objects lib i = Some ob \<and> mo_data ob = MediaItem (Some (ref # refs))
        \<and> rr_ref ref = fb_key F (ResourceKey j) \<and> lib_resources lib j = Some r
        \<and> res_location r = Some (put_string path))"

lemma put_items_spec_keeps_films:
  assumes new: "new_items F lib parent items res"
    and fresh: "\<forall>(i, r) \<in> set res. i \<notin> dom (lib_resources lib)"
    and film: "listed_film F lib path"
  shows "listed_film F (put_items_spec F parent items res lib) path"
proof -
  obtain i ob ref refs j r where f: "lib_objects lib i = Some ob" "mo_data ob = MediaItem (Some (ref # refs))"
    "rr_ref ref = fb_key F (ResourceKey j)" "lib_resources lib j = Some r" "res_location r = Some (put_string path)"
    using film by (auto simp: listed_film_def)
  have "i \<noteq> parent" using new f(1,2) by (auto simp: new_items_def children_def)
  then have "lib_objects (put_items_spec F parent items res lib) i = Some ob"
    using f(1) by (simp add: put_items_spec_objects [OF new])
  moreover have "map_of (rev res) j = None"
    using fresh f(4) by (force simp: map_of_eq_None_iff)
  then have "lib_resources (put_items_spec F parent items res lib) j = Some r"
    using f(4) by (simp add: put_items_spec_def map_add_def)
  ultimately show ?thesis using f unfolding listed_film_def by blast
qed

text \<open>New items list the files they are made of.\<close>

lemma put_items_spec_lists_film:
  assumes new: "new_items F lib parent (map (fb_object_root F) bufs) (map (\<lambda>(k, b). (k, fb_resource_root F b)) res)"
    and dist: "distinct (map fst res)" and F: "flatbuffers F"
    and buf: "buf \<in> set bufs" and main: "main_file F res (fb_object_root F buf) info"
  shows "listed_film F (put_items_spec F parent (map (fb_object_root F) bufs)
    (map (\<lambda>(k, b). (k, fb_resource_root F b)) res) lib) (fi_path info)"
proof -
  let ?res = "map (\<lambda>(k, b). (k, fb_resource_root F b)) res"
  let ?lib = "put_items_spec F parent (map (fb_object_root F) bufs) ?res lib"
  obtain k refs j where m: "mo_data (fb_object_root F buf) = MediaItem (Some (CreateResourceRef k info # refs))"
    "k = fb_key F (ResourceKey j)" "(j, fb_resource F (file_resource info)) \<in> set res"
    using main by (auto simp: main_file_def held_file_def)
  have ob: "lib_objects ?lib (mo_id (fb_object_root F buf)) = Some (fb_object_root F buf)"
    using put_items_spec_item [OF new] buf by simp
  have "distinct (map fst (rev ?res))"
    using dist by (simp add: comp_def split_def flip: rev_map)
  moreover have "(j, file_resource info) \<in> set (rev ?res)"
    using imageI [OF m(3), of "\<lambda>(k, b). (k, fb_resource_root F b)"] flatbuffers.roots(3) [OF F] by simp
  ultimately have "map_of (rev ?res) j = Some (file_resource info)" by (rule map_of_is_SomeI)
  then have "lib_resources ?lib j = Some (file_resource info)"
    by (simp add: put_items_spec_def)
  with ob m show ?thesis
    unfolding listed_film_def CreateResourceRef_def
    by (intro exI [of _ "mo_id (fb_object_root F buf)"] exI) (auto simp: file_resource_def)
qed

lemma scan_exn_simps [simp]: "scan_exn Undefined" "scan_exn (FilesystemError p)"
  by (simp_all add: scan_exn_def)

lemma put_string_inject: "put_string s = put_string t \<longleftrightarrow> s = t"
  by (simp add: put_string_def)

context store_backend
begin

abbreviation lib_of :: "'db scanner \<Rightarrow> library" where
  "lib_of sc \<equiv> library_of S (entries (sc_store sc))"

definition scan_inv :: "'db scanner \<Rightarrow> bool" where
  "scan_inv sc \<longleftrightarrow>
     sound_db (sc_store sc) \<and> wf_library S (lib_of sc) \<and> root_of_containers (lib_of sc)
     \<and> (\<forall>i \<in> dom (lib_objects (lib_of sc)). sint i < sint (next_object_id sc))
     \<and> (\<forall>i \<in> dom (lib_resources (lib_of sc)). sint i < sint (next_resource_id sc))
     \<and> 0 \<le> sint (next_resource_id sc)
     \<and> (writes_ok S \<longrightarrow> 0 < sint (movies_folder sc) \<longrightarrow> has_container (lib_of sc) (movies_folder sc))"

definition evolves :: "'db scanner \<Rightarrow> 'db scanner \<Rightarrow> bool" where
  "evolves sc sc' \<longleftrightarrow>
     scan_inv sc' \<and> (\<forall>i. has_container (lib_of sc) i \<longrightarrow> has_container (lib_of sc') i)
     \<and> (\<forall>p. listed_film S (lib_of sc) p \<longrightarrow> listed_film S (lib_of sc') p)"

lemma evolves_refl: "scan_inv sc \<Longrightarrow> evolves sc sc"
  by (simp add: evolves_def)

lemma evolves_trans: "evolves a b \<Longrightarrow> evolves b c \<Longrightarrow> evolves a c"
  by (simp add: evolves_def)

abbreviation aborts :: "'db scanner \<Rightarrow> exn \<Rightarrow> 'db scanner \<Rightarrow> bool" where
  "aborts sc \<equiv> \<lambda>e sc'. evolves sc sc' \<and> (writes_ok S \<longrightarrow> scan_exn e)"

text \<open>A parent that new objects may name.\<close>

definition good_parent :: "'db scanner \<Rightarrow> int64 \<Rightarrow> bool" where
  "good_parent sc p \<longleftrightarrow> 0 < sint p \<and> (writes_ok S \<longrightarrow> has_container (lib_of sc) p)"

lemma good_parent_evolves: "evolves a b \<Longrightarrow> good_parent a p \<Longrightarrow> good_parent b p"
  by (auto simp: good_parent_def evolves_def)

lemma scan_inv_below:
  "scan_inv sc \<Longrightarrow> i \<in> dom (lib_objects (lib_of sc)) \<Longrightarrow> sint i < sint (next_object_id sc)"
  unfolding scan_inv_def by (elim conjE) (rule bspec)

lemma scan_inv_root:
  assumes inv: "scan_inv sc"
  shows "0 < sint (next_object_id sc)"
proof -
  have "0 \<in> dom (lib_objects (lib_of sc))"
    using inv by (auto simp: scan_inv_def wf_library_def wf_root_def)
  then have "sint (0::int64) < sint (next_object_id sc)"
    using inv unfolding scan_inv_def by blast
  then show ?thesis by simp
qed

lemma scan_inv_fresh:
  assumes "scan_inv sc" and "sint (next_resource_id sc) \<le> sint i"
  shows "i \<notin> dom (lib_resources (lib_of sc))"
proof
  assume "i \<in> dom (lib_resources (lib_of sc))"
  then have "sint i < sint (next_resource_id sc)" using assms(1) unfolding scan_inv_def by blast
  with assms(2) show False by simp
qed

section \<open>Adding items\<close>

lemma put_items_missing:
  assumes "sound_db db" and "\<not> has_container (library_of S (entries db)) parent"
  shows "\<exists>e. put_items S parent items res db = (Inl e, db)"
proof -
  have "sound_entries S (snapshot (create_iterator S db))"
    using assms by (simp add: sound_db_def create_iterator_def)
  note d = deserialize_container_library [OF this, of parent True]
  have "\<exists>e. deserialize_container S (serialize_key S (ObjectKey parent)) (create_iterator S db) True = Inl e"
    using assms(2) unfolding d
    by (auto simp: create_iterator_def has_container_def split: option.splits)
  then show ?thesis
    by (auto simp: put_items_def Let_def)
qed

text \<open>Items with identifiers from the current range fit the library, if their parent does.\<close>

definition fitting_items ::
  "'db scanner \<Rightarrow> int64 \<Rightarrow> bytes list \<Rightarrow> (int64 \<times> bytes) list \<Rightarrow> bool" where
  "fitting_items sc parent bufs res \<longleftrightarrow>
     distinct (map (\<lambda>buf. mo_id (fb_object_root S buf)) bufs)
     \<and> (\<forall>buf \<in> set bufs. let ob = fb_object_root S buf in
           mo_parent_id ob = parent
           \<and> (\<forall>i \<in> dom (lib_objects (lib_of sc)). sint i < sint (mo_id ob))
           \<and> sint (mo_id ob) < sint (next_object_id sc)
           \<and> children ob \<in> {None, Some []}
           \<and> (parent = 0 \<longrightarrow> children ob \<noteq> None)
           \<and> wf_object S (lib_resources (lib_of sc)
                ++ map_of (rev (map (\<lambda>(k, b). (k, fb_resource_root S b)) res))) ob)
     \<and> (\<forall>(i, b) \<in> set res. 0 \<le> sint i \<and> sint i < sint (next_resource_id sc)
           \<and> wf_resource (fb_resource_root S b) \<and> i \<notin> dom (lib_resources (lib_of sc)))"

lemma fitting_new_items:
  assumes "fitting_items sc parent bufs res" and "has_container (lib_of sc) parent"
  shows "new_items S (lib_of sc) parent (map (fb_object_root S) bufs)
    (map (\<lambda>(k, b). (k, fb_resource_root S b)) res)"
proof -
  have "lib_objects (lib_of sc) (mo_id (fb_object_root S buf)) = None" if "buf \<in> set bufs" for buf
    using assms(1) that by (fastforce simp: fitting_items_def Let_def)
  with assms show ?thesis
    by (auto simp: new_items_def fitting_items_def has_container_def Let_def comp_def)
qed

lemma spec_evolves:
  assumes inv: "scan_inv sc" and fit: "fitting_items sc parent bufs res"
    and parent: "has_container (lib_of sc) parent"
    and db': "sound_db db'" "wf_library S (library_of S (entries db'))"
    and lib': "library_of S (entries db') =
      put_items_spec S parent (map (fb_object_root S) bufs)
        (map (\<lambda>(k, b). (k, fb_resource_root S b)) res) (lib_of sc)"
  shows "evolves sc (sc\<lparr>sc_store := db'\<rparr>)"
proof -
  note new = fitting_new_items [OF fit parent]
  note objs = put_items_spec_objects [OF new]
  have cont: "has_container (library_of S (entries db')) i" if "has_container (lib_of sc) i" for i
    using that put_items_spec_kept [OF new] unfolding has_container_def lib' by fastforce
  have films: "listed_film S (library_of S (entries db')) p" if "listed_film S (lib_of sc) p" for p
    unfolding lib' using put_items_spec_keeps_films [OF new _ that] fit by (fastforce simp: fitting_items_def)
  obtain po where po: "lib_objects (lib_of sc) parent = Some po" "children po \<noteq> None"
    using parent by (auto simp: has_container_def)
  have ids: "sint i < sint (next_object_id sc)" if "i \<in> dom (lib_objects (library_of S (entries db')))" for i
    using that inv fit po
    by (auto simp: lib' dom_def objs scan_inv_def fitting_items_def Let_def)
  have res: "sint i < sint (next_resource_id sc)" if "i \<in> dom (lib_resources (library_of S (entries db')))" for i
    using that inv fit
    by (auto simp: lib' put_items_spec_def scan_inv_def fitting_items_def dest!: map_of_SomeD)
  have root: "root_of_containers (library_of S (entries db'))"
    unfolding root_of_containers_def lib' objs
    using inv fit po by (auto simp: scan_inv_def root_of_containers_def fitting_items_def Let_def)
  show ?thesis
    using inv db' cont films ids res root unfolding evolves_def scan_inv_def by simp
qed

lemma put_fitting:
  assumes inv: "scan_inv sc" and fit: "fitting_items sc parent bufs res"
    and parent: "writes_ok S \<longrightarrow> has_container (lib_of sc) parent"
    and put: "with_store (put_items S parent bufs res) sc = (r, sc')"
  shows "evolves sc sc' \<and> next_object_id sc' = next_object_id sc
    \<and> next_resource_id sc' = next_resource_id sc \<and> movies_folder sc' = movies_folder sc
    \<and> (writes_ok S \<longrightarrow> r = Inr () \<and> lib_of sc' =
         put_items_spec S parent (map (fb_object_root S) bufs)
           (map (\<lambda>(k, b). (k, fb_resource_root S b)) res) (lib_of sc))"
proof (cases "has_container (lib_of sc) parent")
  case False
  then obtain e where "put_items S parent bufs res (sc_store sc) = (Inl e, sc_store sc)"
    using put_items_missing inv unfolding scan_inv_def by blast
  with put have "r = Inl e" "sc' = sc" by (auto simp: with_store_def)
  with False parent inv show ?thesis by (simp add: evolves_refl)
next
  case True
  have db: "sound_db (sc_store sc)" "wf_library S (lib_of sc)" using inv by (auto simp: scan_inv_def)
  obtain db' where db': "put_items S parent bufs res (sc_store sc) = (Inr (), db')" "sound_db db'"
    "wf_library S (library_of S (entries db'))"
    "library_of S (entries db') = put_items_spec S parent (map (fb_object_root S) bufs)
        (map (\<lambda>(k, b). (k, fb_resource_root S b)) res) (lib_of sc)
      \<or> (\<exists>batch msg. fst (ldb_write S batch (sc_store sc)) = Some msg)
        \<and> entries db' = entries (sc_store sc)"
    by (rule put_items_wf [OF db fitting_new_items [OF fit True]])
  then have r: "r = Inr ()" "sc' = sc\<lparr>sc_store := db'\<rparr>"
    using put by (auto simp: with_store_def)
  show ?thesis
    using db'(4)
  proof
    assume lib': "library_of S (entries db') = put_items_spec S parent (map (fb_object_root S) bufs)
        (map (\<lambda>(k, b). (k, fb_resource_root S b)) res) (lib_of sc)"
    with spec_evolves [OF inv fit True db'(2,3)] r show ?thesis by simp
  next
    assume same: "(\<exists>batch msg. fst (ldb_write S batch (sc_store sc)) = Some msg)
        \<and> entries db' = entries (sc_store sc)"
    then have "\<not> writes_ok S" unfolding writes_ok_def by (metis option.distinct(1))
    moreover have "evolves sc sc'"
      using inv same by (simp add: evolves_def scan_inv_def r sound_db_def)
    ultimately show ?thesis using r by simp
  qed
qed

section \<open>Identifiers and resources\<close>

lemma scan_inv_counters:
  assumes inv: "scan_inv sc" and n: "sint (next_object_id sc) \<le> sint n"
    and r: "sint (next_resource_id sc) \<le> sint r"
  shows "evolves sc (sc\<lparr>next_object_id := n, next_resource_id := r\<rparr>)"
proof -
  have "sint i < sint n" if "i \<in> dom (lib_objects (lib_of sc))" for i
    using inv that n unfolding scan_inv_def by (meson less_le_trans)
  moreover have "sint i < sint r" if "i \<in> dom (lib_resources (lib_of sc))" for i
    using inv that r unfolding scan_inv_def by (meson less_le_trans)
  ultimately show ?thesis
    using inv n r by (simp add: evolves_def scan_inv_def)
qed

lemma next_object_key_Inr:
  assumes "next_object_key sc = (Inr i, sc')"
  shows "i = next_object_id sc" "sint (next_object_id sc') = sint i + 1"
    "sc' = sc\<lparr>next_object_id := next_object_id sc'\<rparr>"
  using assms sint_increment by (auto simp: next_object_key_def split: sum.splits)

lemma next_object_key_Inl: "next_object_key sc = (Inl e, sc') \<Longrightarrow> e = Undefined \<and> sc' = sc"
  by (auto simp: next_object_key_def increment_def split: sum.splits if_splits)

lemma serialize_resource_Inr:
  assumes "serialize_resource S info sc = (Inr res, sc')"
  shows "fst res = next_resource_id sc" "sint (next_resource_id sc') = sint (fst res) + 1"
    "sc' = sc\<lparr>next_resource_id := next_resource_id sc'\<rparr>" "wf_resource (fb_resource_root S (snd res))"
  using assms sint_increment
  by (auto simp: serialize_resource_def next_resource_key_def bindP_def returnP_def wf_resource_entry
      split: sum.splits prod.splits)

lemma serialize_resource_Inl: "serialize_resource S info sc = (Inl e, sc') \<Longrightarrow> e = Undefined \<and> sc' = sc"
  by (auto simp: serialize_resource_def next_resource_key_def increment_def bindP_def returnP_def
      split: sum.splits prod.splits if_splits)

section \<open>Outcomes\<close>

text \<open>
  The outcome of a step from a state with the invariant: the library evolved, whether the step
  returned a value with \<open>Q\<close> or threw.
\<close>

definition safe :: "'db scanner \<Rightarrow> ('a \<Rightarrow> 'db scanner \<Rightarrow> bool) \<Rightarrow> 'a result \<times> 'db scanner \<Rightarrow> bool" where
  "safe sc Q out \<longleftrightarrow>
     (case out of (Inl e, sc') \<Rightarrow> aborts sc e sc' | (Inr x, sc') \<Rightarrow> evolves sc sc' \<and> Q x sc')"

lemma safe_simps [simp]:
  "safe sc Q (Inl e, sc') \<longleftrightarrow> aborts sc e sc'"
  "safe sc Q (Inr x, sc') \<longleftrightarrow> evolves sc sc' \<and> Q x sc'"
  by (simp_all add: safe_def)

lemma safe_returnP: "scan_inv sc \<Longrightarrow> Q x sc \<Longrightarrow> safe sc Q (returnP x sc)"
  by (simp add: returnP_def evolves_refl)

lemma safe_trans: "evolves a b \<Longrightarrow> safe b Q out \<Longrightarrow> safe a Q out"
  using evolves_trans by (auto simp: safe_def split: sum.splits prod.splits)

lemma safe_mono: "safe sc Q out \<Longrightarrow> (\<And>x sc'. evolves sc sc' \<Longrightarrow> Q x sc' \<Longrightarrow> Q' x sc') \<Longrightarrow> safe sc Q' out"
  by (auto simp: safe_def split: sum.splits prod.splits)

lemma safe_bindP:
  assumes "safe sc R (m sc)"
    and "\<And>x sc1. evolves sc sc1 \<Longrightarrow> R x sc1 \<Longrightarrow> safe sc1 Q (f x sc1)"
  shows "safe sc Q (bindP m f sc)"
proof (cases "m sc")
  case (Pair r sc1)
  then show ?thesis
  proof (cases r)
    case (Inl e)
    with Pair assms(1) show ?thesis by simp
  next
    case (Inr x)
    with Pair assms(1) have "evolves sc sc1" "R x sc1" by simp_all
    with assms(2) [OF this] Pair Inr show ?thesis by (simp add: safe_trans)
  qed
qed

lemma evolves_inv: "evolves sc sc' \<Longrightarrow> scan_inv sc'"
  by (simp add: evolves_def)

lemma next_object_key_safe:
  assumes inv: "scan_inv sc"
  shows "safe sc (\<lambda>i sc'. i = next_object_id sc \<and> sint (next_object_id sc') = sint i + 1
      \<and> sc' = sc\<lparr>next_object_id := next_object_id sc'\<rparr>) (next_object_key sc)"
proof (cases "next_object_key sc")
  case (Pair r sc')
  show ?thesis
  proof (cases r)
    case (Inl e)
    with Pair next_object_key_Inl [of sc e sc'] inv show ?thesis by (simp add: evolves_refl)
  next
    case (Inr i)
    note k = next_object_key_Inr [OF Pair [unfolded Inr]]
    have "evolves sc (sc\<lparr>next_object_id := next_object_id sc', next_resource_id := next_resource_id sc\<rparr>)"
      by (rule scan_inv_counters [OF inv]) (use k in simp_all)
    moreover have "sc\<lparr>next_object_id := next_object_id sc', next_resource_id := next_resource_id sc\<rparr> = sc'"
      using k(3) by (metis scanner.surjective scanner.update_convs(3,4))
    ultimately show ?thesis using k Pair Inr by simp
  qed
qed

lemma serialize_resource_safe:
  assumes inv: "scan_inv sc"
  shows "safe sc (\<lambda>res sc'. fst res = next_resource_id sc
      \<and> sint (next_resource_id sc') = sint (fst res) + 1
      \<and> sc' = sc\<lparr>next_resource_id := next_resource_id sc'\<rparr>
      \<and> wf_resource (fb_resource_root S (snd res))) (serialize_resource S info sc)"
proof (cases "serialize_resource S info sc")
  case (Pair r sc')
  show ?thesis
  proof (cases r)
    case (Inl e)
    with Pair serialize_resource_Inl [of info sc e sc'] inv show ?thesis by (simp add: evolves_refl)
  next
    case (Inr res)
    note k = serialize_resource_Inr [OF Pair [unfolded Inr]]
    have "evolves sc (sc\<lparr>next_object_id := next_object_id sc, next_resource_id := next_resource_id sc'\<rparr>)"
      by (rule scan_inv_counters [OF inv]) (use k in simp_all)
    with k Pair Inr show ?thesis by simp
  qed
qed

section \<open>Containers\<close>

abbreviation counted_resources :: "'db scanner \<Rightarrow> (int64 \<times> bytes) list \<Rightarrow> bool" where
  "counted_resources sc res \<equiv> \<forall>(i, b) \<in> set res. 0 \<le> sint i
     \<and> sint i < sint (next_resource_id sc) \<and> wf_resource (fb_resource_root S b)
     \<and> i \<notin> dom (lib_resources (lib_of sc))"

lemma container_artwork_safe:
  assumes inv: "scan_inv sc"
  shows "safe sc (\<lambda>ra sc'. sc_store sc' = sc_store sc \<and> next_object_id sc' = next_object_id sc
      \<and> counted_resources sc' (fst ra)
      \<and> (\<forall>aw \<in> set (snd ra). \<exists>i \<in> fst ` set (fst ra). fst aw = fb_key S (ResourceKey i)))
    ((case art of None \<Rightarrow> returnP ([], [])
      | Some info \<Rightarrow> bindP (serialize_resource S info) (\<lambda>res.
          returnP ([res], [(serialize_key S (ResourceKey (fst res)), ty)]))) sc)"
proof (cases art)
  case None
  with inv show ?thesis by (simp add: safe_returnP)
next
  case (Some info)
  have pos: "0 \<le> sint (next_resource_id sc)" using inv by (simp add: scan_inv_def)
  have fresh: "next_resource_id sc \<notin> dom (lib_resources (lib_of sc))" by (rule scan_inv_fresh [OF inv]) simp
  show ?thesis
    unfolding Some option.case
  proof (rule safe_bindP, rule serialize_resource_safe [OF inv], rule safe_returnP)
    fix res sc1 assume ev: "evolves sc sc1" and res: "fst res = next_resource_id sc
      \<and> sint (next_resource_id sc1) = sint (fst res) + 1
      \<and> sc1 = sc\<lparr>next_resource_id := next_resource_id sc1\<rparr>
      \<and> wf_resource (fb_resource_root S (snd res))"
    show "scan_inv sc1" using ev by (rule evolves_inv)
    have "sc_store sc1 = sc_store sc" "next_object_id sc1 = next_object_id sc"
      using res by (metis scanner.select_convs(1,4) scanner.surjective scanner.update_convs(3))+
    with res pos fresh show "sc_store sc1 = sc_store sc \<and> next_object_id sc1 = next_object_id sc
      \<and> counted_resources sc1 (fst ([res], [(serialize_key S (ResourceKey (fst res)), ty)]))
      \<and> (\<forall>aw \<in> set (snd ([res], [(serialize_key S (ResourceKey (fst res)), ty)])).
            \<exists>i \<in> fst ` set (fst ([res], [(serialize_key S (ResourceKey (fst res)), ty)])).
              fst aw = fb_key S (ResourceKey i))"
      by (auto simp: serialize_key_def)
  qed
qed

text \<open>One new container, with the identifier taken last, fits.\<close>

lemma fitting_container:
  assumes inv: "scan_inv sc" and i: "sint (next_object_id sc) \<le> sint i"
    and sc': "sc_store sc' = sc_store sc" "sint i < sint (next_object_id sc')"
    and root: "mo_id (fb_object_root S buf) = i" "mo_parent_id (fb_object_root S buf) = parent"
      "children (fb_object_root S buf) = Some []"
    and res: "counted_resources sc' res"
    and wf: "stored_string (mo_dc_title (fb_object_root S buf))"
      "stored_string (mo_upnp_class (fb_object_root S buf))"
      "\<forall>aw \<in> set (artwork_list (fb_object_root S buf)).
          \<exists>i \<in> fst ` set res. aw_ref aw = fb_key S (ResourceKey i)"
  shows "fitting_items sc' parent [buf] res"
proof -
  define stored where "stored = map_of (rev (map (\<lambda>(k, b). (k, fb_resource_root S b)) res))"
  have dom: "fst ` set res \<subseteq> dom stored"
    unfolding stored_def by (simp add: dom_map_of_conv_image_fst image_image split_def)
  have "resource_ref S (lib_resources (lib_of sc') ++ stored) (aw_ref aw)"
    if aw: "aw \<in> set (artwork_list (fb_object_root S buf))" for aw
  proof -
    obtain r where r: "r \<in> fst ` set res" "aw_ref aw = fb_key S (ResourceKey r)"
      using bspec [OF wf(3) aw] by (elim bexE)
    have "r \<in> dom (lib_resources (lib_of sc') ++ stored)"
      unfolding dom_map_add by (rule UnI1, rule subsetD [OF dom r(1)])
    with r(2) show ?thesis unfolding resource_ref_def by (rule bexI)
  qed
  moreover have "mo_data (fb_object_root S buf) \<noteq> ObjectUnion_NONE"
    "resource_list (fb_object_root S buf) = []"
    using root(3) by (auto simp: children_def resource_list_def split: ObjectUnion.splits)
  ultimately have "wf_object S (lib_resources (lib_of sc') ++ stored) (fb_object_root S buf)"
    using wf by (simp add: wf_object_def)
  moreover have "sint j < sint i" if "j \<in> dom (lib_objects (lib_of sc'))" for j
    using scan_inv_below [OF inv, of j] that i sc'(1) by simp
  ultimately show ?thesis
    using root sc'(2) res unfolding fitting_items_def Let_def stored_def by simp
qed

lemma put_container_safe:
  assumes inv: "scan_inv sc'" and fit: "fitting_items sc' parent [buf] res"
    and parent: "writes_ok S \<longrightarrow> has_container (lib_of sc') parent"
    and buf: "mo_id (fb_object_root S buf) = i" "children (fb_object_root S buf) = Some []"
    and i: "0 < sint i"
  shows "safe sc' (\<lambda>_ t. good_parent t i) (with_store (put_items S parent [buf] res) sc')"
proof (cases "with_store (put_items S parent [buf] res) sc'")
  case (Pair r t)
  note put = put_fitting [OF inv fit parent Pair]
  have "has_container (lib_of t) i" if "writes_ok S"
  proof -
    have "new_items S (lib_of sc') parent (map (fb_object_root S) [buf])
        (map (\<lambda>(k, b). (k, fb_resource_root S b)) res)"
      using fitting_new_items [OF fit] parent that by blast
    from put_items_spec_item [OF this, of "fb_object_root S buf"] buf put that
    show ?thesis by (simp add: has_container_def)
  qed
  with put Pair i show ?thesis by (cases r) (auto simp: good_parent_def)
qed

lemma create_container_safe:
  assumes inv: "scan_inv sc" and parent: "good_parent sc parent"
  shows "safe sc (\<lambda>i sc'. good_parent sc' i) (create_container S name (art, ty) parent sc)"
  unfolding create_container_def fst_conv snd_conv
proof (rule safe_bindP, rule next_object_key_safe [OF inv])
  fix i sc1
  assume ev1: "evolves sc sc1" and sc1: "i = next_object_id sc \<and> sint (next_object_id sc1) = sint i + 1
      \<and> sc1 = sc\<lparr>next_object_id := next_object_id sc1\<rparr>"
  show "safe sc1 (\<lambda>i sc'. good_parent sc' i)
    (bindP (case art of None \<Rightarrow> returnP ([], [])
      | Some info \<Rightarrow> bindP (serialize_resource S info) (\<lambda>res.
          returnP ([res], [(serialize_key S (ResourceKey (fst res)), ty)])))
     (\<lambda>ra. bindP (with_store (put_items S parent [serialize_container S []
            \<lparr>cm_id = i, cm_parent_id = parent, cm_dc_title = name,
             cm_upnp_class = upnp_container_class, cm_artwork = snd ra\<rparr>] (fst ra)))
        (\<lambda>_. returnP i)) sc1)"
  proof (rule safe_bindP, rule container_artwork_safe [OF evolves_inv [OF ev1]])
    fix ra :: "(int64 \<times> bytes) list \<times> (bytes \<times> ArtworkType) list" and sc2
    assume ev2: "evolves sc1 sc2" and sc2: "sc_store sc2 = sc_store sc1 \<and> next_object_id sc2 = next_object_id sc1
      \<and> counted_resources sc2 (fst ra)
      \<and> (\<forall>aw \<in> set (snd ra). \<exists>i \<in> fst ` set (fst ra). fst aw = fb_key S (ResourceKey i))"
    let ?buf = "serialize_container S []
            \<lparr>cm_id = i, cm_parent_id = parent, cm_dc_title = name,
             cm_upnp_class = upnp_container_class, cm_artwork = snd ra\<rparr>"
    have store: "sc_store sc2 = sc_store sc" using sc1 sc2 by (metis scanner.select_convs(1) scanner.surjective scanner.update_convs(4))
    have buf: "mo_id (fb_object_root S ?buf) = i" "children (fb_object_root S ?buf) = Some []"
      by (simp_all add: container_root children_def)
    have fit: "fitting_items sc2 parent [?buf] (fst ra)"
    proof (rule fitting_container [OF inv, of i])
      show "counted_resources sc2 (fst ra)" using sc2 by blast
      have "aw_ref ` set (artwork_list (fb_object_root S ?buf)) = fst ` set (snd ra)"
        by (auto simp: container_root artwork_list_def image_image split_def)
      with sc2 show "\<forall>aw \<in> set (artwork_list (fb_object_root S ?buf)).
          \<exists>i \<in> fst ` set (fst ra). aw_ref aw = fb_key S (ResourceKey i)"
        by (metis (no_types, lifting) image_iff)
    qed (use sc1 sc2 store buf in \<open>simp_all add: container_root\<close>)
    have i: "0 < sint i" using scan_inv_root [OF inv] sc1 by simp
    have p2: "writes_ok S \<longrightarrow> has_container (lib_of sc2) parent"
      using parent store by (simp add: good_parent_def)
    note put = put_container_safe [OF evolves_inv [OF ev2] fit p2 buf i]
    show "safe sc2 (\<lambda>i sc'. good_parent sc' i)
      (bindP (with_store (put_items S parent [?buf] (fst ra))) (\<lambda>_. returnP i) sc2)"
      by (rule safe_bindP, rule put, rule safe_returnP) (auto intro: evolves_inv)
  qed
qed

section \<open>The movies folder\<close>

text \<open>The search is a search by title, if every key leads to an object with a stored title.\<close>

lemma find_movies_folder_library:
  assumes "sound_entries S (snapshot it)"
    and "\<forall>c \<in> set cs. \<exists>oc. lib_objects (library_of S (snapshot it)) c = Some oc
           \<and> mo_id oc = c \<and> stored_string (mo_dc_title oc)"
  shows "find_movies_folder S (map (\<lambda>c. fb_key S (ObjectKey c)) cs) it =
    Inr (find (\<lambda>c. mo_dc_title (the (lib_objects (library_of S (snapshot it)) c))
                  = put_string movies_folder_name) cs)"
  using assms
proof (induction cs arbitrary: it)
  case Nil
  then show ?case by simp
next
  case (Cons c cs)
  obtain oc where oc: "lib_objects (library_of S (snapshot it)) c = Some oc" "mo_id oc = c"
    "stored_string (mo_dc_title oc)"
    using Cons.prems(2) by auto
  obtain t where t: "mo_dc_title oc = put_string t" using oc(3) by (rule stored_stringE)
  obtain it' where it': "cursor_read S (fb_key S (ObjectKey c)) it = (Inr oc, it')"
      "snapshot it' = snapshot it"
    using cursor_read_library(1) [OF Cons.prems(1), of c]
      cursor_read_library(2) [OF Cons.prems(1), of "fb_key S (ObjectKey c)"] oc
    by (cases "cursor_read S (fb_key S (ObjectKey c)) it") (auto simp: serialize_key_def)
  have again: "fst (cursor_read S (fb_key S (ObjectKey c)) it') = Inr oc"
    using cursor_read_library(1) [of it' c] it'(2) oc Cons.prems(1) by (simp add: serialize_key_def)
  have rest: "find_movies_folder S (map (\<lambda>c. fb_key S (ObjectKey c)) cs) it' =
    Inr (find (\<lambda>c. mo_dc_title (the (lib_objects (library_of S (snapshot it)) c))
                  = put_string movies_folder_name) cs)"
    using Cons.IH [of it'] Cons.prems it'(2) by simp
  show ?case
    using it'(1) again rest oc t by (auto simp: put_string_inject)
qed

text \<open>The root's children, by identifier.\<close>

lemma root_children:
  assumes "wf_library S lib"
  obtains ob cs where "lib_objects lib 0 = Some ob"
    and "children ob = Some (map (\<lambda>c. fb_key S (ObjectKey c)) cs)"
    and "\<forall>c \<in> set cs. \<exists>oc. lib_objects lib c = Some oc \<and> mo_id oc = c \<and> mo_parent_id oc = 0
           \<and> c \<noteq> 0 \<and> stored_string (mo_dc_title oc)"
proof -
  obtain ob ks where ob: "lib_objects lib 0 = Some ob" "children ob = Some ks"
    using assms by (auto simp: wf_library_def wf_root_def)
  have ex: "\<exists>c. k = fb_key S (ObjectKey c) \<and> (\<exists>oc. lib_objects lib c = Some oc \<and> mo_id oc = c \<and> mo_parent_id oc = 0
           \<and> c \<noteq> 0 \<and> stored_string (mo_dc_title oc))" if k: "k \<in> set ks" for k
  proof -
    obtain c oc where c: "k = fb_key S (ObjectKey c)" "lib_objects lib c = Some oc"
        "mo_parent_id oc = 0" "c \<noteq> 0"
      using wf_libraryD(4) [OF assms ob(1)] ob(2) k unfolding wf_children_def by blast
    with wf_libraryD(1,3) [OF assms c(2)] show ?thesis by (auto simp: wf_object_def)
  qed
  then have "\<forall>k \<in> set ks. \<exists>c. k = fb_key S (ObjectKey c)
      \<and> (\<exists>oc. lib_objects lib c = Some oc \<and> mo_id oc = c \<and> mo_parent_id oc = 0
           \<and> c \<noteq> 0 \<and> stored_string (mo_dc_title oc))" by blast
  from bchoice [OF this] obtain f where f: "\<forall>k \<in> set ks. k = fb_key S (ObjectKey (f k))
      \<and> (\<exists>oc. lib_objects lib (f k) = Some oc \<and> mo_id oc = f k \<and> mo_parent_id oc = 0
           \<and> f k \<noteq> 0 \<and> stored_string (mo_dc_title oc))" ..
  have "map (\<lambda>c. fb_key S (ObjectKey c)) (map f ks) = ks"
    using f by (auto intro: map_idI)
  with ob f that [of ob "map f ks"] show thesis by simp
qed

lemma set_movies_folder:
  "scan_inv sc \<Longrightarrow> good_parent sc i \<Longrightarrow>
     evolves sc (sc\<lparr>movies_folder := i\<rparr>) \<and> good_parent (sc\<lparr>movies_folder := i\<rparr>) i"
  by (simp add: evolves_def scan_inv_def good_parent_def)

lemma root_container_of: "scan_inv sc \<Longrightarrow> has_container (lib_of sc) 0"
  by (auto simp: scan_inv_def wf_library_def wf_root_def has_container_def)

lemma movies_folder_root:
  "fb_object_root S (fb_object S (movies_folder_object i)) = movies_folder_object i"
  by simp

lemma create_movies_folder_safe:
  assumes inv: "scan_inv sc"
  shows "safe sc (\<lambda>i sc'. good_parent sc' i)
    (bindP next_object_key (\<lambda>new_key.
       bindP (with_store (put_items S 0 [fb_object S (movies_folder_object new_key)] []))
         (\<lambda>_ s. (Inr new_key, s\<lparr>movies_folder := new_key\<rparr>))) sc)"
proof (rule safe_bindP, rule next_object_key_safe [OF inv])
  fix i sc1
  assume ev1: "evolves sc sc1" and sc1: "i = next_object_id sc \<and> sint (next_object_id sc1) = sint i + 1
      \<and> sc1 = sc\<lparr>next_object_id := next_object_id sc1\<rparr>"
  let ?buf = "fb_object S (movies_folder_object i)"
  have root: "mo_id (fb_object_root S ?buf) = i" "mo_parent_id (fb_object_root S ?buf) = 0"
    "children (fb_object_root S ?buf) = Some []" "artwork_list (fb_object_root S ?buf) = []"
    "stored_string (mo_dc_title (fb_object_root S ?buf))"
    "stored_string (mo_upnp_class (fb_object_root S ?buf))"
    by (simp_all add: movies_folder_object_def children_def artwork_list_def)
  have store: "sc_store sc1 = sc_store sc"
    using sc1 by (metis scanner.select_convs(1) scanner.surjective scanner.update_convs(4))
  have fit: "fitting_items sc1 0 [?buf] []"
    by (rule fitting_container [OF inv, of i]) (use sc1 store root in simp_all)
  have p: "writes_ok S \<longrightarrow> has_container (lib_of sc1) 0"
    using root_container_of [OF evolves_inv [OF ev1]] by simp
  have i: "0 < sint i" using scan_inv_root [OF inv] sc1 by simp
  note put = put_container_safe [OF evolves_inv [OF ev1] fit p root(1,3) i]
  show "safe sc1 (\<lambda>i sc'. good_parent sc' i)
    (bindP (with_store (put_items S 0 [?buf] [])) (\<lambda>_ s. (Inr i, s\<lparr>movies_folder := i\<rparr>)) sc1)"
    by (rule safe_bindP, rule put) (auto dest!: evolves_inv dest: set_movies_folder)
qed

lemma get_movies_folder_id_safe:
  assumes inv: "scan_inv sc"
  shows "safe sc (\<lambda>i sc'. good_parent sc' i) (get_movies_folder_id S sc)"
proof (cases "0 < sint (movies_folder sc)")
  case True
  with inv have "good_parent sc (movies_folder sc)" by (auto simp: good_parent_def scan_inv_def)
  with True inv show ?thesis by (simp add: get_movies_folder_id_def evolves_refl)
next
  case False
  have db: "sound_db (sc_store sc)" and wf: "wf_library S (lib_of sc)"
    and cont: "root_of_containers (lib_of sc)"
    using inv by (simp_all add: scan_inv_def)
  obtain ob cs where cs: "lib_objects (lib_of sc) 0 = Some ob"
      "children ob = Some (map (\<lambda>c. fb_key S (ObjectKey c)) cs)"
    "\<forall>c \<in> set cs. \<exists>oc. lib_objects (lib_of sc) c = Some oc \<and> mo_id oc = c \<and> mo_parent_id oc = 0
           \<and> c \<noteq> 0 \<and> stored_string (mo_dc_title oc)"
    using root_children [OF wf] .
  define found where "found = find (\<lambda>c. mo_dc_title (the (lib_objects (lib_of sc) c))
                  = put_string movies_folder_name) cs"
  have snap: "snapshot (create_iterator S (sc_store sc)) = entries (sc_store sc)"
    by (simp add: create_iterator_def)
  have "find_movies_folder S (map (\<lambda>c. fb_key S (ObjectKey c)) cs) (create_iterator S (sc_store sc)) = Inr found"
    unfolding found_def
    using find_movies_folder_library [of "create_iterator S (sc_store sc)" cs] db cs(3)
    by (fastforce simp: snap sound_db_def)
  then have search: "bindE (store_list S 0 (sc_store sc))
      (\<lambda>view. find_movies_folder S (objects view) (db_it view)) = Inr found"
    by (simp add: store_list_library [OF db cs(1,2)])
  show ?thesis
  proof (cases found)
    case None
    with search False create_movies_folder_safe [OF inv] show ?thesis
      by (simp add: get_movies_folder_id_def)
  next
    case (Some c)
    then have "c \<in> set cs" unfolding found_def by (auto simp: find_Some_iff)
    then obtain oc where oc: "lib_objects (lib_of sc) c = Some oc" "mo_parent_id oc = 0" "c \<noteq> 0"
      using cs(3) by blast
    have "sint c \<noteq> 0" using oc(3) sint_inject [of c 0] by simp
    with wf_libraryD(2) [OF wf oc(1)] have "0 < sint c" by simp
    moreover have "has_container (lib_of sc) c"
      using cont oc unfolding root_of_containers_def has_container_def by blast
    ultimately have "good_parent sc c" by (simp add: good_parent_def)
    with set_movies_folder [OF inv] search Some False show ?thesis
      by (simp add: get_movies_folder_id_def)
  qed
qed

section \<open>One directory\<close>

definition listing_ok :: "int64 \<Rightarrow> scan_listing \<Rightarrow> bool" where
  "listing_ok parent l \<longleftrightarrow>
     (case l of (directories, videos, oc) \<Rightarrow>
        (\<forall>d \<in> set directories. snd d = parent) \<and> map_sorted videos
        \<and> map_sorted (artwork_map oc) \<and> map_sorted (subtitles_map oc)
        \<and> parent_id oc = parent \<and> resources oc = [] \<and> folder_name oc = [])"

lemma scan_entry_ok: "listing_ok parent l \<Longrightarrow> listing_ok parent (scan_entry path parent e l)"
  by (cases e; cases l; cases "snd e")
    (auto simp: listing_ok_def Let_def map_sorted_emplace composer_artwork_def composer_subtitles_def
      split: option.splits)

lemma scan_listing_ok: "listing_ok parent (scan_listing path parent items)"
proof -
  have "listing_ok parent (fold (scan_entry path parent) items l)" if "listing_ok parent l" for l
    using that by (induction items arbitrary: l) (simp_all add: scan_entry_ok del: scan_entry.simps)
  then show ?thesis
    by (simp add: scan_listing_def listing_ok_def new_composer_def)
qed

text \<open>The composer to start with, and the parents handed on, after the collection is decided.\<close>

definition ready :: "'db scanner \<Rightarrow> (string \<times> int64) list \<Rightarrow> object_composer \<Rightarrow> bool" where
  "ready sc directories oc \<longleftrightarrow>
     (\<forall>d \<in> set directories. good_parent sc (snd d)) \<and> good_parent sc (parent_id oc)
     \<and> map_sorted (artwork_map oc) \<and> map_sorted (subtitles_map oc) \<and> resources oc = []"

lemma add_collection_safe:
  assumes inv: "scan_inv sc" and parent: "good_parent sc parent" and l: "listing_ok parent l"
  shows "safe sc (\<lambda>dc sc'. ready sc' (fst dc) (snd dc)) (add_collection S path config parent l sc)"
proof -
  obtain ds vs oc where l': "l = (ds, vs, oc)" by (cases l)
  have oc: "\<forall>d \<in> set ds. snd d = parent" "map_sorted (artwork_map oc)" "map_sorted (subtitles_map oc)"
    "parent_id oc = parent" "resources oc = []"
    using l by (simp_all add: l' listing_ok_def)
  show ?thesis
  proof (cases "use_collections config \<and> wants_collection l")
    case False
    have "\<forall>d \<in> set ds. good_parent sc (snd d)" using oc(1) parent by simp
    then have "ready sc ds oc" using oc parent by (simp add: ready_def)
    moreover have "add_collection S path config parent l sc = returnP (ds, oc) sc"
      using False by (auto simp: add_collection_def l')
    ultimately show ?thesis by (simp add: returnP_def evolves_refl [OF inv])
  next
    case True
    let ?art = "get_folder_artwork oc"
    have "safe sc (\<lambda>dc sc'. ready sc' (fst dc) (snd dc))
      (bindP (create_container S (path_stem path) (map_option snd (fst ?art), snd ?art) parent)
        (\<lambda>key. returnP (if fst ?art \<noteq> None then map (\<lambda>d. (fst d, key)) ds else ds,
                  oc\<lparr>parent_id := key\<rparr>)) sc)"
    proof (rule safe_bindP, rule create_container_safe [OF inv parent], rule safe_returnP)
      fix key sc1 assume "evolves sc sc1" "good_parent sc1 key"
      then show "scan_inv sc1" "ready sc1
         (fst (if fst ?art \<noteq> None then map (\<lambda>d. (fst d, key)) ds else ds, oc\<lparr>parent_id := key\<rparr>))
         (snd (if fst ?art \<noteq> None then map (\<lambda>d. (fst d, key)) ds else ds, oc\<lparr>parent_id := key\<rparr>))"
        using oc good_parent_evolves [of sc sc1 parent] parent
        by (auto simp: ready_def intro: evolves_inv)
    qed
    with True show ?thesis by (simp add: add_collection_def l' Let_def)
  qed
qed

lemma held_object_wf:
  assumes "held_object S oc ob"
  shows "wf_object S (res ++ map_of (rev (map (\<lambda>(k, b). (k, fb_resource_root S b)) (resources oc)))) ob"
proof -
  define stored where "stored = map_of (rev (map (\<lambda>(k, b). (k, fb_resource_root S b)) (resources oc)))"
  have dom: "fst ` set (resources oc) \<subseteq> dom stored"
    unfolding stored_def by (simp add: dom_map_of_conv_image_fst image_image split_def)
  have "resource_ref S (res ++ stored) k" if held: "held_key S oc k" for k
  proof -
    obtain r where r: "r \<in> fst ` set (resources oc)" "k = fb_key S (ResourceKey r)"
      using held unfolding held_key_def by (elim bexE)
    have "r \<in> dom (res ++ stored)"
      unfolding dom_map_add by (rule UnI1, rule subsetD [OF dom r(1)])
    with r(2) show ?thesis unfolding resource_ref_def by (rule bexI)
  qed
  then show ?thesis
    using assms unfolding stored_def [symmetric] by (simp add: held_object_def wf_object_def)
qed

lemma fitting_composed:
  assumes inv: "scan_inv sc" and c: "composed_all (oc, sc) bufs (oc', sc')"
    and oc: "resources oc = []" "0 < sint (parent_id oc)"
  shows "evolves sc sc'" "fitting_items sc' (parent_id oc) bufs (resources oc')"
    "sc_store sc' = sc_store sc"
proof -
  obtain new n m where adv: "oc' = oc\<lparr>resources := resources oc @ new\<rparr>"
    "sc' = sc\<lparr>next_resource_id := n, next_object_id := m\<rparr>"
    "sint (next_resource_id sc) \<le> sint n" "sint (next_object_id sc) \<le> sint m"
    "\<forall>(i, buf) \<in> set new. sint (next_resource_id sc) \<le> sint i \<and> sint i < sint n
        \<and> wf_resource (fb_resource_root S buf)"
    using c unfolding composed_all_def advances_def by auto
  have "sc' = sc\<lparr>next_object_id := m, next_resource_id := n\<rparr>" by (simp add: adv(2))
  with scan_inv_counters [OF inv adv(4,3)] show "evolves sc sc'" by simp
  show "sc_store sc' = sc_store sc" by (simp add: adv(2))
  have "0 \<le> sint (next_resource_id sc)" using inv by (simp add: scan_inv_def)
  then have res: "counted_resources sc' (resources oc')"
    using adv(5) oc(1) scan_inv_fresh [OF inv] by (fastforce simp: adv(1,2))
  have item: "mo_parent_id (fb_object_root S buf) = parent_id oc
      \<and> (\<forall>j \<in> dom (lib_objects (lib_of sc')). sint j < sint (mo_id (fb_object_root S buf)))
      \<and> sint (mo_id (fb_object_root S buf)) < sint (next_object_id sc')
      \<and> children (fb_object_root S buf) \<in> {None, Some []}
      \<and> (parent_id oc = 0 \<longrightarrow> children (fb_object_root S buf) \<noteq> None)
      \<and> wf_object S (lib_resources (lib_of sc')
           ++ map_of (rev (map (\<lambda>(k, b). (k, fb_resource_root S b)) (resources oc')))) (fb_object_root S buf)"
    if "buf \<in> set bufs" for buf
  proof -
    have b: "held_object S oc' (fb_object_root S buf)" "mo_parent_id (fb_object_root S buf) = parent_id oc"
      "sint (next_object_id sc) \<le> sint (mo_id (fb_object_root S buf))"
      "sint (mo_id (fb_object_root S buf)) < sint (next_object_id sc')"
      using c that by (auto simp: composed_all_def)
    have "sint j < sint (mo_id (fb_object_root S buf))" if "j \<in> dom (lib_objects (lib_of sc'))" for j
      using scan_inv_below [OF inv, of j] that b(3) by (simp add: adv(2))
    moreover have "children (fb_object_root S buf) = None" using b(1) by (simp add: held_object_def)
    moreover have "parent_id oc \<noteq> 0" using oc(2) by auto
    ultimately show ?thesis using b held_object_wf [OF b(1)] by blast
  qed
  show "fitting_items sc' (parent_id oc) bufs (resources oc')"
    using c res item unfolding fitting_items_def Let_def composed_all_def by blast
qed

text \<open>The items of a run of the composer, against the videos it was given.\<close>

definition holds_files :: "bytes list \<times> object_composer \<Rightarrow> (string \<times> file_info) list \<Rightarrow> bool" where
  "holds_files bc vs \<longleftrightarrow> distinct (map fst (resources (snd bc)))
     \<and> (\<forall>v \<in> set vs. \<exists>buf \<in> set (fst bc). main_file S (resources (snd bc)) (fb_object_root S buf) (snd v))"

lemma run_composer_safe:
  assumes inv: "scan_inv sc" and oc: "ready sc ds oc"
  shows "safe sc (\<lambda>bc sc'. fitting_items sc' (parent_id oc) (fst bc) (resources (snd bc))
      \<and> holds_files bc vs)
    (run_composer (compose_all S U vs) oc sc)"
proof -
  have pos: "0 < sint (parent_id oc)" and rs: "resources oc = []"
    using oc by (auto simp: ready_def good_parent_def)
  have tri: "triple (\<lambda>st. st = (oc, sc)) (compose_all S U vs)
    (\<lambda>bufs st. composed_all (oc, sc) bufs st \<and> length bufs = length vs) (stops (oc, sc))"
    by (rule compose_all_triple) (use oc in \<open>simp_all add: ready_def\<close>)
  obtain r oc' sc' where run: "compose_all S U vs (oc, sc) = (r, (oc', sc'))"
    by (metis prod.collapse)
  show ?thesis
  proof (cases r)
    case (Inl e)
    from triple_Inl [OF tri refl run [unfolded Inl]]
    have "e = Undefined" "composed_all (oc, sc) [] (oc', sc')" by (simp_all add: composed_all_def)
    with fitting_composed(1) [OF inv _ rs pos] run Inl show ?thesis
      by (simp add: run_composer_def)
  next
    case (Inr bufs)
    from triple_Inr [OF tri refl run [unfolded Inr]]
    have c: "composed_all (oc, sc) bufs (oc', sc')" by simp
    have "distinct (map fst (resources oc'))"
      using advances_distinct [of S "(oc, sc)" "(oc', sc')"] c rs by (simp add: composed_all_def)
    moreover have "\<forall>v \<in> set vs. \<exists>buf \<in> set bufs. main_file S (resources oc') (fb_object_root S buf) (snd v)"
      using compose_all_main_files [of "(oc, sc)" U vs bufs "(oc', sc')"] oc run Inr by (simp add: ready_def)
    ultimately have "holds_files (bufs, oc') vs" by (simp add: holds_files_def)
    with fitting_composed [OF inv c(1) rs pos] run Inr show ?thesis
      by (simp add: run_composer_def)
  qed
qed

text \<open>All the videos are listed.\<close>

definition lists_files :: "'db scanner \<Rightarrow> (string \<times> file_info) list \<Rightarrow> bool" where
  "lists_files sc vs \<longleftrightarrow> (writes_ok S \<longrightarrow> (\<forall>v \<in> set vs. listed_film S (lib_of sc) (fi_path (snd v))))"

lemma lists_files_evolves: "evolves a b \<Longrightarrow> lists_files a vs \<Longrightarrow> lists_files b vs"
  by (simp add: lists_files_def evolves_def)

lemma put_fitting_safe:
  assumes inv: "scan_inv sc" and fit: "fitting_items sc parent (fst bc) (resources (snd bc))"
    and parent: "good_parent sc parent" and files: "holds_files bc vs"
  shows "safe sc (\<lambda>_ sc'. lists_files sc' vs) (with_store (put_items S parent (fst bc) (resources (snd bc))) sc)"
proof (cases "with_store (put_items S parent (fst bc) (resources (snd bc))) sc")
  case (Pair r sc')
  have p: "writes_ok S \<longrightarrow> has_container (lib_of sc) parent" using parent by (simp add: good_parent_def)
  note put = put_fitting [OF inv fit p Pair]
  have "listed_film S (lib_of sc') (fi_path (snd v))" if ok: "writes_ok S" and v: "v \<in> set vs" for v
  proof -
    have new: "new_items S (lib_of sc) parent (map (fb_object_root S) (fst bc))
        (map (\<lambda>(k, b). (k, fb_resource_root S b)) (resources (snd bc)))"
      by (rule fitting_new_items [OF fit]) (use p ok in blast)
    obtain buf where "buf \<in> set (fst bc)" "main_file S (resources (snd bc)) (fb_object_root S buf) (snd v)"
      using files v by (auto simp: holds_files_def)
    moreover have "distinct (map fst (resources (snd bc)))" using files by (simp add: holds_files_def)
    ultimately show ?thesis
      using put_items_spec_lists_film [OF new _ flatbuffers_axioms] put ok by simp
  qed
  then have "lists_files sc' vs" by (simp add: lists_files_def)
  with put Pair show ?thesis by (cases r) auto
qed

lemma good_parents_evolve:
  "evolves a b \<Longrightarrow> \<forall>d \<in> set ds. good_parent a (snd d) \<Longrightarrow> \<forall>d \<in> set ds. good_parent b (snd d)"
  using good_parent_evolves by blast

text \<open>A scanned directory: the directories handed on have parents, and its videos are listed.\<close>

definition scanned :: "file_system \<Rightarrow> string \<Rightarrow> int64 \<Rightarrow> (string \<times> int64) list \<Rightarrow> 'db scanner \<Rightarrow> bool" where
  "scanned fs path parent ds sc \<longleftrightarrow>
     (\<forall>d \<in> set ds. good_parent sc (snd d))
     \<and> (\<forall>items. fs path = Some items \<longrightarrow> lists_files sc (fst (snd (scan_listing path parent items))))"

lemma scan_directory_safe:
  assumes inv: "scan_inv sc" and parent: "good_parent sc parent"
  shows "safe sc (scanned fs path parent) (scan_directory S U fs path config parent sc)"
proof (cases "fs path")
  case None
  with inv show ?thesis by (simp add: scan_directory_def raiseP_def evolves_refl)
next
  case (Some items)
  define l where "l = scan_listing path parent items"
  define videos where "videos = fst (snd l)"
  define named where "named oc = (if use_folder_names config \<and> length videos = 1
      then oc\<lparr>folder_name := path_stem path\<rparr> else oc)" for oc :: object_composer
  have named: "parent_id (named oc) = parent_id oc" "ready sc ds (named oc) \<longleftrightarrow> ready sc ds oc" for oc sc ds
    by (simp_all add: named_def ready_def)
  have scanned: "scanned fs path parent ds sc \<longleftrightarrow> (\<forall>d \<in> set ds. good_parent sc (snd d)) \<and> lists_files sc videos"
    for ds sc
    by (simp add: scanned_def Some videos_def l_def)
  have body: "safe sc1 (scanned fs path parent)
     ((if videos \<noteq> [] then
        bindP (run_composer (compose_all S U videos) (named (snd dc))) (\<lambda>bc.
        bindP (with_store (put_items S (parent_id (named (snd dc))) (fst bc) (resources (snd bc))))
          (\<lambda>_. returnP (fst dc)))
       else returnP (fst dc)) sc1)"
    if "evolves sc sc1" and dc: "ready sc1 (fst dc) (snd dc)" for dc sc1
  proof -
    have inv1: "scan_inv sc1" using that(1) by (rule evolves_inv)
    have dirs: "\<forall>d \<in> set (fst dc). good_parent sc1 (snd d)" and p: "good_parent sc1 (parent_id (snd dc))"
      using dc by (simp_all add: ready_def)
    have run: "safe sc1 (scanned fs path parent)
       (bindP (run_composer (compose_all S U videos) (named (snd dc))) (\<lambda>bc.
        bindP (with_store (put_items S (parent_id (named (snd dc))) (fst bc) (resources (snd bc))))
          (\<lambda>_. returnP (fst dc))) sc1)"
    proof (rule safe_bindP, rule run_composer_safe [OF inv1], rule named(2) [THEN iffD2, OF dc],
        rule safe_bindP, rule put_fitting_safe [where vs = videos], goal_cases)
      case (1 bc sc2)
      then show ?case by (blast intro: evolves_inv)
    next
      case (2 bc sc2)
      then show ?case by blast
    next
      case (3 bc sc2)
      then show ?case using good_parent_evolves [of sc1 sc2] p by (simp add: named(1))
    next
      case (4 bc sc2)
      then show ?case by blast
    next
      case (5 bc sc2 u sc3)
      then have "evolves sc1 sc3" by (blast intro: evolves_trans)
      with good_parents_evolve [OF _ dirs] evolves_inv 5(4) show ?case
        by (simp add: safe_returnP scanned)
    qed
    have "safe sc1 (scanned fs path parent) (returnP (fst dc) sc1)" if "videos = []"
      by (rule safe_returnP, rule inv1) (use dirs that in \<open>simp add: scanned lists_files_def\<close>)
    with run show ?thesis by simp
  qed
  have "safe sc (scanned fs path parent)
    (bindP (add_collection S path config parent l) (\<lambda>dc.
       if videos \<noteq> [] then
        bindP (run_composer (compose_all S U videos) (named (snd dc))) (\<lambda>bc.
        bindP (with_store (put_items S (parent_id (named (snd dc))) (fst bc) (resources (snd bc))))
          (\<lambda>_. returnP (fst dc)))
       else returnP (fst dc)) sc)"
    by (rule safe_bindP, rule add_collection_safe [OF inv parent], unfold l_def, rule scan_listing_ok)
      (rule body)
  then show ?thesis
    by (simp only: scan_directory_def Some option.case Let_def l_def [symmetric] videos_def named_def)
qed

section \<open>The whole scan\<close>

text \<open>The videos below a directory are all listed.\<close>

definition films_listed :: "file_system \<Rightarrow> string \<Rightarrow> 'db scanner \<Rightarrow> bool" where
  "films_listed fs root sc \<longleftrightarrow>
     (writes_ok S \<longrightarrow> plain_names fs
      \<longrightarrow> (\<forall>path. film_below fs root path \<longrightarrow> listed_film S (lib_of sc) path))"

lemma films_listed_evolves: "evolves a b \<Longrightarrow> films_listed fs root a \<Longrightarrow> films_listed fs root b"
  by (simp add: films_listed_def evolves_def)

lemma films_listed_directory:
  assumes dir: "scanned fs path parent ds sc1" and ev: "evolves sc1 sc"
    and new: "map fst ds = subdirectories path items" "fs path = Some items"
    and below: "\<forall>d \<in> set ds. films_listed fs (fst d) sc"
  shows "films_listed fs path sc"
  unfolding films_listed_def
proof (intro impI allI)
  fix film assume ok: "writes_ok S" and names: "plain_names fs" and film: "film_below fs path film"
  from film show "listed_film S (lib_of sc) film"
  proof (cases rule: film_below_step)
    case (1 items' n)
    then obtain v where "v \<in> set (fst (snd (scan_listing path parent items')))" "fi_path (snd v) = film"
      using scan_listing_finds [of items' n path parent] names unfolding plain_names_def by blast
    moreover have "lists_files sc (fst (snd (scan_listing path parent items')))"
      using dir lists_files_evolves [OF ev] 1(1) unfolding scanned_def by blast
    ultimately show ?thesis using ok unfolding lists_files_def by blast
  next
    case (2 items' n)
    have "set (map fst ds) = path_append path ` fst ` {e \<in> set items'. snd e = Directory}"
      using new 2(1) by (simp add: subdirectories_def image_image)
    moreover have "n \<in> fst ` {e \<in> set items'. snd e = Directory}" using 2(2) by force
    ultimately have "path_append path n \<in> set (map fst ds)" by blast
    then obtain d where "d \<in> set ds" "fst d = path_append path n" by auto
    with bspec [OF below this(1)] 2(3) ok names show ?thesis by (simp add: films_listed_def)
  qed
qed

lemma scan_loop_safe:
  assumes "scan_inv sc" and "\<forall>d \<in> set ds. good_parent sc (snd d)"
    and "scan_loop S U fs original fuel config ds sc = Some out"
  shows "safe sc (\<lambda>_ sc'. \<forall>d \<in> set ds. films_listed fs (fst d) sc') out"
  using assms
proof (induction fuel arbitrary: config ds sc)
  case 0
  then show ?case by (cases ds) (auto simp: evolves_refl)
next
  case (Suc fuel)
  show ?case
  proof (cases "ds = []")
    case True
    with Suc.prems show ?thesis by (auto simp: evolves_refl)
  next
    case False
    obtain path parent where d: "last ds = (path, parent)" by fastforce
    then have parent: "good_parent sc parent"
      using Suc.prems(2) last_in_set [OF False] by fastforce
    obtain r sc' where r: "scan_directory S U fs path config parent sc = (r, sc')" by fastforce
    note dir = scan_directory_safe [OF Suc.prems(1) parent, of fs path U config, unfolded r]
    show ?thesis
    proof (cases r)
      case (Inl e)
      with Suc.prems(3) d r False have "out = (Inl e, sc')" by (cases ds) auto
      with dir Inl show ?thesis by simp
    next
      case (Inr new)
      with dir have ev: "evolves sc sc'" and here: "scanned fs path parent new sc'" by simp_all
      have run: "scan_loop S U fs original fuel (config\<lparr>use_collections := use_collections original\<rparr>)
          (butlast ds @ new) sc' = Some out"
        using Suc.prems(3) d r Inr False by (cases ds) auto
      have "\<forall>d \<in> set (butlast ds @ new). good_parent sc' (snd d)"
        using here good_parents_evolve [OF ev Suc.prems(2)] by (auto simp: scanned_def dest: in_set_butlastD)
      from Suc.IH [OF evolves_inv [OF ev] this run]
      have rest: "safe sc' (\<lambda>_ t. \<forall>d \<in> set (butlast ds @ new). films_listed fs (fst d) t) out" .
      obtain items where items: "fs path = Some items" "map fst new = subdirectories path items"
        using scan_directory_subdirectories [OF r [unfolded Inr]] .
      have ds: "set ds = insert (path, parent) (set (butlast ds))"
        using append_butlast_last_id [OF False] d by (metis list.simps(15) rotate1.simps(2) set_rotate1)
      have "safe sc' (\<lambda>_ t. \<forall>d \<in> set ds. films_listed fs (fst d) t) out"
        by (rule safe_mono [OF rest])
          (use films_listed_directory [OF here _ items(2,1)] in \<open>auto simp: ds\<close>)
      with ev show ?thesis by (rule safe_trans)
    qed
  qed
qed

definition scan_start :: "'db scanner \<Rightarrow> bool" where
  "scan_start sc \<longleftrightarrow>
     sound_db (sc_store sc) \<and> wf_library S (lib_of sc) \<and> root_of_containers (lib_of sc)
     \<and> int64_max \<notin> dom (lib_objects (lib_of sc)) \<and> int64_max \<notin> dom (lib_resources (lib_of sc))
     \<and> (writes_ok S \<longrightarrow> 0 < sint (movies_folder sc) \<longrightarrow> has_container (lib_of sc) (movies_folder sc))"

lemma scan_inv_start:
  assumes inv: "scan_inv sc"
  shows "scan_start sc"
proof -
  have "int64_max \<notin> dom (lib_objects (lib_of sc))"
    using scan_inv_below [OF inv, of int64_max] sint_int64_le [of "next_object_id sc"] by fastforce
  moreover have "int64_max \<notin> dom (lib_resources (lib_of sc))"
  proof
    assume "int64_max \<in> dom (lib_resources (lib_of sc))"
    then have "sint int64_max < sint (next_resource_id sc)" using inv unfolding scan_inv_def by blast
    with sint_int64_le [of "next_resource_id sc"] show False by simp
  qed
  ultimately show ?thesis using inv by (simp add: scan_start_def scan_inv_def)
qed

lemma scan_all_counters:
  assumes start: "scan_start sc"
  obtains r n where "get_next_id S ResourceKey (sc_store sc) = Inr r"
    and "get_next_id S ObjectKey (sc_store sc) = Inr n"
    and "scan_inv (sc\<lparr>next_resource_id := r, next_object_id := n\<rparr>)"
proof -
  have db: "sound_db (sc_store sc)" and wf: "wf_library S (lib_of sc)"
    using start by (simp_all add: scan_start_def)
  have free: "int64_max \<notin> stored_ids S ObjectKey (entries (sc_store sc))"
    "int64_max \<notin> stored_ids S ResourceKey (entries (sc_store sc))"
    using start by (simp_all add: stored_ids_library scan_start_def)
  obtain r where r: "get_next_id S ResourceKey (sc_store sc) = Inr r"
    "0 \<le> sint r \<or> dom (lib_resources (lib_of sc)) \<noteq> {}"
    "\<forall>i \<in> dom (lib_resources (lib_of sc)). sint i < sint r"
    by (rule get_next_id_fresh [OF disjI2 [OF refl] db free(2), unfolded stored_ids_library]) (rule that)
  obtain n where n: "get_next_id S ObjectKey (sc_store sc) = Inr n"
    "\<forall>i \<in> dom (lib_objects (lib_of sc)). sint i < sint n"
    by (rule get_next_id_fresh [OF disjI1 [OF refl] db free(1), unfolded stored_ids_library]) (rule that)
  have "0 \<le> sint i" if "i \<in> dom (lib_resources (lib_of sc))" for i
    using wf that by (auto simp: wf_library_def)
  with r(3) have "0 \<le> sint r" if "i \<in> dom (lib_resources (lib_of sc))" for i
    using that by (meson less_imp_le order.trans)
  with r(2) have "0 \<le> sint r" by blast
  with r n start have "scan_inv (sc\<lparr>next_resource_id := r, next_object_id := n\<rparr>)"
    by (simp add: scan_inv_def scan_start_def)
  with r n that show thesis by blast
qed

lemma scan_all_safe:
  assumes start: "scan_start sc" and run: "scan_all S U fs fuel root original sc = Some (r, sc')"
  shows "scan_start sc'" "\<And>i. has_container (lib_of sc) i \<Longrightarrow> has_container (lib_of sc') i"
    "writes_ok S \<Longrightarrow> r = Inl e \<Longrightarrow> scan_exn e" "\<And>p. listed_film S (lib_of sc) p \<Longrightarrow> listed_film S (lib_of sc') p"
    "r = Inr u \<Longrightarrow> films_listed fs root sc'"
proof -
  obtain i n where ids: "get_next_id S ResourceKey (sc_store sc) = Inr i"
    "get_next_id S ObjectKey (sc_store sc) = Inr n"
    and inv: "scan_inv (sc\<lparr>next_resource_id := i, next_object_id := n\<rparr>)"
    using scan_all_counters [OF start] .
  let ?sc = "sc\<lparr>next_resource_id := i, next_object_id := n\<rparr>"
  obtain q sc2 where q: "get_movies_folder_id S ?sc = (q, sc2)" by fastforce
  note folder = get_movies_folder_id_safe [OF inv, unfolded q]
  have out: "safe ?sc (\<lambda>_ t. films_listed fs root t) (r, sc')"
  proof (cases q)
    case (Inl e)
    with run ids q have "r = Inl e" "sc' = sc2" by (simp_all add: scan_all_def)
    with folder Inl show ?thesis by simp
  next
    case (Inr f)
    with folder have ev: "evolves ?sc sc2" "good_parent sc2 f" by simp_all
    from run ids q Inr have loop: "scan_loop S U fs original fuel (original\<lparr>use_collections := False\<rparr>)
        [(root, f)] sc2 = Some (r, sc')"
      by (simp add: scan_all_def)
    have "safe sc2 (\<lambda>_ t. \<forall>d \<in> set [(root, f)]. films_listed fs (fst d) t) (r, sc')"
      by (rule scan_loop_safe [OF evolves_inv [OF ev(1)] _ loop]) (use ev in simp)
    then have "safe sc2 (\<lambda>_ t. films_listed fs root t) (r, sc')" by simp
    with ev(1) show ?thesis by (rule safe_trans)
  qed
  then show "r = Inr u \<Longrightarrow> films_listed fs root sc'" by simp
  from out have "evolves ?sc sc'" "writes_ok S \<Longrightarrow> r = Inl e \<Longrightarrow> scan_exn e" by (cases r; auto)+
  then show "scan_start sc'" "\<And>i. has_container (lib_of sc) i \<Longrightarrow> has_container (lib_of sc') i"
    "writes_ok S \<Longrightarrow> r = Inl e \<Longrightarrow> scan_exn e" "\<And>p. listed_film S (lib_of sc) p \<Longrightarrow> listed_film S (lib_of sc') p"
    by (auto simp: evolves_def intro: scan_inv_start)
qed

end

section \<open>Termination\<close>

text \<open>
  On a directory tree the loop ends. \<open>w\<close> weighs a directory at least one more than its
  subdirectories together; the fuel needed is the weight of the directories on the stack.
\<close>

definition tree_weight :: "file_system \<Rightarrow> (string \<Rightarrow> nat) \<Rightarrow> bool" where
  "tree_weight fs w \<longleftrightarrow>
     (\<forall>path. case fs path of
        None \<Rightarrow> 1 \<le> w path
      | Some items \<Rightarrow> sum_list (map w (subdirectories path items)) < w path)"

text \<open>Enough fuel gives a result.\<close>

lemma scan_loop_terminates:
  assumes "tree_weight fs w" and "sum_list (map (w \<circ> fst) ds) \<le> fuel"
  shows "scan_loop S U fs original fuel config ds sc \<noteq> None"
  using assms(2)
proof (induction fuel arbitrary: config ds sc)
  case 0
  have "1 \<le> w path" for path
    using assms(1) by (auto simp: tree_weight_def split: option.splits dest!: spec [of _ path])
  then have "w path \<noteq> 0" for path by (metis not_one_le_zero)
  with 0 show ?case by (cases ds) auto
next
  case (Suc fuel)
  show ?case
  proof (cases "ds = []")
    case True
    then show ?thesis by simp
  next
    case False
    obtain path parent where d: "last ds = (path, parent)" by fastforce
    obtain r sc' where r: "scan_directory S U fs path config parent sc = (r, sc')" by fastforce
    have step: "scan_loop S U fs original (Suc fuel) config ds sc =
      (case r of Inl e \<Rightarrow> Some (Inl e, sc')
       | Inr new \<Rightarrow> scan_loop S U fs original fuel
           (config\<lparr>use_collections := use_collections original\<rparr>) (butlast ds @ new) sc')"
      using d r False by (cases ds) auto
    show ?thesis
    proof (cases r)
      case (Inl e)
      then show ?thesis by (simp add: step)
    next
      case (Inr new)
      obtain items where items: "fs path = Some items" "map fst new = subdirectories path items"
        using scan_directory_subdirectories [OF r [unfolded Inr]] .
      have "sum_list (map (w \<circ> fst) new) < w path"
        using assms(1) items by (simp add: tree_weight_def split: option.splits flip: map_map)
      moreover have "sum_list (map (w \<circ> fst) ds) = sum_list (map (w \<circ> fst) (butlast ds)) + w path"
      proof -
        have "sum_list (map (w \<circ> fst) (butlast ds @ [last ds])) =
            sum_list (map (w \<circ> fst) (butlast ds)) + w path" by (simp add: d)
        then show ?thesis by (simp only: append_butlast_last_id [OF False])
      qed
      ultimately have "sum_list (map (w \<circ> fst) (butlast ds @ new)) \<le> fuel"
        using Suc.prems unfolding map_append sum_list_append by linarith
      from Suc.IH [OF this] show ?thesis by (simp add: step Inr)
    qed
  qed
qed

lemma scan_all_terminates:
  assumes "tree_weight fs w" and "w root \<le> fuel"
  shows "scan_all S U fs fuel root config sc \<noteq> None"
proof -
  have "scan_loop S U fs config fuel (config\<lparr>use_collections := False\<rparr>) [(root, f)] sc2 \<noteq> None" for f sc2
    using assms(2) by (intro scan_loop_terminates [OF assms(1)]) simp
  then show ?thesis
    by (auto simp: scan_all_def Let_def split: sum.splits prod.splits)
qed

end
