(* ===== verification/Startup.thy ===== *)
theory Startup
  imports ScanSafe Config
begin

text \<open>
  The start of the program, \<^verbatim>\<open>src/main.cpp\<close>: the database is opened, and if it was just created the
  configured directories are scanned, one after the other, by the same scanner. An exception ends
  the program; the database keeps what was written, and a later start does not scan again. The services and the event loop, which start after
  this, are in \<open>EventLoop\<close>.
\<close>

fun scan_libraries ::
  "('db, 'it, 'm) store_lib_scheme \<Rightarrow> 'u util_lib_scheme \<Rightarrow> file_system \<Rightarrow> nat
    \<Rightarrow> directory_config list \<Rightarrow> 'db scanner \<Rightarrow> (unit result \<times> 'db scanner) option" where
  "scan_libraries S U fs fuel [] sc = Some (Inr (), sc)"
| "scan_libraries S U fs fuel (dir # dirs) sc =
     (case scan_all S U fs fuel (dir_path dir) (dir_scanner dir) sc of
        None \<Rightarrow> None
      | Some (Inl e, sc') \<Rightarrow> Some (Inl e, sc')
      | Some (Inr _, sc') \<Rightarrow> scan_libraries S U fs fuel dirs sc')"

text \<open>The database the services run on, with the outcome of the scan if there was one.\<close>

definition prepare_store ::
  "('db, 'it, 'm) store_lib_scheme \<Rightarrow> 'u util_lib_scheme \<Rightarrow> file_system \<Rightarrow> nat \<Rightarrow> config
    \<Rightarrow> (unit result \<times> 'db) result option" where
  "prepare_store S U fs fuel config =
     (case open_db S (cf_db_path config) of
        Inl e \<Rightarrow> Some (Inl e)
      | Inr (db_existed, db) \<Rightarrow>
          if db_existed then Some (Inr (Inr (), db))
          else map_option (\<lambda>(r, sc). Inr (r, sc_store sc))
                 (scan_libraries S U fs fuel (cf_directories config) (new_scanner db)))"

context store_backend
begin

lemma scan_libraries_safe:
  assumes "scan_start sc" and "scan_libraries S U fs fuel dirs sc = Some (r, sc')"
  shows "scan_start sc' \<and> (writes_ok S \<longrightarrow> (\<forall>e. r = Inl e \<longrightarrow> scan_exn e))"
  using assms
proof (induction dirs arbitrary: sc)
  case Nil
  then show ?case by auto
next
  case (Cons dir dirs)
  obtain q sc1 where run: "scan_all S U fs fuel (dir_path dir) (dir_scanner dir) sc = Some (q, sc1)"
    using Cons.prems(2) by (auto split: option.splits)
  note safe = scan_all_safe [OF Cons.prems(1) run]
  show ?case
  proof (cases q)
    case (Inl e)
    with Cons.prems(2) run have "r = Inl e" "sc' = sc1" by auto
    with safe(1) safe(3) [OF _ Inl] show ?thesis by auto
  next
    case (Inr u)
    with Cons.prems(2) run have "scan_libraries S U fs fuel dirs sc1 = Some (r, sc')" by simp
    from Cons.IH [OF safe(1) this] show ?thesis .
  qed
qed

lemma fresh_scan_start: "open_db S path = Inr (False, db) \<Longrightarrow> scan_start (new_scanner db)"
proof -
  assume o: "open_db S path = Inr (False, db)"
  note f = open_db_fresh [OF o]
  show ?thesis
    using f wf_fresh [of S]
    by (auto simp: scan_start_def new_scanner_def root_of_containers_def root_object_def children_def
        int64_max_def split: if_splits)
qed

lemma scan_start_served:
  "scan_start sc \<Longrightarrow> served S (entries (sc_store sc)) \<and> root_of_containers (library_of S (entries (sc_store sc)))"
  by (simp add: scan_start_def served_def sound_db_def)

text \<open>A scan that ends without an exception has found the videos below every directory.\<close>

lemma scan_libraries_films:
  assumes "scan_start sc" and "scan_libraries S U fs fuel dirs sc = Some (r, sc')"
  shows "(\<forall>p. listed_film S (lib_of sc) p \<longrightarrow> listed_film S (lib_of sc') p)
    \<and> (r = Inr () \<longrightarrow> (\<forall>dir \<in> set dirs. films_listed fs (dir_path dir) sc'))"
  using assms
proof (induction dirs arbitrary: sc)
  case Nil
  then show ?case by auto
next
  case (Cons dir dirs)
  obtain q sc1 where run: "scan_all S U fs fuel (dir_path dir) (dir_scanner dir) sc = Some (q, sc1)"
    using Cons.prems(2) by (auto split: option.splits)
  note all = scan_all_safe [OF Cons.prems(1) run]
  show ?case
  proof (cases q)
    case (Inl e)
    with Cons.prems(2) run have "r = Inl e" "sc' = sc1" by auto
    with all(4) show ?thesis by auto
  next
    case (Inr u)
    with Cons.prems(2) run have "scan_libraries S U fs fuel dirs sc1 = Some (r, sc')" by simp
    from Cons.IH [OF all(1) this] all(4) all(5) [OF Inr] show ?thesis
      by (auto simp: films_listed_def)
  qed
qed

lemma prepare_store_films:
  assumes o: "open_db S (cf_db_path config) = Inr (False, db)"
    and p: "prepare_store S U fs fuel config = Some (Inr (Inr (), db'))"
    and ok: "writes_ok S" and names: "plain_names fs"
    and dir: "dir \<in> set (cf_directories config)" and film: "film_below fs (dir_path dir) path"
  shows "listed_film S (library_of S (entries db')) path"
proof -
  obtain sc where run: "scan_libraries S U fs fuel (cf_directories config) (new_scanner db) = Some (Inr (), sc)"
    "db' = sc_store sc"
    using p by (auto simp: prepare_store_def o)
  from scan_libraries_films [OF fresh_scan_start [OF o] run(1)] run(2) ok names dir film
  show ?thesis by (auto simp: films_listed_def)
qed

text \<open>A first start leaves a well-formed library, whatever the scan meets.\<close>

lemma prepare_store_fresh:
  assumes o: "open_db S (cf_db_path config) = Inr (False, db)"
    and p: "prepare_store S U fs fuel config = Some (Inr (r, db'))"
  shows "served S (entries db') \<and> (writes_ok S \<longrightarrow> (\<forall>e. r = Inl e \<longrightarrow> scan_exn e))"
proof -
  obtain sc where "scan_libraries S U fs fuel (cf_directories config) (new_scanner db) = Some (r, sc)"
    "db' = sc_store sc"
    using p by (auto simp: prepare_store_def o)
  with scan_libraries_safe [OF fresh_scan_start [OF o]] scan_start_served show ?thesis by blast
qed

end

lemma scan_libraries_terminates:
  assumes "tree_weight fs w" and "\<forall>dir \<in> set dirs. w (dir_path dir) \<le> fuel"
  shows "scan_libraries S U fs fuel dirs sc \<noteq> None"
  using assms(2)
proof (induction dirs arbitrary: sc)
  case Nil
  then show ?case by simp
next
  case (Cons dir dirs)
  then obtain r sc1 where "scan_all S U fs fuel (dir_path dir) (dir_scanner dir) sc = Some (r, sc1)"
    using scan_all_terminates [OF assms(1), of "dir_path dir" fuel S U "dir_scanner dir" sc] by auto
  with Cons show ?case by (cases r) auto
qed

section \<open>A later start\<close>

text \<open>
  The next process opens the database again, which now exists. It has the same library functions but
  for what opening a path gives.
\<close>

lemma open_db_existing: "ldb_open S False False path = OpenOk db \<Longrightarrow> open_db S path = Inr (True, db)"
  by (simp add: open_db_def)

lemma prepare_store_existing:
  "ldb_open S False False (cf_db_path config) = OpenOk db \<Longrightarrow>
     prepare_store S U fs fuel config = Some (Inr (Inr (), db))"
  by (simp add: prepare_store_def open_db_existing)

lemma reopened_library [simp]: "library_of (S\<lparr>ldb_open := f\<rparr>) es = library_of S es"
  by (simp add: library_of_def)

lemma reopened_served [simp]: "served (S\<lparr>ldb_open := f\<rparr>) es \<longleftrightarrow> served S es"
proof -
  have "Compare (S\<lparr>ldb_open := f\<rparr>) = Compare S" by (intro ext) (simp add: Compare_def)
  then show ?thesis
    by (simp add: served_def sound_entries_def canonical_def wf_library_def wf_object_def resource_ref_def
        wf_children_def wf_listed_def)
qed

end
