(* ===== verification/Logging.thy ===== *)
theory Logging
  imports Config
begin

text \<open>
  The logger that \<^verbatim>\<open>src/logging.cpp\<close> sets up: a console sink, a file sink when a path is
  configured, and the level that follows. What spdlog does with it is outside.
\<close>

datatype log_level = LevelInfo | LevelDebug

datatype log_sink = ConsoleSink log_level | FileSink string bool log_level

record logger =
  lo_sinks :: "log_sink list"
  lo_flush_on :: log_level
  lo_level :: log_level

definition intialize_logging :: "logging_config \<Rightarrow> logger" where
  "intialize_logging config =
     (let sinks = [ConsoleSink LevelInfo];
          (sinks', level) =
            (if lg_path config \<noteq> []
             then (sinks @ [FileSink (lg_path config) (lg_truncate config) LevelDebug], LevelDebug)
             else (sinks, LevelInfo))
      in \<lparr>lo_sinks = sinks', lo_flush_on = level, lo_level = level\<rparr>)"

fun sink_level :: "log_sink \<Rightarrow> log_level" where
  "sink_level (ConsoleSink l) = l"
| "sink_level (FileSink _ _ l) = l"

text \<open>Debug messages are let through exactly when a sink takes them.\<close>

lemma logging_level:
  "lo_level (intialize_logging config) = LevelDebug \<longleftrightarrow>
     LevelDebug \<in> sink_level ` set (lo_sinks (intialize_logging config))"
  by (simp add: intialize_logging_def Let_def)

end
