(* ===== verification/Fixtures.thy ===== *)
theory Fixtures
  imports ReferenceNet Links Startup Logging
begin

text \<open>
  Concrete values for the witnesses: a database that holds one film below the root, requests for it,
  and the facts about them that every witness needs.
\<close>

section \<open>A library with one film\<close>

definition ref_film :: MediaObject where
  "ref_film =
     \<lparr>mo_id = 1, mo_parent_id = 0, mo_dc_title = put_string ''Alien'',
      mo_upnp_class = put_string upnp_movie_class, mo_artwork = None, mo_dc_date = 0,
      mo_data = MediaItem (Some
        [\<lparr>rr_ref = enc_key (ResourceKey 0),
          rr_protocol_info = put_string ''http-get:*:video/x-matroska:*''\<rparr>])\<rparr>"

definition ref_resource :: Resource where
  "ref_resource =
     \<lparr>res_location = Some (put_string ''/films/Alien.mkv''),
      res_mime_type = Some (put_string ''video/x-matroska'')\<rparr>"

definition ref_db1 :: ref_db where
  "ref_db1 = snd (put_items ref_lib 0 [enc_object ref_film] [(0, enc_resource ref_resource)] ref_db0)"

lemma ref_lib_key [simp]: "fb_key ref_lib = enc_key"
  by (simp add: ref_lib_def)

lemma ref_lib_object_root [simp]: "fb_object_root ref_lib (enc_object ob) = ob"
  by (simp add: ref_lib_def dec_enc_object)

lemma ref_lib_resource_root [simp]: "fb_resource_root ref_lib (enc_resource r) = r"
  by (simp add: ref_lib_def dec_enc_resource)

lemma ref_film_new:
  "new_items ref_lib (library_of ref_lib ref_db0) 0 (map (fb_object_root ref_lib) [enc_object ref_film])
     (map (\<lambda>(k, b). (k, fb_resource_root ref_lib b)) [(0, enc_resource ref_resource)])"
  by (simp add: new_items_def ref_fresh ref_film_def children_def root_object_def wf_object_def
      artwork_list_def resource_list_def wf_resource_def ref_resource_def resource_ref_def)

lemma ref_db1_library:
  "served ref_lib ref_db1"
  "library_of ref_lib ref_db1 =
     put_items_spec ref_lib 0 [ref_film] [(0, ref_resource)] (library_of ref_lib ref_db0)"
proof -
  have db: "ref.sound_db ref_db0" "wf_library ref_lib (library_of ref_lib ref_db0)"
    using ref_served by (simp_all add: served_def ref.sound_db_def)
  obtain db' where
    "put_items ref_lib 0 [enc_object ref_film] [(0, enc_resource ref_resource)] ref_db0 = (Inr (), db')"
    "ref.sound_db db'" "wf_library ref_lib (library_of ref_lib db')"
    "library_of ref_lib db' =
        put_items_spec ref_lib 0 [ref_film] [(0, ref_resource)] (library_of ref_lib ref_db0)"
    using ref.put_items_wf [OF db ref_film_new] by (auto simp: ref_writes)
  then show "served ref_lib ref_db1" "library_of ref_lib ref_db1 =
     put_items_spec ref_lib 0 [ref_film] [(0, ref_resource)] (library_of ref_lib ref_db0)"
    by (simp_all add: ref_db1_def served_def ref.sound_db_def)
qed

lemma ref_db1_objects:
  "lib_objects (library_of ref_lib ref_db1) 0 = Some (add_children [enc_key (ObjectKey 1)] root_object)"
  "lib_objects (library_of ref_lib ref_db1) 1 = Some ref_film"
  "lib_resources (library_of ref_lib ref_db1) 0 = Some ref_resource"
  by (simp_all add: ref_db1_library put_items_spec_def ref_fresh ref_film_def)

lemma ref_root_children:
  "children (add_children [enc_key (ObjectKey 1)] root_object) = Some [enc_key (ObjectKey 1)]"
  by (simp only: add_children_simps) (simp add: root_object_def children_def)

lemma ref_film_file: "resource_file ref_web (library_of ref_lib ref_db1) 0 0"
  by (simp add: resource_file_def ref_db1_objects ref_resource_def ref_web_def
      exI [of _ "''/films/Alien.mkv''"])

section \<open>Requests\<close>

definition ref_get :: "fields \<Rightarrow> http_request" where
  "ref_get hs =
     \<lparr>rq_method = Get, rq_target = ''/content/0'', rq_version = 11, rq_keep_alive = True,
      rq_fields = hs, rq_body = []\<rparr>"

definition ref_get_root :: http_request where
  "ref_get_root = (ref_get [])\<lparr>rq_target := ''/''\<rparr>"

lemma ref_get_root_route [simp]: "route_of (rq_target ref_get_root) = Welcome"
  by code_simp

lemma ref_stream_simps:
  "s_write ref_web bs s = (None, (fst s @ bs, snd s))"
  "read_request ref_web s = (case snd s of [] \<Rightarrow> (Inl ''end of stream'', s) | req # reqs \<Rightarrow> (Inr req, (fst s, reqs)))"
  "header_bytes ref_web resp \<noteq> []" "message_bytes ref_web resp \<noteq> []"
  by (simp_all add: read_request_def ref_web_def ref_header_def)

definition ref_browse :: "int \<Rightarrow> soap_action_info" where
  "ref_browse i =
     \<lparr>sa_service_id = ''urn:schemas-upnp-org:service:ContentDirectory:1'', sa_action = ''Browse'',
      sa_params = Some (ref_action (show_int i) ''BrowseDirectChildren'')\<rparr>"

lemma ref_browse_arguments: "browse_arguments (ref_browse i) ''BrowseDirectChildren'' i 0 0"
proof -
  have "c_str (show_int i) = show_int i" using show_int_plain by simp
  moreover have "show_nat 0 = ''0''" by code_simp
  ultimately show ?thesis
    by (simp add: browse_arguments_def ref_browse_def child_value_def node_child_def ref_action_def
        text_element_def node_text_def)
qed

text \<open>A page of the root's children.\<close>

definition ref_page :: "nat \<Rightarrow> nat \<Rightarrow> soap_action_info" where
  "ref_page start cnt =
     \<lparr>sa_service_id = ''urn:schemas-upnp-org:service:ContentDirectory:1'', sa_action = ''Browse'',
      sa_params = Some (Element ''u:Browse'' []
        [text_element ''ObjectID'' ''0'', text_element ''BrowseFlag'' ''BrowseDirectChildren'',
         text_element ''StartingIndex'' (show_nat start), text_element ''RequestedCount'' (show_nat cnt)])\<rparr>"

lemma ref_page_arguments: "browse_arguments (ref_page start cnt) ''BrowseDirectChildren'' 0 start cnt"
proof -
  have "c_str (show_nat n) = show_nat n" for n using show_int_plain [of "int n"] by (simp add: show_int_def)
  moreover have "show_int 0 = ''0''" by code_simp
  ultimately show ?thesis by (simp add: browse_arguments_def ref_page_def child_value_def node_child_def)
qed

definition ref_server :: server_config where
  "ref_server = default_server_config\<lparr>sv_host_name := ''nas'', sv_name := ''films'', sv_base_url := ''http://nas:80''\<rparr>"

definition ref_config_lib :: config_lib where
  "ref_config_lib =
     \<lparr>uuid_parse = (\<lambda>s. Some s), uuid_name_dns = (\<lambda>n. ''uuid''), net_host_name = ''nas''\<rparr>"

lemma ref_util_web: "util ref_web"
  by (rule ref_web.util_axioms)

lemma ref_sound1: "sound_entries ref_lib ref_db1"
  using ref_db1_library(1) by (simp add: served_def)

definition ref_browse_request :: "int \<Rightarrow> http_request" where
  "ref_browse_request i =
     \<lparr>rq_method = Post, rq_target = ''/upnp/cds'', rq_version = 11, rq_keep_alive = True,
      rq_fields = [(''Content-Type'', ''text/xml''),
        (''SOAPACTION'', quote @ ''urn:schemas-upnp-org:service:ContentDirectory:1'' @ ''#'' @ ''Browse'' @ quote)],
      rq_body = ''BrowseDirectChildren:'' @ show_int i\<rparr>"

lemma ref_browse_route: "route_of (rq_target (ref_browse_request i)) = UpnpRoute ''cds''"
  using route_of_service [of "''upnp''" "''cds''"] by (simp add: ref_browse_request_def)

lemma ref_browse_parsed: "parse_soap_request ref_web (ref_browse_request i) = Inr (ref_browse i)"
proof -
  have action: "parse soapaction_parser (quote @ ''urn:schemas-upnp-org:service:ContentDirectory:1'' @ ''#'' @ ''Browse'' @ quote) =
      Some ((), ''urn:schemas-upnp-org:service:ContentDirectory:1'', (), ''Browse'', ())"
    by (rule soapaction_roundtrip) simp_all
  have names: "\<not> iequals ''Content-Type'' ''soapaction''" "iequals ''SOAPACTION'' ''soapaction''" by code_simp+
  have body: "xml_load ref_web (''BrowseDirectChildren:'' @ show_int i) =
      Inr [Element ''s:Envelope'' [] [Element ''s:Body'' [] [ref_action (show_int i) ''BrowseDirectChildren'']]]"
    by (simp add: ref_web_def ref_load_def)
  have plain: "local_name (Some (ref_action x y)) = ''Browse''" for x y
    unfolding ref_action_def using local_name_prefixed [of "''u''" "''Browse''"] by simp
  show ?thesis
    unfolding parse_soap_request_def ref_browse_request_def
    by (simp add: names action [simplified] body [simplified] plain ref_browse_def document_element_def
        first_child_def)
qed

lemma ref_search_answered: "\<exists>resp. handle_request ref_udp c ref_search = Some resp"
proof -
  have "\<not> iequals ''MAN'' ''st''" "iequals ''ST'' ''st''" by code_simp+
  then show ?thesis by (simp add: handle_request_def ref_search_def Let_def)
qed

end
