(* ===== verification/AsResult.thy ===== *)
theory AsResult
  imports Prelude
begin

text \<open>
  The adapter of completion tokens, \<^verbatim>\<open>src/as_result.h\<close>. An asynchronous operation completes by
  calling a handler with an error code and perhaps a value; the adapter's handler makes one result
  of them and passes it on, and the operation's signature is changed accordingly. Template
  arguments are values of \<open>ctype\<close>, the arguments of a call are values of \<open>cvalue\<close>, and a call that
  no overload accepts (a program that does not compile) is \<open>None\<close>. An operation is given by its
  initiation, a function of the handler it will call and of its own arguments.
\<close>

section \<open>Types and values\<close>

datatype ctype =
    ErrorCodeType
  | ErrorCodeRefType
  | ResultType "ctype option"
  | OtherType string

text \<open>An error code that is set carries its text; \<open>ResultOf\<close> without value is \<^verbatim>\<open>result<void>\<close>.\<close>

datatype 'v cvalue =
    ErrorCode "string option"
  | ResultOf "string + 'v cvalue option"
  | OtherValue 'v

type_synonym signature = "ctype list"
type_synonym ('v, 'r) handler = "'v cvalue list \<Rightarrow> 'r option"
type_synonym ('v, 'r, 'a) initiation = "('v, 'r) handler \<Rightarrow> 'a list \<Rightarrow> 'r option"

section \<open>The token\<close>

record 't as_result_t =
  inner_token :: 't

definition as_result :: "'t \<Rightarrow> 't as_result_t" where
  "as_result completion_token = \<lparr>inner_token = completion_token\<rparr>"

text \<open>
  An executor with the adapter as its default token: the inner executor, and the token that operations
  take when they are given none. It is made from the inner executor, or from another one that
  converts to it. An I/O object is rebound by its own \<^verbatim>\<open>rebind_executor\<close>, which makes the new
  object's executor from the old one's; \<open>CompletionToken{}\<close> is an argument.
\<close>

definition default_as_result :: "'t \<Rightarrow> 't as_result_t" where
  "default_as_result default_token = \<lparr>inner_token = default_token\<rparr>"

record ('ex, 't) executor_with_default =
  inner_executor :: 'ex
  default_completion_token :: "'t as_result_t"

definition executor_of_inner :: "'t \<Rightarrow> 'ex \<Rightarrow> ('ex, 't) executor_with_default" where
  "executor_of_inner default_token ex =
     \<lparr>inner_executor = ex, default_completion_token = default_as_result default_token\<rparr>"

definition executor_of_other :: "('o \<Rightarrow> 'ex) \<Rightarrow> 't \<Rightarrow> 'o \<Rightarrow> ('ex, 't) executor_with_default" where
  "executor_of_other convert default_token ex = executor_of_inner default_token (convert ex)"

definition as_default_on ::
  "(('ex \<Rightarrow> ('ex, 't) executor_with_default) \<Rightarrow> 'ob \<Rightarrow> 'ob2) \<Rightarrow> 't \<Rightarrow> 'ob \<Rightarrow> 'ob2" where
  "as_default_on rebind_executor default_token ob = rebind_executor (executor_of_inner default_token) ob"

text \<open>The rebound object runs on the executor of the object, and its operations default to the adapter.\<close>

lemma as_default_on_executor:
  assumes "\<And>f. get_executor (rebind_executor f ob) = f (get_old_executor ob)"
  shows "inner_executor (get_executor (as_default_on rebind_executor default_token ob)) = get_old_executor ob"
    and "default_completion_token (get_executor (as_default_on rebind_executor default_token ob)) = as_result default_token"
  by (simp_all add: assms as_default_on_def executor_of_inner_def default_as_result_def as_result_def)

section \<open>The handler\<close>

record 'h as_result_handler =
  inner_handler :: 'h

definition handler_of_token :: "'t as_result_t \<Rightarrow> 't as_result_handler" where
  "handler_of_token e = \<lparr>inner_handler = inner_token e\<rparr>"

definition handler_of :: "'h \<Rightarrow> 'h as_result_handler" where
  "handler_of h = \<lparr>inner_handler = h\<rparr>"

text \<open>The result made of an error code and a value, in both overloads of the call operator.\<close>

definition result_of :: "string option \<Rightarrow> 'a \<Rightarrow> string + 'a" where
  "result_of ec arg = (case ec of Some e \<Rightarrow> Inl e | None \<Rightarrow> Inr arg)"

fun handler_call :: "('v, 'r) handler as_result_handler \<Rightarrow> ('v, 'r) handler" where
  "handler_call h [ErrorCode ec] = inner_handler h [ResultOf (result_of ec None)]"
| "handler_call h [ErrorCode ec, arg] = inner_handler h [ResultOf (result_of ec (Some arg))]"
| "handler_call h _ = None"

definition handler_is_continuation :: "('h \<Rightarrow> bool) \<Rightarrow> 'h as_result_handler \<Rightarrow> bool" where
  "handler_is_continuation is_continuation this_handler = is_continuation (inner_handler this_handler)"

definition handler_executor :: "('h \<Rightarrow> 'ex \<Rightarrow> 'ex) \<Rightarrow> 'h as_result_handler \<Rightarrow> 'ex \<Rightarrow> 'ex" where
  "handler_executor get h ex = get (inner_handler h) ex"

definition handler_allocator :: "('h \<Rightarrow> 'al \<Rightarrow> 'al) \<Rightarrow> 'h as_result_handler \<Rightarrow> 'al \<Rightarrow> 'al" where
  "handler_allocator get h a = get (inner_handler h) a"

section \<open>The signature\<close>

fun as_result_signature :: "signature \<Rightarrow> signature" where
  "as_result_signature [ErrorCodeType] = [ResultType None]"
| "as_result_signature [ErrorCodeRefType] = [ResultType None]"
| "as_result_signature [ErrorCodeType, t] = [ResultType (Some t)]"
| "as_result_signature [ErrorCodeRefType, t] = [ResultType (Some t)]"
| "as_result_signature sig = sig"

section \<open>Starting an operation\<close>

text \<open>
  \<open>async_initiate\<close> is Asio's: it makes a handler of the given signature from a token and starts the
  initiation with it.
\<close>

definition init_wrapper :: "('v, 'r, 'a) initiation \<Rightarrow> ('v, 'r, 'a) initiation" where
  "init_wrapper initiation handler args = initiation (handler_call (handler_of handler)) args"

definition initiate ::
  "('t \<Rightarrow> signature \<Rightarrow> ('v, 'r, 'a) initiation \<Rightarrow> 'a list \<Rightarrow> 'q) \<Rightarrow> signature \<Rightarrow> ('v, 'r, 'a) initiation
    \<Rightarrow> 't as_result_t \<Rightarrow> 'a list \<Rightarrow> 'q" where
  "initiate async_initiate sig initiation token args =
     async_initiate (inner_token token) (as_result_signature sig) (init_wrapper initiation) args"

section \<open>Calls have the type of the signature\<close>

text \<open>\<open>ty\<close> gives the type of a value that is no error code and no result.\<close>

fun has_type :: "('v \<Rightarrow> string) \<Rightarrow> 'v cvalue \<Rightarrow> ctype \<Rightarrow> bool" where
  "has_type ty (ErrorCode ec) t = (t = ErrorCodeType \<or> t = ErrorCodeRefType)"
| "has_type ty (ResultOf (Inl e)) t = (\<exists>u. t = ResultType u)"
| "has_type ty (ResultOf (Inr None)) t = (t = ResultType None)"
| "has_type ty (ResultOf (Inr (Some v))) t = (\<exists>u. t = ResultType (Some u) \<and> has_type ty v u)"
| "has_type ty (OtherValue x) t = (t = OtherType (ty x))"

definition fits :: "('v \<Rightarrow> string) \<Rightarrow> 'v cvalue list \<Rightarrow> signature \<Rightarrow> bool" where
  "fits ty vs sig = list_all2 (has_type ty) vs sig"

definition adaptable :: "signature \<Rightarrow> bool" where
  "adaptable sig \<longleftrightarrow> (\<exists>ec rest. sig = ec # rest \<and> (ec = ErrorCodeType \<or> ec = ErrorCodeRefType) \<and> length rest \<le> 1)"

lemma adaptable_cases:
  assumes "adaptable sig"
  obtains ec where "sig = [ec]" "ec = ErrorCodeType \<or> ec = ErrorCodeRefType"
  | ec t where "sig = [ec, t]" "ec = ErrorCodeType \<or> ec = ErrorCodeRefType"
proof -
  from assms obtain ec rest where sig: "sig = ec # rest" "ec = ErrorCodeType \<or> ec = ErrorCodeRefType"
    "length rest \<le> 1" by (auto simp: adaptable_def)
  then show thesis using that by (cases rest) auto
qed

lemma has_type_error_code:
  "t = ErrorCodeType \<or> t = ErrorCodeRefType \<Longrightarrow> has_type ty v t \<longleftrightarrow> (\<exists>ec. v = ErrorCode ec)"
  by (induction ty v t rule: has_type.induct) auto

lemma result_of_type:
  "has_type ty (ResultOf (result_of ec None)) (ResultType None)"
  "has_type ty v t \<Longrightarrow> has_type ty (ResultOf (result_of ec (Some v))) (ResultType (Some t))"
  by (cases ec; simp add: result_of_def)+

text \<open>
  A completion of the operation's signature reaches the token's handler as one call of the adapted
  signature, with the error code or the value.
\<close>

lemma handler_call_fits:
  assumes "adaptable sig" and "fits ty vs sig"
  shows "\<exists>ec v. vs = ErrorCode ec # (case v of None \<Rightarrow> [] | Some x \<Rightarrow> [x])
    \<and> fits ty [ResultOf (result_of ec v)] (as_result_signature sig)
    \<and> (\<forall>h. handler_call (handler_of h) vs = h [ResultOf (result_of ec v)])"
  using assms(1)
proof (cases rule: adaptable_cases)
  case (1 t)
  with assms(2) obtain ec where vs: "vs = [ErrorCode ec]"
    using has_type_error_code [of t ty] by (auto simp: fits_def list_all2_Cons2)
  moreover have "as_result_signature sig = [ResultType None]" using 1 by auto
  ultimately show ?thesis
    by (intro exI [of _ ec] exI [of _ None]) (simp add: fits_def handler_of_def result_of_type)
next
  case (2 t u)
  with assms(2) obtain ec v where vs: "vs = [ErrorCode ec, v]" "has_type ty v u"
    using has_type_error_code [of t ty] by (auto simp: fits_def list_all2_Cons2)
  moreover have "as_result_signature sig = [ResultType (Some u)]" using 2 by auto
  ultimately show ?thesis
    by (intro exI [of _ ec] exI [of _ "Some v"]) (simp add: fits_def handler_of_def result_of_type)
qed

lemma handler_call_rejects:
  assumes "\<not> adaptable sig" and "fits ty vs sig"
  shows "as_result_signature sig = sig" and "handler_call (handler_of h) vs = None"
proof -
  show "as_result_signature sig = sig"
    using assms(1) by (cases sig rule: as_result_signature.cases) (auto simp: adaptable_def)
  have "\<not> (\<exists>ec rest. vs = ErrorCode ec # rest \<and> length rest \<le> 1)"
    using assms list_all2_lengthD [of "has_type ty"] by (fastforce simp: fits_def adaptable_def list_all2_Cons1)
  then show "handler_call (handler_of h) vs = None"
    by (cases "(handler_of h, vs)" rule: handler_call.cases) auto
qed

end
