(* ===== verification/Coroutine.thy ===== *)
theory Coroutine
  imports Answers AsResult
begin

text \<open>
  The coroutine of a connection, \<^verbatim>\<open>server::handle_connections\<close> of \<^verbatim>\<open>src/server.cpp\<close> with the
  \<^verbatim>\<open>co_await\<close>s of the services it calls, as a small-step machine. A \<open>point\<close> is a place where the
  coroutine is suspended, with what it will go on with; \<open>resume\<close> completes the operation it waits
  for and runs it to the next point. What was one call of \<open>handle_connections\<close> in \<open>Server\<close> is a sequence
  of such steps, between which other coroutines run.
\<close>

section \<open>Points of suspension\<close>

text \<open>
  \<open>AwaitHeader hs head f len\<close> carries whether the request was a HEAD request. The state \<open>AwaitBody\<close> is
  the head of the loop over blocks. An ended coroutine keeps the exception that left its loop.
\<close>

datatype 'f point =
    AwaitRequest
  | AwaitWrite bytes
  | AwaitHeader bytes bool 'f "64 word"
  | AwaitBody 'f "64 word"
  | Ended "exn option"

fun ended :: "'f point \<Rightarrow> bool" where
  "ended (Ended _) = True"
| "ended _ = False"

section \<open>Steps\<close>

definition after_exception :: "('f, 's, 'm) web_lib_scheme \<Rightarrow> http_request \<Rightarrow> exn \<Rightarrow> 'f point" where
  "after_exception L req e =
     (case e of
        HttpError status what \<Rightarrow>
          AwaitWrite (message_bytes L (make_error_response (beast_version L) status what req))
      | UpnpError code what \<Rightarrow> AwaitWrite (message_bytes L (make_upnp_error_response L code what req))
      | _ \<Rightarrow> Ended (Some e))"

text \<open>What runs from the end of reading a request to the next \<^verbatim>\<open>co_await\<close>, with the services' part of it.\<close>

definition upnp_point ::
  "('f, 's, 'm) web_lib_scheme \<Rightarrow> ('db, 'it, 'n) store_lib_scheme \<Rightarrow> server_config \<Rightarrow> 'db
    \<Rightarrow> http_request \<Rightarrow> string \<Rightarrow> 'f point result" where
  "upnp_point L S config db req sub_path =
     (let page = (\<lambda>body. Inr (AwaitWrite (message_bytes L (create_buffer_response L req body ''text/xml'' 200))))
      in if sub_path = ''device'' then page (root_device_description L config)
         else if sub_path = ''cds.xml'' then page (make_string_buffer (cds_document L))
         else if sub_path = ''cm.xml'' then page (make_string_buffer (cm_document L))
         else bindE (parse_soap_request L req) (\<lambda>soap_info.
           if sub_path = ''cds''
           then if sa_action soap_info \<noteq> ''Browse'' then Inl (HttpError 400 ''Invalid action'')
                else bindE (cds_browse L S config db soap_info) page
           else Inl (HttpError 404 ''Not found'')))"

definition content_point ::
  "('f, 's, 'm) web_lib_scheme \<Rightarrow> ('db, 'it, 'n) store_lib_scheme \<Rightarrow> 'db \<Rightarrow> http_request \<Rightarrow> string
    \<Rightarrow> 'f point result" where
  "content_point L S db req sub_path =
     bindE (create_response L S sub_path req db) (\<lambda>(response, f, len).
       Inr (AwaitHeader (header_bytes L response) (rq_method req = Head) f len))"

definition dispatch ::
  "('f, 's, 'm) web_lib_scheme \<Rightarrow> ('db, 'it, 'n) store_lib_scheme \<Rightarrow> server_config \<Rightarrow> 'db
    \<Rightarrow> http_request \<Rightarrow> 'f point" where
  "dispatch L S config db req =
     (let guarded = (\<lambda>r. case r of Inr pt \<Rightarrow> pt | Inl e \<Rightarrow> after_exception L req e)
      in case route_of (rq_target req) of
           Welcome \<Rightarrow> AwaitWrite (message_bytes L (make_error_response (beast_version L) 200 welcome_page req))
         | UpnpRoute sub_path \<Rightarrow> guarded (upnp_point L S config db req sub_path)
         | ContentRoute sub_path \<Rightarrow> guarded (content_point L S db req sub_path)
         | UnknownRoute _ \<Rightarrow>
             AwaitWrite (message_bytes L (make_error_response (beast_version L) 404 ''Not found'' req)))"

text \<open>
  Awaited without an adapter, an operation throws its error code; adapted by \<open>as_result\<close> it gives the
  error code or the number of bytes it wrote, which is all of them when it succeeds.
\<close>

fun resume ::
  "('f, 's, 'm) web_lib_scheme \<Rightarrow> ('db, 'it, 'n) store_lib_scheme \<Rightarrow> server_config \<Rightarrow> 'db
    \<Rightarrow> 'f point \<times> 's \<Rightarrow> 'f point \<times> 's" where
  "resume L S config db (AwaitRequest, s) =
     (case read_request L s of
        (Inl ec, s') \<Rightarrow> (Ended None, s')
      | (Inr req, s') \<Rightarrow> (dispatch L S config db req, s'))"
| "resume L S config db (AwaitWrite message, s) =
     (case s_write L message s of
        (Some ec, s') \<Rightarrow> (Ended (Some (SystemError ec)), s')
      | (None, s') \<Rightarrow> (AwaitRequest, s'))"
| "resume L S config db (AwaitHeader hs head f len, s) =
     (case s_write L hs s of
        (Some ec, s') \<Rightarrow> (Ended (Some (SystemError ec)), s')
      | (None, s') \<Rightarrow> (if head then AwaitRequest else AwaitBody f len, s'))"
| "resume L S config db (AwaitBody f len, s) =
     (let produce = unat (min len 4096)
      in if produce = 0 then (AwaitRequest, s)
         else case f_read L produce f of
                (Inl ec, f') \<Rightarrow> (Ended None, s_close L s)
              | (Inr block, f') \<Rightarrow>
                  (case s_write L block s of
                     (ec, s') \<Rightarrow>
                       (case result_of ec (length block) of
                          Inl _ \<Rightarrow> (Ended None, s')
                        | Inr written \<Rightarrow> (AwaitBody f' (len - word_of_nat written), s'))))"
| "resume L S config db (Ended e, s) = (Ended e, s)"

section \<open>Against the calls of the server\<close>

lemma after_exception_eq:
  "after_exception L req e =
     (case error_reply L req e of None \<Rightarrow> Ended (Some e) | Some resp \<Rightarrow> AwaitWrite (message_bytes L resp))"
  by (cases e) (simp_all add: after_exception_def error_reply_def)

lemma upnp_point_eq:
  "upnp_point L S config db req sub_path =
     bindE (upnp_reply L S config db req sub_path) (\<lambda>resp. Inr (AwaitWrite (message_bytes L resp)))"
  by (cases "parse_soap_request L req"; cases "cds_browse L S config db (projr (parse_soap_request L req))")
    (simp_all add: upnp_point_def upnp_reply_def Let_def)

text \<open>Going on from a point to the end of the connection, by the calls of \<open>Server\<close> and \<open>Content\<close>.\<close>

definition finish_body ::
  "('f, 's, 'm) web_lib_scheme \<Rightarrow> ('db, 'it, 'n) store_lib_scheme \<Rightarrow> server_config \<Rightarrow> 'db \<Rightarrow> nat \<Rightarrow> nat
    \<Rightarrow> 'f \<Rightarrow> 64 word \<Rightarrow> 's \<Rightarrow> 's option" where
  "finish_body L S config db fuel requests f len s =
     (case body_loop L fuel len f s of
        None \<Rightarrow> None
      | Some (again, s') \<Rightarrow> if again then handle_connections L S config db fuel requests s' else Some s')"

fun finish ::
  "('f, 's, 'm) web_lib_scheme \<Rightarrow> ('db, 'it, 'n) store_lib_scheme \<Rightarrow> server_config \<Rightarrow> 'db \<Rightarrow> nat \<Rightarrow> nat
    \<Rightarrow> 'f point \<times> 's \<Rightarrow> 's option" where
  "finish L S config db fuel requests (AwaitRequest, s) = handle_connections L S config db fuel requests s"
| "finish L S config db fuel requests (AwaitWrite message, s) =
     (case s_write L message s of
        (Some ec, s') \<Rightarrow> Some s'
      | (None, s') \<Rightarrow> handle_connections L S config db fuel requests s')"
| "finish L S config db fuel requests (AwaitHeader hs head f len, s) =
     (case s_write L hs s of
        (Some ec, s') \<Rightarrow> Some s'
      | (None, s') \<Rightarrow>
          if head then handle_connections L S config db fuel requests s'
          else finish_body L S config db fuel requests f len s')"
| "finish L S config db fuel requests (AwaitBody f len, s) = finish_body L S config db fuel requests f len s"
| "finish L S config db fuel requests (Ended e, s) = Some s"

text \<open>A request, served and followed by the rest of the connection, is going on from its first point.\<close>

lemma finish_exception:
  "(case handle_exception L req e s of
      (Continue, s'') \<Rightarrow> handle_connections L S config db fuel requests s''
    | (_, s'') \<Rightarrow> Some s'') =
   finish L S config db fuel requests (after_exception L req e, s)"
  by (cases "error_reply L req e")
    (auto simp: handle_exception_eq after_exception_eq send_or_terminate_def write_response_def
      split: prod.splits option.splits)

lemma finish_dispatch:
  "finish L S config db fuel requests (dispatch L S config db req, s) =
     (case serve_request L S config db fuel req s of
        None \<Rightarrow> None
      | Some (Continue, s'') \<Rightarrow> handle_connections L S config db fuel requests s''
      | Some (_, s'') \<Rightarrow> Some s'')"
proof (cases "route_of (rq_target req)")
  case (UpnpRoute sub)
  then show ?thesis
    by (cases "upnp_reply L S config db req sub")
      (auto simp: dispatch_def upnp_point_eq serve_request_def handle_upnp_request_eq write_response_def
        handle_exception_def finish_exception [symmetric] split: prod.splits option.splits outcome.splits)
next
  case (ContentRoute sub)
  show ?thesis
  proof (cases "create_response L S sub req db")
    case (Inl e)
    with ContentRoute show ?thesis
      by (simp add: dispatch_def content_point_def serve_request_def content_handle_request_def
          finish_exception [symmetric] split: prod.splits outcome.splits)
  next
    case (Inr r)
    obtain resp f len where r: "r = (resp, f, len)" by (cases r)
    with ContentRoute Inr show ?thesis
      by (auto simp: dispatch_def content_point_def serve_request_def content_handle_request_def
          finish_body_def handle_exception_def split: prod.splits option.splits)
  qed
qed (auto simp: dispatch_def serve_request_def send_or_terminate_def write_response_def
      split: prod.splits option.splits)

lemma handle_connections_finish:
  "handle_connections L S config db fuel (Suc requests) s =
     (case read_request L s of
        (Inl ec, s') \<Rightarrow> Some s'
      | (Inr req, s') \<Rightarrow> finish L S config db fuel requests (dispatch L S config db req, s'))"
  by (auto simp: finish_dispatch split: prod.splits sum.splits)

text \<open>More fuel, or a larger bound on the requests, changes no result.\<close>

lemma body_loop_mono:
  "body_loop L fuel len f s = Some r \<Longrightarrow> fuel \<le> fuel' \<Longrightarrow> body_loop L fuel' len f s = Some r"
proof (induction fuel arbitrary: fuel' len f s)
  case 0
  then show ?case by simp
next
  case (Suc fuel)
  then obtain fuel1 where fuel': "fuel' = Suc fuel1" "fuel \<le> fuel1" by (cases fuel') auto
  from Suc.prems(1) Suc.IH [OF _ fuel'(2)] show ?case
    by (auto simp: fuel' Let_def split: if_splits prod.splits sum.splits option.splits)
qed

lemma finish_body_mono:
  assumes "finish_body L S config db fuel requests f len s = Some s'" and "fuel \<le> fuel'"
    and "\<And>t. handle_connections L S config db fuel requests t = Some s' \<Longrightarrow>
      handle_connections L S config db fuel' requests' t = Some s'"
  shows "finish_body L S config db fuel' requests' f len s = Some s'"
proof -
  obtain again s1 where "body_loop L fuel len f s = Some (again, s1)"
    using assms(1) by (auto simp: finish_body_def split: option.splits)
  moreover from body_loop_mono [OF this assms(2)] have "body_loop L fuel' len f s = Some (again, s1)" .
  ultimately show ?thesis using assms(1,3) by (auto simp: finish_body_def split: if_splits)
qed

lemma finish_lift:
  assumes "finish L S config db fuel requests c = Some s'" and "fuel \<le> fuel'"
    and h: "\<And>t. handle_connections L S config db fuel requests t = Some s' \<Longrightarrow>
      handle_connections L S config db fuel' requests' t = Some s'"
  shows "finish L S config db fuel' requests' c = Some s'"
  using assms(1) h finish_body_mono [where s' = s', OF _ assms(2) h]
  by (cases "(L, S, config, db, c)" rule: resume.cases) (auto split: prod.splits option.splits if_splits)

lemma handle_connections_mono:
  "handle_connections L S config db fuel requests s = Some s' \<Longrightarrow> fuel \<le> fuel' \<Longrightarrow> requests \<le> requests' \<Longrightarrow>
     handle_connections L S config db fuel' requests' s = Some s'"
proof (induction requests arbitrary: requests' s)
  case 0
  then show ?case by simp
next
  case (Suc requests)
  then obtain requests1 where r': "requests' = Suc requests1" "requests \<le> requests1" by (cases requests') auto
  note finish = finish_lift [OF _ Suc.prems(2) Suc.IH [OF _ Suc.prems(2) r'(2)]]
  show ?case
    using Suc.prems(1) unfolding r' handle_connections_finish
    by (auto simp: finish split: prod.splits sum.splits)
qed

lemma finish_mono:
  assumes "finish L S config db fuel requests c = Some s'" and "fuel \<le> fuel'" and "requests \<le> requests'"
  shows "finish L S config db fuel' requests' c = Some s'"
  by (rule finish_lift [OF assms(1,2) handle_connections_mono [OF _ assms(2,3)]])

section \<open>Steps against calls\<close>

text \<open>Going on after one step, with one more unit of fuel before it.\<close>

lemma finish_resume:
  assumes "finish L S config db fuel requests (resume L S config db c) = Some s'"
  shows "finish L S config db (Suc fuel) (Suc requests) c = Some s'"
proof -
  note mono = finish_mono [OF _ le_SucI [OF le_refl] le_SucI [OF le_refl]]
  note hmono = handle_connections_mono [OF _ le_SucI [OF le_refl] le_SucI [OF le_refl]]
  show ?thesis
  proof (cases "(L, S, config, db, c)" rule: resume.cases)
    case (1 _ _ _ _ s)
    obtain r s1 where r: "read_request L s = (r, s1)" by fastforce
    with assms 1 show ?thesis
      using finish_mono [of L S config db fuel requests, OF _ le_SucI [OF le_refl] le_refl]
      by (cases r) (auto simp: handle_connections_finish simp del: handle_connections.simps)
  next
    case (2 _ _ _ _ message s)
    with assms hmono show ?thesis by (auto split: prod.splits option.splits simp del: handle_connections.simps)
  next
    case (3 _ _ _ _ hs head f len s)
    with assms mono [of _ _ _ _ _ _ "(AwaitBody f len, _)"] hmono show ?thesis
      by (auto split: prod.splits option.splits if_splits simp del: handle_connections.simps)
  next
    case (4 _ _ _ _ f len s)
    show ?thesis
    proof (cases "unat (min len 4096) = 0")
      case True
      with 4 assms hmono show ?thesis
        by (auto simp: finish_body_def simp del: handle_connections.simps)
    next
      case False
      obtain r f1 where r: "f_read L (unat (min len 4096)) f = (r, f1)" by fastforce
      show ?thesis
      proof (cases r)
        case (Inl ec)
        with 4 assms False r show ?thesis by (simp add: finish_body_def)
      next
        case (Inr block)
        obtain w s1 where w: "s_write L block s = (w, s1)" by fastforce
        show ?thesis
        proof (cases w)
          case (Some ec)
          with 4 assms False r Inr w show ?thesis by (simp add: finish_body_def result_of_def)
        next
          case None
          with 4 assms False r Inr w
          have "finish_body L S config db fuel requests f1 (len - word_of_nat (length block)) s1 = Some s'"
            by (simp add: result_of_def)
          then obtain again s2 where b: "body_loop L fuel (len - word_of_nat (length block)) f1 s1 = Some (again, s2)"
            "if again then handle_connections L S config db fuel requests s2 = Some s' else s2 = s'"
            by (auto simp: finish_body_def split: option.splits if_splits)
          have "body_loop L (Suc fuel) len f s = Some (again, s2)"
            using False r Inr w None b(1) by simp
          with 4 b(2) hmono show ?thesis
            by (auto simp: finish_body_def simp del: handle_connections.simps body_loop.simps split: if_splits)
        qed
      qed
    qed
  next
    case (5 _ _ _ _ e s)
    with assms show ?thesis by simp
  qed
qed

lemma finish_of_steps:
  "(resume L S config db ^^ n) c = (Ended e, s') \<Longrightarrow> finish L S config db n n c = Some s'"
proof (induction n arbitrary: c)
  case 0
  then show ?case by simp
next
  case (Suc n)
  then have "(resume L S config db ^^ n) (resume L S config db c) = (Ended e, s')" by (simp add: funpow_swap1)
  from finish_resume [OF Suc.IH [OF this]] show ?case .
qed

text \<open>And every call that returns is a sequence of steps.\<close>

definition reaches ::
  "('f, 's, 'm) web_lib_scheme \<Rightarrow> ('db, 'it, 'n) store_lib_scheme \<Rightarrow> server_config \<Rightarrow> 'db
    \<Rightarrow> 'f point \<times> 's \<Rightarrow> 'f point \<times> 's \<Rightarrow> bool" where
  "reaches L S config db c c' \<longleftrightarrow> (\<exists>n. (resume L S config db ^^ n) c = c')"

lemma reaches_refl [simp, intro]: "reaches L S config db c c"
  unfolding reaches_def by (rule exI [of _ 0]) simp

lemma reaches_resume: "reaches L S config db (resume L S config db c) c' \<Longrightarrow> reaches L S config db c c'"
  unfolding reaches_def by (metis comp_apply funpow_Suc_right)

lemma reaches_trans: "reaches L S config db c c1 \<Longrightarrow> reaches L S config db c1 c2 \<Longrightarrow> reaches L S config db c c2"
  unfolding reaches_def by (metis comp_apply funpow_add)

lemma body_loop_reaches:
  "body_loop L fuel len f s = Some (again, s') \<Longrightarrow>
     reaches L S config db (AwaitBody f len, s) (if again then AwaitRequest else Ended None, s')"
proof (induction fuel arbitrary: len f s)
  case 0
  then show ?case by simp
next
  case (Suc fuel)
  show ?case
  proof (rule reaches_resume, cases "unat (min len 4096) = 0")
    case True
    with Suc.prems show "reaches L S config db (resume L S config db (AwaitBody f len, s))
        (if again then AwaitRequest else Ended None, s')" by auto
  next
    case False
    with Suc show "reaches L S config db (resume L S config db (AwaitBody f len, s))
        (if again then AwaitRequest else Ended None, s')"
      by (auto simp: Let_def result_of_def split: prod.splits sum.splits option.splits)
  qed
qed

lemma finish_reaches:
  assumes "finish L S config db fuel requests c = Some s'"
    and h: "\<And>t. handle_connections L S config db fuel requests t = Some s' \<Longrightarrow>
      \<exists>e. reaches L S config db (AwaitRequest, t) (Ended e, s')"
  shows "\<exists>e. reaches L S config db c (Ended e, s')"
proof -
  have body: "\<exists>e. reaches L S config db (AwaitBody f len, s) (Ended e, s')"
    if fin: "finish_body L S config db fuel requests f len s = Some s'" for f len s
  proof -
    from fin obtain again t where t: "body_loop L fuel len f s = Some (again, t)"
      "if again then handle_connections L S config db fuel requests t = Some s' else t = s'"
      by (auto simp: finish_body_def split: option.splits if_splits)
    from body_loop_reaches [OF t(1), of S config db] t(2) h [of t] show ?thesis
      by (cases again) (auto dest: reaches_trans)
  qed
  show ?thesis
  proof (cases "(L, S, config, db, c)" rule: resume.cases)
    case (2 _ _ _ _ message s)
    obtain w s1 where w: "s_write L message s = (w, s1)" by fastforce
    have "\<exists>e. reaches L S config db (resume L S config db c) (Ended e, s')"
      using assms(1) 2 w h [of s1] by (cases w) auto
    then show ?thesis by (elim exE) (rule exI, rule reaches_resume)
  next
    case (3 _ _ _ _ hs head f len s)
    obtain w s1 where w: "s_write L hs s = (w, s1)" by fastforce
    have "\<exists>e. reaches L S config db (resume L S config db c) (Ended e, s')"
      using assms(1) 3 w h [of s1] body [of f len s1] by (cases w) (auto split: if_splits)
    then show ?thesis by (elim exE) (rule exI, rule reaches_resume)
  qed (use assms body in auto)
qed

lemma handle_connections_reaches:
  "handle_connections L S config db fuel requests s = Some s' \<Longrightarrow>
     \<exists>e. reaches L S config db (AwaitRequest, s) (Ended e, s')"
proof (induction requests arbitrary: s)
  case 0
  then show ?case by simp
next
  case (Suc requests)
  obtain r s1 where r: "read_request L s = (r, s1)" by fastforce
  have "\<exists>e. reaches L S config db (resume L S config db (AwaitRequest, s)) (Ended e, s')"
  proof (cases r)
    case (Inl ec)
    with Suc.prems r show ?thesis by auto
  next
    case (Inr req)
    with Suc.prems r have "finish L S config db fuel requests (dispatch L S config db req, s1) = Some s'"
      unfolding handle_connections_finish by simp
    from finish_reaches [OF this Suc.IH] r Inr show ?thesis by simp
  qed
  then show ?case by (elim exE) (rule exI, rule reaches_resume)
qed

text \<open>A request that is served to the next read takes one step to read, and at most one more than the body.\<close>

lemma body_loop_steps:
  "body_loop L fuel len f s = Some (True, s') \<Longrightarrow>
     \<exists>n \<le> fuel. (resume L S config db ^^ n) (AwaitBody f len, s) = (AwaitRequest, s')"
proof (induction fuel arbitrary: len f s)
  case 0
  then show ?case by simp
next
  case (Suc fuel)
  have "\<exists>n \<le> fuel. (resume L S config db ^^ n) (resume L S config db (AwaitBody f len, s)) = (AwaitRequest, s')"
  proof (cases "unat (min len 4096) = 0")
    case True
    with Suc.prems show ?thesis by (intro exI [of _ 0]) simp
  next
    case False
    with Suc show ?thesis
      by (auto simp: Let_def result_of_def split: prod.splits sum.splits option.splits)
  qed
  then obtain n where "n \<le> fuel"
    "(resume L S config db ^^ n) (resume L S config db (AwaitBody f len, s)) = (AwaitRequest, s')" by blast
  then show ?case by (intro exI [of _ "Suc n"]) (simp add: funpow_swap1)
qed

lemma send_steps:
  assumes "send_or_terminate L resp s = (Continue, s')"
  shows "\<exists>n \<le> Suc fuel. (resume L S config db ^^ n) (AwaitWrite (message_bytes L resp), s) = (AwaitRequest, s')"
  using send_or_terminate_cases [of L resp s] assms by (intro exI [of _ 1]) auto

lemma exception_steps:
  assumes "handle_exception L req e s = (Continue, s')"
  shows "\<exists>n \<le> Suc fuel. (resume L S config db ^^ n) (after_exception L req e, s) = (AwaitRequest, s')"
  using assms send_steps by (auto simp: handle_exception_eq after_exception_eq split: option.splits)

lemma serve_request_steps:
  assumes run: "serve_request L S config db fuel req s = Some (Continue, s')"
  shows "\<exists>n \<le> Suc fuel. (resume L S config db ^^ n) (dispatch L S config db req, s) = (AwaitRequest, s')"
proof (cases "route_of (rq_target req)")
  case (UpnpRoute sub)
  show ?thesis
  proof (cases "upnp_reply L S config db req sub")
    case (Inl e)
    with run UpnpRoute exception_steps show ?thesis
      by (auto simp: serve_request_def dispatch_def upnp_point_eq handle_upnp_request_eq)
  next
    case (Inr resp)
    with run UpnpRoute show ?thesis
      by (intro exI [of _ 1]) (auto simp: serve_request_def dispatch_def upnp_point_eq handle_upnp_request_eq
          write_response_def handle_exception_def split: prod.splits option.splits)
  qed
next
  case (ContentRoute sub)
  show ?thesis
  proof (cases "create_response L S sub req db")
    case (Inl e)
    with run ContentRoute exception_steps show ?thesis
      by (auto simp: serve_request_def dispatch_def content_point_def content_handle_request_def)
  next
    case (Inr r)
    obtain resp f len where r: "r = (resp, f, len)" by (cases r)
    obtain w s1 where w: "s_write L (header_bytes L resp) s = (w, s1)" by fastforce
    have none: "w = None"
      using run ContentRoute Inr r w
      by (auto simp: serve_request_def content_handle_request_def handle_exception_def split: option.splits)
    have "\<exists>n \<le> fuel. (resume L S config db ^^ n)
        (resume L S config db (dispatch L S config db req, s)) = (AwaitRequest, s')"
    proof (cases "rq_method req = Head")
      case True
      with run ContentRoute Inr r w none show ?thesis
        by (intro exI [of _ 0]) (auto simp: serve_request_def dispatch_def content_point_def content_handle_request_def)
    next
      case False
      with run ContentRoute Inr r w none have "body_loop L fuel len f s1 = Some (True, s')"
        by (auto simp: serve_request_def content_handle_request_def split: option.splits if_splits)
      from body_loop_steps [OF this] False ContentRoute Inr r w none show ?thesis
        by (simp add: dispatch_def content_point_def)
    qed
    then obtain n where "n \<le> fuel" "(resume L S config db ^^ n)
        (resume L S config db (dispatch L S config db req, s)) = (AwaitRequest, s')" by blast
    then show ?thesis by (intro exI [of _ "Suc n"]) (simp add: funpow_swap1)
  qed
qed (use run send_steps in \<open>auto simp: serve_request_def dispatch_def\<close>)

section \<open>What has been sent\<close>

text \<open>The requests a coroutine reads in its next steps.\<close>

definition read_now :: "('f, 's, 'm) web_lib_scheme \<Rightarrow> 'f point \<times> 's \<Rightarrow> http_request list" where
  "read_now L c =
     (case c of
        (AwaitRequest, s) \<Rightarrow> (case fst (read_request L s) of Inl _ \<Rightarrow> [] | Inr req \<Rightarrow> [req])
      | _ \<Rightarrow> [])"

fun requests_read ::
  "('f, 's, 'm) web_lib_scheme \<Rightarrow> ('db, 'it, 'n) store_lib_scheme \<Rightarrow> server_config \<Rightarrow> 'db \<Rightarrow> nat
    \<Rightarrow> 'f point \<times> 's \<Rightarrow> http_request list" where
  "requests_read L S config db 0 c = []"
| "requests_read L S config db (Suc n) c =
     read_now L c @ requests_read L S config db n (resume L S config db c)"

lemma requests_read_snoc:
  "requests_read L S config db (Suc n) c =
     requests_read L S config db n c @ read_now L ((resume L S config db ^^ n) c)"
  by (induction n arbitrary: c) (simp_all add: funpow_swap1)

text \<open>
  All but the last of the requests read have been answered completely, and the last one as far as the
  point says.
\<close>

definition answered ::
  "(http_request \<Rightarrow> bytes option) \<Rightarrow> http_request list \<Rightarrow> bytes \<Rightarrow> bool" where
  "answered ans reqs bs \<longleftrightarrow> (\<exists>bss. map ans reqs = map Some bss \<and> bs = concat bss)"

lemma answered_Nil [simp]: "answered ans [] bs \<longleftrightarrow> bs = []"
  by (auto simp: answered_def)

lemma answered_snoc: "answered ans reqs bs \<Longrightarrow> ans req = Some b \<Longrightarrow> answered ans (reqs @ [req]) (bs @ b)"
  unfolding answered_def by (metis (no_types, lifting) append_is_Nil_conv concat.simps(1,2) concat_append
      list.simps(8,9) map_append append_Nil2)

definition partly_answered ::
  "(http_request \<Rightarrow> bytes option) \<Rightarrow> http_request list \<Rightarrow> bytes \<Rightarrow> bool" where
  "partly_answered ans reqs bs \<longleftrightarrow>
     answered ans reqs bs
     \<or> (\<exists>done req whole part rest. reqs = done @ [req] \<and> answered ans done whole \<and> bs = whole @ part
          \<and> part @ rest = (case ans req of None \<Rightarrow> [] | Some b \<Rightarrow> b))"

fun sent_so_far ::
  "('f \<Rightarrow> bytes) \<Rightarrow> ('f \<Rightarrow> nat) \<Rightarrow> (http_request \<Rightarrow> bytes option) \<Rightarrow> http_request list \<Rightarrow> 'f point \<Rightarrow> bytes \<Rightarrow> bool" where
  "sent_so_far file_data file_pos ans reqs AwaitRequest bs \<longleftrightarrow> answered ans reqs bs"
| "sent_so_far file_data file_pos ans reqs (AwaitWrite message) bs \<longleftrightarrow>
     (\<exists>done req. reqs = done @ [req] \<and> answered ans done bs \<and> ans req = Some message)"
| "sent_so_far file_data file_pos ans reqs (AwaitHeader hs head f len) bs \<longleftrightarrow>
     (\<exists>done req. reqs = done @ [req] \<and> answered ans done bs
        \<and> ans req = Some (hs @ (if head then [] else take (unat len) (drop (file_pos f) (file_data f)))))"
| "sent_so_far file_data file_pos ans reqs (AwaitBody f len) bs \<longleftrightarrow>
     (\<exists>done req whole part. reqs = done @ [req] \<and> answered ans done whole \<and> bs = whole @ part
        \<and> ans req = Some (part @ take (unat len) (drop (file_pos f) (file_data f))))"
| "sent_so_far file_data file_pos ans reqs (Ended e) bs \<longleftrightarrow> partly_answered ans reqs bs"

lemma partly_answeredI: "answered ans reqs bs \<Longrightarrow> partly_answered ans reqs bs"
  by (simp add: partly_answered_def)

lemma partly_answered_prefix:
  "answered ans done whole \<Longrightarrow> ans req = Some b \<Longrightarrow> partly_answered ans (done @ [req]) (whole @ take i b)"
  unfolding partly_answered_def by (rule disjI2) (metis append_take_drop_id option.simps(5))

lemma partly_answered_none:
  "answered ans done bs \<Longrightarrow> ans req = None \<Longrightarrow> partly_answered ans (done @ [req]) bs"
  unfolding partly_answered_def by (rule disjI2) (metis append_Nil2 option.simps(4))

lemma dispatch_sent_so_far:
  assumes "answered (answer L file_data file_pos S config db) done bs"
  shows "sent_so_far file_data file_pos (answer L file_data file_pos S config db) (done @ [req])
    (dispatch L S config db req) bs"
proof -
  have exc: "sent_so_far file_data file_pos (answer L file_data file_pos S config db) (done @ [req])
      (after_exception L req e) bs"
    if "answer L file_data file_pos S config db req = reply_bytes L req (Inl e)" for e
    using assms that
    by (cases "error_reply L req e")
      (auto simp: after_exception_eq reply_bytes_def intro: partly_answered_none)
  show ?thesis
  proof (cases "route_of (rq_target req)")
    case (UpnpRoute sub)
    with assms exc show ?thesis
      by (cases "upnp_reply L S config db req sub")
        (auto simp: dispatch_def upnp_point_eq answer_def reply_bytes_def)
  next
    case (ContentRoute sub)
    with assms exc show ?thesis
      by (cases "create_response L S sub req db")
        (auto simp: dispatch_def content_point_def answer_def reply_bytes_def content_bytes_def)
  qed (use assms in \<open>auto simp: dispatch_def answer_def\<close>)
qed

context net_io
begin

lemma write_sent:
  assumes "s_write L bs s = (w, s')"
  obtains i where "sent s' = sent s @ take i bs" "w = None \<Longrightarrow> take i bs = bs"
proof (cases w)
  case None
  with write_ok assms that [of "length bs"] show thesis by simp
next
  case (Some e)
  with write_failed assms that show thesis by blast
qed

text \<open>One block of a body: what is left after it is what is left of the file.\<close>

lemma body_block:
  fixes len :: "64 word"
  assumes "f_read L (unat (min len 4096)) f = (Inr block, f')"
  shows "length block \<le> unat len"
    and "take (unat len) (drop (file_pos f) (file_data f)) =
      block @ take (unat (len - word_of_nat (length block))) (drop (file_pos f') (file_data f'))"
proof -
  have rd: "block = take (unat (min len 4096)) (drop (file_pos f) (file_data f))"
    "file_data f' = file_data f" "file_pos f' = file_pos f + length block"
    using read_ok [OF assms] by auto
  have m: "unat (min len 4096) \<le> unat len" by (simp add: min_def word_le_nat_alt)
  with rd(1) show le: "length block \<le> unat len" by simp
  have "block = take (length block) (drop (file_pos f) (file_data f))" using rd(1) by (simp add: min_def)
  moreover have "take (unat len) (drop (file_pos f) (file_data f)) =
      take (length block) (drop (file_pos f) (file_data f))
      @ take (unat len - length block) (drop (length block) (drop (file_pos f) (file_data f)))"
    using le by (metis take_add le_add_diff_inverse)
  ultimately show "take (unat len) (drop (file_pos f) (file_data f)) =
      block @ take (unat (len - word_of_nat (length block))) (drop (file_pos f') (file_data f'))"
    by (simp add: unat_rest [OF le] rd(2,3) add.commute)
qed

end

text \<open>Every step keeps this account.\<close>

lemma resume_sent_so_far:
  assumes io: "net_io L file_data file_pos sent"
    and before: "sent_so_far file_data file_pos (answer L file_data file_pos S config db) reqs pt bs"
      "sent s = base @ bs"
    and step: "resume L S config db (pt, s) = (pt', s')"
  shows "\<exists>bs'. sent s' = base @ bs'
    \<and> sent_so_far file_data file_pos (answer L file_data file_pos S config db) (reqs @ read_now L (pt, s)) pt' bs'"
proof (cases pt)
  case AwaitRequest
  obtain r s1 where r: "read_request L s = (r, s1)" by fastforce
  with net_io.read_request_keeps [OF io] have "sent s1 = sent s" by blast
  with AwaitRequest before step r show ?thesis
    by (cases r) (auto simp: read_now_def intro: partly_answeredI dispatch_sent_so_far)
next
  case (AwaitWrite message)
  from before AwaitWrite obtain don req where reqs: "reqs = don @ [req]"
    "answered (answer L file_data file_pos S config db) don bs"
    "answer L file_data file_pos S config db req = Some message" by auto
  obtain w s1 where w: "s_write L message s = (w, s1)" by fastforce
  obtain i where "sent s1 = sent s @ take i message" "w = None \<Longrightarrow> take i message = message"
    using net_io.write_sent [OF io w] by blast
  with AwaitWrite before(2) step w reqs answered_snoc [OF reqs(2,3)] partly_answered_prefix [OF reqs(2,3)]
  show ?thesis by (cases w) (auto simp: read_now_def)
next
  case (AwaitHeader hs head f len)
  let ?rest = "if head then [] else take (unat len) (drop (file_pos f) (file_data f))"
  from before AwaitHeader obtain don req where reqs: "reqs = don @ [req]"
    "answered (answer L file_data file_pos S config db) don bs"
    "answer L file_data file_pos S config db req = Some (hs @ ?rest)" by auto
  obtain w s1 where w: "s_write L hs s = (w, s1)" by fastforce
  obtain i where i: "sent s1 = sent s @ take i hs" "w = None \<Longrightarrow> take i hs = hs"
    using net_io.write_sent [OF io w] by blast
  show ?thesis
  proof (cases w)
    case None
    with AwaitHeader before(2) step w reqs i answered_snoc [OF reqs(2,3)] show ?thesis
      by (auto simp: read_now_def split: if_splits)
  next
    case (Some ec)
    have "take i hs = take (min i (length hs)) (hs @ ?rest)" by (simp add: min_def)
    then have "partly_answered (answer L file_data file_pos S config db) reqs (bs @ take i hs)"
      using partly_answered_prefix [OF reqs(2,3)] reqs(1) by metis
    with Some AwaitHeader before(2) step w i(1) show ?thesis by (auto simp: read_now_def)
  qed
next
  case (AwaitBody f len)
  let ?left = "take (unat len) (drop (file_pos f) (file_data f))"
  from before AwaitBody obtain don req whole part where reqs: "reqs = don @ [req]"
    "answered (answer L file_data file_pos S config db) don whole" "bs = whole @ part"
    "answer L file_data file_pos S config db req = Some (part @ ?left)" by auto
  have part: "partly_answered (answer L file_data file_pos S config db) reqs (whole @ part @ take i ?left)" for i
    using partly_answered_prefix [OF reqs(2,4), of "length part + i"] reqs(1) by simp
  show ?thesis
  proof (cases "unat (min len 4096) = 0")
    case True
    then have "unat len = 0" by (auto simp: unat_produce)
    with True AwaitBody before(2) step reqs answered_snoc [OF reqs(2,4)] show ?thesis
      by (auto simp: read_now_def)
  next
    case False
    obtain r f1 where r: "f_read L (unat (min len 4096)) f = (r, f1)" by fastforce
    show ?thesis
    proof (cases r)
      case (Inl ec)
      with False AwaitBody before(2) step r reqs(3) part [of 0] net_io.close_sent [OF io] show ?thesis
        by (auto simp: read_now_def)
    next
      case (Inr block)
      note left = net_io.body_block [OF io r [unfolded Inr]]
      obtain w s1 where w: "s_write L block s = (w, s1)" by fastforce
      obtain i where i: "sent s1 = sent s @ take i block" "w = None \<Longrightarrow> take i block = block"
        using net_io.write_sent [OF io w] by blast
      show ?thesis
      proof (cases w)
        case None
        with False AwaitBody before(2) step r Inr w reqs i left(2) show ?thesis
          by (auto simp: read_now_def result_of_def)
      next
        case (Some ec)
        have "take i block = take (min i (length block)) ?left" by (simp add: left(2) min_def)
        then have "partly_answered (answer L file_data file_pos S config db) reqs (whole @ part @ take i block)"
          using part by metis
        with Some False AwaitBody before(2) step r Inr w reqs(3) i(1) show ?thesis
          by (auto simp: read_now_def result_of_def)
      qed
    qed
  qed
next
  case (Ended e)
  with before step show ?thesis by (auto simp: read_now_def)
qed

text \<open>So a coroutine that has run for any number of steps has sent what its point says.\<close>

lemma steps_sent_so_far:
  assumes io: "net_io L file_data file_pos sent"
    and run: "(resume L S config db ^^ n) (AwaitRequest, s) = (pt, s')"
  shows "\<exists>bs. sent s' = sent s @ bs
    \<and> sent_so_far file_data file_pos (answer L file_data file_pos S config db)
        (requests_read L S config db n (AwaitRequest, s)) pt bs"
  using run
proof (induction n arbitrary: pt s')
  case 0
  then show ?case by simp
next
  case (Suc n)
  obtain pt1 s1 where mid: "(resume L S config db ^^ n) (AwaitRequest, s) = (pt1, s1)" by fastforce
  with Suc.prems have step: "resume L S config db (pt1, s1) = (pt, s')" by simp
  from Suc.IH [OF mid] obtain bs where "sent s1 = sent s @ bs"
    "sent_so_far file_data file_pos (answer L file_data file_pos S config db)
        (requests_read L S config db n (AwaitRequest, s)) pt1 bs" by blast
  from resume_sent_so_far [OF io this(2,1) step] show ?case
    unfolding requests_read_snoc mid .
qed

lemma sent_so_far_partly:
  assumes "sent_so_far file_data file_pos ans reqs pt bs"
  shows "partly_answered ans reqs bs"
proof (cases pt)
  case (AwaitWrite message)
  with assms partly_answered_prefix [of ans _ bs _ message 0] show ?thesis by auto
next
  case (AwaitHeader hs head f len)
  with assms partly_answered_prefix [of ans _ bs _ _ 0] show ?thesis by fastforce
next
  case (AwaitBody f len)
  with assms show ?thesis unfolding partly_answered_def by fastforce
qed (use assms in \<open>auto intro: partly_answeredI\<close>)

end
