(* ===== verification/ShortBody.thy ===== *)
theory ShortBody
  imports Coroutine
begin

text \<open>
  Responses that announce more than the file has left. The coroutine sends the header and the rest of
  the file; then it reads and writes empty blocks, for as long as its calls succeed. It never goes
  on to the next request.
\<close>

section \<open>What can be sent\<close>

text \<open>
  \<open>before\<close> was sent when the request was read, \<open>hs\<close> is the header and \<open>rest\<close> what the file has left.
\<close>

fun short_body ::
  "('f \<Rightarrow> bytes) \<Rightarrow> ('f \<Rightarrow> nat) \<Rightarrow> ('s \<Rightarrow> bytes) \<Rightarrow> bytes \<Rightarrow> bytes \<Rightarrow> bytes \<Rightarrow> 'f point \<times> 's \<Rightarrow> bool" where
  "short_body file_data file_pos sent before hs rest (AwaitHeader header head f len, s) \<longleftrightarrow>
     header = hs \<and> \<not> head \<and> drop (file_pos f) (file_data f) = rest \<and> length rest < unat len
     \<and> sent s = before"
| "short_body file_data file_pos sent before hs rest (AwaitBody f len, s) \<longleftrightarrow>
     (\<exists>done. sent s = before @ hs @ done \<and> done @ drop (file_pos f) (file_data f) = rest
       \<and> length (drop (file_pos f) (file_data f)) < unat len)"
| "short_body file_data file_pos sent before hs rest (Ended e, s) \<longleftrightarrow>
     (\<exists>i. sent s = before @ take i (hs @ rest))"
| "short_body file_data file_pos sent before hs rest _ \<longleftrightarrow> False"

lemma short_body_prefix:
  "short_body file_data file_pos sent before hs rest (pt, s) \<Longrightarrow> \<exists>i. sent s = before @ take i (hs @ rest)"
proof (cases pt)
  case (AwaitHeader header head f len)
  assume "short_body file_data file_pos sent before hs rest (pt, s)"
  with AwaitHeader show ?thesis by (intro exI [of _ 0]) simp
next
  case (AwaitBody f len)
  assume "short_body file_data file_pos sent before hs rest (pt, s)"
  with AwaitBody obtain "done" where "sent s = before @ hs @ done" "done @ drop (file_pos f) (file_data f) = rest"
    by auto
  then show ?thesis by (intro exI [of _ "length (hs @ done)"]) auto
qed simp_all

text \<open>One block: what was read is taken from the rest, and the announced length stays above it.\<close>

lemma short_body_block:
  assumes io: "net_io L file_data file_pos sent"
    and short: "short_body file_data file_pos sent before hs rest (AwaitBody f len, s)"
  obtains f' s1 len' where "resume L S config db (AwaitBody f len, s) = (AwaitBody f' len', s1)"
      and "short_body file_data file_pos sent before hs rest (AwaitBody f' len', s1)"
      and "length (drop (file_pos f') (file_data f')) \<le> length (drop (file_pos f) (file_data f)) - 1"
  | s1 i where "resume L S config db (AwaitBody f len, s) = (Ended None, s1)"
      and "sent s1 = before @ take i (hs @ rest)" and "\<not> calls_succeed L"
proof -
  define p where "p = min (unat len) 4096"
  let ?rest = "drop (file_pos f) (file_data f)"
  obtain sofar where s: "sent s = before @ hs @ sofar" "sofar @ ?rest = rest" "length ?rest < unat len"
    using short by auto
  have p: "unat (min len 4096) = p" "p \<noteq> 0" using s(3) by (auto simp: unat_produce p_def)
  obtain r f' where r: "f_read L p f = (r, f')" by fastforce
  show thesis
  proof (cases r)
    case (Inl ec)
    have "\<not> calls_succeed L" using r Inl unfolding calls_succeed_def by (metis Inl_Inr_False fst_conv)
    moreover have "sent (s_close L s) = before @ take (length (hs @ sofar)) (hs @ rest)"
      using s by (auto simp: net_io.close_sent [OF io])
    moreover have "resume L S config db (AwaitBody f len, s) = (Ended None, s_close L s)" using p r Inl by simp
    ultimately show thesis using that(2) by blast
  next
    case (Inr block)
    have rd: "block = take p ?rest" "file_data f' = file_data f" "file_pos f' = file_pos f + length block"
      using net_io.read_ok [OF io] r Inr by blast+
    have rest': "drop (file_pos f') (file_data f') = drop (length block) ?rest" by (simp add: rd add.commute)
    have block: "block @ drop (file_pos f') (file_data f') = ?rest" 
    proof -
      have "take (length block) ?rest = block" unfolding rd(1) by (metis append_eq_conv_conj append_take_drop_id)
      then show ?thesis using append_take_drop_id [of "length block" ?rest] by (simp only: rest')
    qed
    have len: "length block \<le> unat len" using s(3) by (simp add: rd(1))
    obtain w s1 where w: "s_write L block s = (w, s1)" by fastforce
    show thesis
    proof (cases w)
      case (Some ec)
      then obtain i where i: "sent s1 = sent s @ take i block" using net_io.write_failed [OF io] w by blast
      have "\<not> calls_succeed L" using w Some unfolding calls_succeed_def by (metis fst_conv option.distinct(1))
      moreover have "sent s1 = before @ take (length (hs @ sofar) + min i (length block)) (hs @ rest)"
        using i s block [symmetric] by (simp add: s(2) [symmetric] min_def)
      moreover have "resume L S config db (AwaitBody f len, s) = (Ended None, s1)"
        using p r Inr w Some by (simp add: result_of_def)
      ultimately show thesis using that(2) by blast
    next
      case None
      have s1: "sent s1 = sent s @ block" using net_io.write_ok [OF io] w None by blast
      have rest_len: "unat (len - word_of_nat (length block)) = unat len - length block" by (rule unat_rest [OF len])
      have "resume L S config db (AwaitBody f len, s) = (AwaitBody f' (len - word_of_nat (length block)), s1)"
        using p r Inr w None by (simp add: result_of_def)
      moreover have "short_body file_data file_pos sent before hs rest
          (AwaitBody f' (len - word_of_nat (length block)), s1)"
      proof -
        have "length block \<le> length ?rest" by (simp add: rd(1))
        with s(3) have "length (drop (file_pos f') (file_data f')) < unat len - length block"
          unfolding rest' by simp
        with s s1 block rest_len show ?thesis
          by (auto simp del: length_drop intro!: exI [of _ "sofar @ block"])
      qed
      moreover have "length (drop (file_pos f') (file_data f')) \<le> length ?rest - 1"
        using p(2) unfolding rest' by (simp add: rd(1))
      ultimately show thesis by (rule that(1))
    qed
  qed
qed

lemma short_body_header:
  assumes io: "net_io L file_data file_pos sent"
    and short: "short_body file_data file_pos sent before hs rest (AwaitHeader header head f len, s)"
  obtains s1 where "resume L S config db (AwaitHeader header head f len, s) = (AwaitBody f len, s1)"
      and "short_body file_data file_pos sent before hs rest (AwaitBody f len, s1)"
  | s1 e where "resume L S config db (AwaitHeader header head f len, s) = (Ended e, s1)"
      and "\<exists>i. sent s1 = before @ take i (hs @ rest)" and "\<not> calls_succeed L"
proof -
  obtain w s1 where w: "s_write L hs s = (w, s1)" by fastforce
  show thesis
  proof (cases w)
    case None
    with w net_io.write_ok [OF io, of hs s s1] short
    have "resume L S config db (AwaitHeader header head f len, s) = (AwaitBody f len, s1)"
      "short_body file_data file_pos sent before hs rest (AwaitBody f len, s1)" by auto
    then show thesis by (rule that(1))
  next
    case (Some ec)
    then obtain i where i: "sent s1 = sent s @ take i hs" using net_io.write_failed [OF io] w by blast
    have "\<not> calls_succeed L" using w Some unfolding calls_succeed_def by (metis fst_conv option.distinct(1))
    moreover have "sent s1 = before @ take (min i (length hs)) (hs @ rest)" using i short by (simp add: min_def)
    moreover have "resume L S config db (AwaitHeader header head f len, s) = (Ended (Some (SystemError ec)), s1)"
      using w Some short by simp
    ultimately show thesis using that(2) by blast
  qed
qed

section \<open>Every step\<close>

lemma short_body_step:
  assumes io: "net_io L file_data file_pos sent" and short: "short_body file_data file_pos sent before hs rest c"
  shows "short_body file_data file_pos sent before hs rest (resume L S config db c)"
proof -
  obtain pt s where c: "c = (pt, s)" by fastforce
  show ?thesis
  proof (cases pt)
    case (AwaitHeader header head f len)
    show ?thesis
      by (rule short_body_header [OF io short [unfolded c AwaitHeader], of S config db])
        (simp_all add: c AwaitHeader del: resume.simps)
  next
    case (AwaitBody f len)
    show ?thesis
      by (rule short_body_block [OF io short [unfolded c AwaitBody], of S config db])
        (auto simp add: c AwaitBody simp del: resume.simps)
  qed (use assms c in simp_all)
qed

lemma short_body_steps:
  assumes "net_io L file_data file_pos sent" and "short_body file_data file_pos sent before hs rest c"
  shows "short_body file_data file_pos sent before hs rest ((resume L S config db ^^ n) c)"
  using assms(2) by (induction n) (simp_all add: short_body_step [OF assms(1)])

text \<open>While the calls succeed, the rest of the file has been sent after as many blocks as it has bytes.\<close>

lemma short_body_spins:
  assumes io: "net_io L file_data file_pos sent" and ok: "calls_succeed L"
    and short: "short_body file_data file_pos sent before hs rest (AwaitBody f len, s)"
  shows "\<exists>f' len' s'. (resume L S config db ^^ n) (AwaitBody f len, s) = (AwaitBody f' len', s')
    \<and> short_body file_data file_pos sent before hs rest (AwaitBody f' len', s')
    \<and> length (drop (file_pos f') (file_data f')) \<le> length (drop (file_pos f) (file_data f)) - n"
proof (induction n)
  case 0
  with short show ?case by simp
next
  case (Suc n)
  then obtain f1 len1 s1 where at: "(resume L S config db ^^ n) (AwaitBody f len, s) = (AwaitBody f1 len1, s1)"
    "short_body file_data file_pos sent before hs rest (AwaitBody f1 len1, s1)"
    "length (drop (file_pos f1) (file_data f1)) \<le> length (drop (file_pos f) (file_data f)) - n" by blast
  show ?case
  proof (rule short_body_block [OF io at(2), of S config db])
    fix f' s' len'
    assume "resume L S config db (AwaitBody f1 len1, s1) = (AwaitBody f' len', s')"
      "short_body file_data file_pos sent before hs rest (AwaitBody f' len', s')"
      "length (drop (file_pos f') (file_data f')) \<le> length (drop (file_pos f1) (file_data f1)) - 1"
    with at(1,3) show ?thesis
      by (intro exI [of _ f'] exI [of _ len'] exI [of _ s']) (simp del: resume.simps short_body.simps)
  qed (use ok in simp)
qed

lemma short_body_sent:
  assumes io: "net_io L file_data file_pos sent" and ok: "calls_succeed L"
    and short: "short_body file_data file_pos sent before hs rest (AwaitHeader header head f len, s)"
    and n: "length rest < n"
  shows "\<exists>f' len' s'. (resume L S config db ^^ n) (AwaitHeader header head f len, s) = (AwaitBody f' len', s')
    \<and> sent s' = before @ hs @ rest"
proof (rule short_body_header [OF io short, of S config db])
  fix s1
  assume first: "resume L S config db (AwaitHeader header head f len, s) = (AwaitBody f len, s1)"
    "short_body file_data file_pos sent before hs rest (AwaitBody f len, s1)"
  obtain m where m: "n = Suc m" using n by (cases n) auto
  obtain f' len' s' where at: "(resume L S config db ^^ m) (AwaitBody f len, s1) = (AwaitBody f' len', s')"
    "short_body file_data file_pos sent before hs rest (AwaitBody f' len', s')"
    "length (drop (file_pos f') (file_data f')) \<le> length (drop (file_pos f) (file_data f)) - m"
    using short_body_spins [OF io ok first(2), of m S config db] by (elim exE conjE) (rule that)
  have "length (drop (file_pos f) (file_data f)) \<le> m" using short n m by (auto simp del: length_drop)
  with at(3) have "drop (file_pos f') (file_data f') = []" by simp
  with at(2) have "sent s' = before @ hs @ rest" by auto
  with at(1) first(1) m show ?thesis by (simp add: funpow_swap1 del: resume.simps)
qed (use ok in simp)

section \<open>Requests\<close>

text \<open>
  A request whose response announces more than the file has behind the position it was opened at:
  whatever the connection does after it is part of the header and the rest of the file.
\<close>

lemma short_response:
  assumes io: "net_io L file_data file_pos sent"
    and route: "route_of (rq_target req) = ContentRoute sub" and meth: "rq_method req \<noteq> Head"
    and resp: "create_response L S sub req db = Inr (resp, f, len)"
    and short: "length (drop (file_pos f) (file_data f)) < unat len"
  shows "let (pt, s') = (resume L S config db ^^ n) (dispatch L S config db req, s)
      in pt \<noteq> AwaitRequest \<and> (\<exists>i. sent s' = sent s @ take i (header_bytes L resp @ drop (file_pos f) (file_data f)))"
    and "calls_succeed L \<Longrightarrow> length (drop (file_pos f) (file_data f)) < n \<Longrightarrow>
      \<exists>f' len' s'. (resume L S config db ^^ n) (dispatch L S config db req, s) = (AwaitBody f' len', s')
        \<and> sent s' = sent s @ header_bytes L resp @ drop (file_pos f) (file_data f)"
    and "calls_succeed L \<Longrightarrow> content_handle_request L S db fuel req sub s = None"
proof -
  let ?rest = "drop (file_pos f) (file_data f)"
  have point: "dispatch L S config db req = AwaitHeader (header_bytes L resp) False f len"
    using route meth resp by (simp add: dispatch_def content_point_def)
  have start: "short_body file_data file_pos sent (sent s) (header_bytes L resp) ?rest
      (AwaitHeader (header_bytes L resp) False f len, s)" using short by simp
  obtain pt s' where at: "(resume L S config db ^^ n) (dispatch L S config db req, s) = (pt, s')" by fastforce
  have "short_body file_data file_pos sent (sent s) (header_bytes L resp) ?rest (pt, s')"
    using short_body_steps [OF io start, of n S config db] at by (simp only: point)
  then show "let (pt, s') = (resume L S config db ^^ n) (dispatch L S config db req, s)
      in pt \<noteq> AwaitRequest \<and> (\<exists>i. sent s' = sent s @ take i (header_bytes L resp @ ?rest))"
    using short_body_prefix [of file_data file_pos sent "sent s" "header_bytes L resp" ?rest pt s']
    unfolding at Let_def prod.case by (intro conjI) auto
  show "\<exists>f' len' s'. (resume L S config db ^^ n) (dispatch L S config db req, s) = (AwaitBody f' len', s')
        \<and> sent s' = sent s @ header_bytes L resp @ ?rest"
    if "calls_succeed L" "length ?rest < n"
    using short_body_sent [OF io that(1) start that(2), of S config db] by (simp only: point)
  show "content_handle_request L S db fuel req sub s = None" if "calls_succeed L"
    by (rule net_io.content_stuck [OF io that resp meth short])
qed

lemma short_response_runs:
  assumes "net_io L file_data file_pos sent"
    and "route_of (rq_target req) = ContentRoute sub" and "rq_method req \<noteq> Head"
    and "create_response L S sub req db = Inr (resp, f, len)"
    and "length (drop (file_pos f) (file_data f)) < unat len"
  shows "(\<forall>n. let (pt, s') = (resume L S config db ^^ n) (dispatch L S config db req, s)
      in pt \<noteq> AwaitRequest \<and> (\<exists>i. sent s' = sent s @ take i (header_bytes L resp @ drop (file_pos f) (file_data f))))
    \<and> (calls_succeed L \<longrightarrow>
        (\<forall>n > length (drop (file_pos f) (file_data f)). \<exists>f' len' s'.
          (resume L S config db ^^ n) (dispatch L S config db req, s) = (AwaitBody f' len', s')
          \<and> sent s' = sent s @ header_bytes L resp @ drop (file_pos f) (file_data f))
        \<and> (\<forall>fuel. content_handle_request L S db fuel req sub s = None))"
  using short_response(1) [OF assms] short_response(2,3) [OF assms] by (intro conjI allI impI)

end
