(* ===== verification/ServiceProperties.thy ===== *)
theory ServiceProperties
  imports Fixtures ShortBody
begin

text \<open>
  The properties of the services that face the network: what a connection sends, content ranges,
  Browse, links, the device description's routes, and discovery. Each is followed by a witness on
  the reference instances.
\<close>

section \<open>Connections\<close>

text \<open>
  C13: a connection sends the answers of its requests, in order, and nothing else. Whatever calls fail,
  when the loop over requests ends, some requests were served to the next read, exactly their
  answers have been sent, one after the other, and the request that was not finished (if the end was
  not a failed read) has got at most a prefix of its answer, nothing if it has none.
\<close>

theorem connection_sends_answers:
  assumes io: "net_io L file_data file_pos sent"
    and run: "handle_connections L S config db fuel requests s = Some s'"
  shows "\<exists>reqs bss s1 unfinished i. serves L S config db fuel s reqs s1
    \<and> map (answer L file_data file_pos S config db) reqs = map Some bss
    \<and> connection_ends L S config db fuel s1 unfinished s'
    \<and> sent s' = sent s @ concat bss @ take i (case unfinished of None \<Rightarrow> [] | Some req \<Rightarrow>
          (case answer L file_data file_pos S config db req of None \<Rightarrow> [] | Some bs \<Rightarrow> bs))"
proof -
  obtain reqs s1 unfinished where served: "serves L S config db fuel s reqs s1"
    "connection_ends L S config db fuel s1 unfinished s'"
    using handle_connections_serves [OF serves.start run] by auto
  from serves_answers [OF io served(1)] connection_ends_sent [OF io served(2)] served
  show ?thesis by fastforce
qed

lemma connection_sends_answers_witness:
  "\<exists>s' reqs bss s1 unfinished i.
     handle_connections ref_web ref_lib ref_server ref_db1 2 2 ([], [ref_get_root]) = Some s'
     \<and> fst s' \<noteq> []
     \<and> serves ref_web ref_lib ref_server ref_db1 2 ([], [ref_get_root]) reqs s1
     \<and> map (answer ref_web (\<lambda>_. ref_file) (\<lambda>f. f) ref_lib ref_server ref_db1) reqs = map Some bss
     \<and> fst s' = concat bss @ take i (case unfinished of None \<Rightarrow> [] | Some req \<Rightarrow>
          (case answer ref_web (\<lambda>_. ref_file) (\<lambda>f. f) ref_lib ref_server ref_db1 req of
             None \<Rightarrow> [] | Some bs \<Rightarrow> bs))"
proof -
  obtain bs where run: "handle_connections ref_web ref_lib ref_server ref_db1 2 (Suc (Suc 0)) ([], [ref_get_root]) =
      Some (bs, [])" "bs \<noteq> []"
    by (simp add: serve_request_def ref_get_root_route send_or_terminate_def write_response_def ref_stream_simps)
  from connection_sends_answers [OF net_io_ref run(1)] run show ?thesis
    by (simp add: numeral_2_eq_2) fastforce
qed

text \<open>
  C14: requests are answered. If no system call fails and the files behind content responses hold what
  the responses announce, a request with an answer is served completely and the connection goes on
  to the next one; a request without an answer ends the connection with nothing sent.
\<close>

theorem request_is_answered:
  assumes io: "net_io L file_data file_pos sent" and ok: "calls_succeed L"
    and within: "\<And>sub r. route_of (rq_target req) = ContentRoute sub \<Longrightarrow> create_response L S sub req db = Inr r
        \<Longrightarrow> announces_within file_data file_pos r \<and> body_fuel (unat (snd (snd r))) \<le> fuel"
  shows "case answer L file_data file_pos S config db req of
      Some bs \<Rightarrow> \<exists>s'. serve_request L S config db fuel req s = Some (Continue, s') \<and> sent s' = sent s @ bs
    | None \<Rightarrow> \<exists>e. serve_request L S config db fuel req s = Some (Terminated e, s)"
  by (rule serve_request_progress [OF io ok within])

lemma request_is_answered_witness:
  "\<exists>s'. serve_request ref_web ref_lib ref_server ref_db1 0 ref_get_root ([], []) =
     Some (Continue, s') \<and> fst s' \<noteq> []"
proof -
  have "answer ref_web (\<lambda>_. ref_file) (\<lambda>f. f) ref_lib ref_server ref_db1 ref_get_root =
      Some (message_bytes ref_web (make_error_response (beast_version ref_web) 200 welcome_page
        ref_get_root))"
    by (simp add: answer_def ref_get_root_route)
  moreover have "message_bytes ref_web resp \<noteq> []" for resp by (simp add: ref_web_def ref_header_def)
  ultimately show ?thesis
    using request_is_answered [OF net_io_ref ref_calls_succeed, of ref_get_root
        ref_lib ref_db1 0 ref_server "([], [])"]
    by (auto simp: ref_get_root_route)
qed

section \<open>Content\<close>

text \<open>
  C15: a range request with both positions inside the file, and another method than HEAD, is answered
  with status 206, the announced positions and length, and exactly those bytes of the file, if no call
  fails. The resource is found through the library, by the identifier in the target.
\<close>

theorem range_request_sends_slice:
  assumes backend: "store_backend S entries snapshot pos" and util: "util L"
    and io: "net_io L file_data file_pos sent" and ok: "calls_succeed L"
    and sound: "sound_entries S (entries db)"
    and stored: "resource_file L (library_of S (entries db)) i f"
    and asked: "field_value (rq_fields req) ''Range'' = ''bytes='' @ show_nat a @ ''-'' @ show_nat b"
    and inside: "a \<le> b" "b < length (file_data f)"
    and meth: "rq_method req \<noteq> Head" and fuel: "body_fuel (b - a + 1) \<le> fuel"
  shows "\<exists>resp s'. content_handle_request L S db fuel req (show_int (sint i)) s = Some (Inr True, s')
    \<and> rs_status resp = 206
    \<and> field_value (rs_fields resp) ''Content-Length'' = show_nat (b - a + 1)
    \<and> field_value (rs_fields resp) ''Content-Range'' =
        ''bytes '' @ show_nat a @ ''-'' @ show_nat b @ ''/'' @ show_nat (length (file_data f))
    \<and> sent s' = sent s @ header_bytes L resp @ take (b - a + 1) (drop a (file_data f))"
proof -
  have size: "length (file_data f) < 2 ^ 64" by (rule net_io.file_length_bound [OF io ok])
  with inside have "a < 2 ^ 64" "b < 2 ^ 64" by simp_all
  from util.requested_range_closed [OF util asked this]
  have resp: "create_response L S (show_int (sint i)) req db =
      ranged_response L req (Some (word_of_nat a), Some (word_of_nat b)) f"
    by (rule create_response_file [OF backend util sound stored])
  show ?thesis
  proof (rule net_io.slice_sends [OF io ok meth resp _ _ inside fuel])
    fix len :: "64 word"
    assume "unat len = length (file_data f)"
    with inside have "word_of_nat a \<le> (word_of_nat b :: 64 word)" "word_of_nat a < len"
      using word_of_nat_le64 [OF inside(1) \<open>b < 2 ^ 64\<close>] by (auto intro: word_of_nat_less64)
    then show "select_range (fst (Some (word_of_nat a), Some (word_of_nat b)))
        (snd (Some (word_of_nat a), Some (word_of_nat b))) len = Inr (word_of_nat a, word_of_nat b)"
      by (simp add: select_range_closed)
  qed simp
qed

lemma range_request_sends_slice_witness:
  "\<exists>resp s'. content_handle_request ref_web ref_lib ref_db1 2 (ref_get [(''Range'', ''bytes='' @ show_nat 2 @ ''-'' @ show_nat 4)])
       (show_int (sint (0 :: int64))) ([], []) = Some (Inr True, s')
     \<and> rs_status resp = 206 \<and> fst s' = header_bytes ref_web resp @ ''234''"
proof -
  let ?req = "ref_get [(''Range'', ''bytes='' @ show_nat 2 @ ''-'' @ show_nat 4)]"
  have asked: "field_value (rq_fields ?req) ''Range'' = ''bytes='' @ show_nat 2 @ ''-'' @ show_nat 4"
    by (simp add: ref_get_def)
  have "(2 :: nat) \<le> 4" "4 < length ((\<lambda>_. ref_file) (0 :: nat))" by (simp_all add: ref_file_def)
  from range_request_sends_slice [OF store_backend_ref ref_util_web net_io_ref ref_calls_succeed
      ref_sound1 ref_film_file asked this, of 2 "([], [])"]
  show ?thesis by (simp add: ref_get_def body_fuel_def ref_file_def) blast
qed

text \<open>
  C16: a request without a range, and with another method than HEAD, is answered with status 200, the
  length of the file and the whole file, if no call fails.
\<close>

theorem request_sends_file:
  assumes backend: "store_backend S entries snapshot pos" and util: "util L"
    and io: "net_io L file_data file_pos sent" and ok: "calls_succeed L"
    and sound: "sound_entries S (entries db)"
    and stored: "resource_file L (library_of S (entries db)) i f"
    and asked: "field_value (rq_fields req) ''Range'' = []"
    and meth: "rq_method req \<noteq> Head" and fuel: "body_fuel (length (file_data f)) \<le> fuel"
  shows "\<exists>resp s'. content_handle_request L S db fuel req (show_int (sint i)) s = Some (Inr True, s')
    \<and> rs_status resp = 200
    \<and> field_value (rs_fields resp) ''Content-Length'' = show_nat (length (file_data f))
    \<and> sent s' = sent s @ header_bytes L resp @ file_data f"
proof -
  have resp: "create_response L S (show_int (sint i)) req db = ranged_response L req (None, None) f"
    by (rule create_response_file [OF backend util sound stored requested_range_absent [OF asked]])
  obtain r len where r: "ranged_response L req (None, None) f = Inr (r, f, len)"
    "unat len = length (file_data f)" "rs_status r = 200"
    "field_value (rs_fields r) ''Content-Length'' = show_nat (length (file_data f))"
    by (rule net_io.full_response [OF io ok])
  have start: "file_pos f = 0" by (rule net_io.resource_file_pos [OF io stored])
  have "\<exists>s'. content_handle_request L S db fuel req (show_int (sint i)) s = Some (Inr True, s')
    \<and> sent s' = sent s @ header_bytes L r @ take (unat len) (drop (file_pos f) (file_data f))"
    by (rule net_io.content_sends [OF io ok _ meth]) (use resp r(1,2) start fuel in simp_all)
  with r start show ?thesis by auto
qed

lemma request_sends_file_witness:
  "\<exists>resp s'. content_handle_request ref_web ref_lib ref_db1 2 (ref_get []) (show_int (sint (0 :: int64))) ([], []) =
       Some (Inr True, s')
     \<and> rs_status resp = 200 \<and> fst s' = header_bytes ref_web resp @ ref_file"
proof -
  have "field_value (rq_fields (ref_get [])) ''Range'' = []" "rq_method (ref_get []) \<noteq> Head"
    "body_fuel (length ((\<lambda>_. ref_file) (0 :: nat))) \<le> 2"
    by (simp_all add: ref_get_def body_fuel_def ref_file_def)
  from request_sends_file [OF store_backend_ref ref_util_web net_io_ref ref_calls_succeed
      ref_sound1 ref_film_file this, of "([], [])"]
  show ?thesis by auto
qed

text \<open>
  C17: a range that starts inside the file and ends behind it is never served to its end. RFC 7233 lets
  a client ask for more than there is, and a server answers with what it has; this one announces the
  positions and the length it was asked for. Whatever calls fail, after any number of steps the
  connection has sent part of the header and of the rest of the file, and it does not wait for another
  request. If its calls succeed, then once all of that is sent it stays in the body's loop and sends nothing
  more, and the handler returns for no amount of fuel. (The expiry set before the request was read
  makes a call fail at some time, and the connection ends, still short of what was announced.)
\<close>

theorem range_past_end_never_finishes:
  assumes backend: "store_backend S entries snapshot pos" and util: "util L"
    and io: "net_io L file_data file_pos sent"
    and size: "f_size L f = Inr sz" and seek: "f_seek L (word_of_nat a) f = Inr g"
    and sound: "sound_entries S (entries db)"
    and stored: "resource_file L (library_of S (entries db)) i f"
    and route: "route_of (rq_target req) = ContentRoute (show_int (sint i))"
    and asked: "field_value (rq_fields req) ''Range'' = ''bytes='' @ show_nat a @ ''-'' @ show_nat b"
    and past: "a < length (file_data f)" "length (file_data f) \<le> b" "b < 2 ^ 64 - 1"
    and meth: "rq_method req \<noteq> Head"
  shows "\<exists>resp len. create_response L S (show_int (sint i)) req db = Inr (resp, g, len)
    \<and> rs_status resp = 206
    \<and> field_value (rs_fields resp) ''Content-Length'' = show_nat (b - a + 1)
    \<and> field_value (rs_fields resp) ''Content-Range'' =
        ''bytes '' @ show_nat a @ ''-'' @ show_nat b @ ''/'' @ show_nat (length (file_data f))
    \<and> (\<forall>n. let (pt, s') = (resume L S config db ^^ n) (dispatch L S config db req, s)
         in pt \<noteq> AwaitRequest \<and> (\<exists>i. sent s' = sent s @ take i (header_bytes L resp @ drop a (file_data f))))
    \<and> (calls_succeed L \<longrightarrow>
         (\<forall>n > length (drop a (file_data f)). \<exists>f' len' s'.
            (resume L S config db ^^ n) (dispatch L S config db req, s) = (AwaitBody f' len', s')
            \<and> sent s' = sent s @ header_bytes L resp @ drop a (file_data f))
         \<and> (\<forall>fuel. content_handle_request L S db fuel req (show_int (sint i)) s = None))"
proof -
  have b: "b < 2 ^ 64" "a \<le> b" using past by simp_all
  then have "a < 2 ^ 64" by simp
  then have ua: "unat (word_of_nat a :: 64 word) = a" and ub: "unat (word_of_nat b :: 64 word) = b"
    using b(1) by (simp_all add: unat_of_nat64)
  note len = net_io.size_ok [OF io size]
  from util.requested_range_closed [OF util asked \<open>a < 2 ^ 64\<close> b(1)]
  have created: "create_response L S (show_int (sint i)) req db =
      ranged_response L req (Some (word_of_nat a), Some (word_of_nat b)) f"
    by (rule create_response_file [OF backend util sound stored])
  have n: "unat (word_of_nat b - word_of_nat a + 1 :: 64 word) = b - a + 1"
    using past(3) by (intro unat_announced [OF b(2) _ b(1)]) simp
  have "word_of_nat a < sz" using past(1) len by (intro word_of_nat_less64) simp
  then have sel: "select_range (fst (Some (word_of_nat a), Some (word_of_nat b)))
      (snd (Some (word_of_nat a), Some (word_of_nat b))) sz = Inr (word_of_nat a, word_of_nat b)"
    using word_of_nat_le64 [OF b(2,1)] by (simp add: select_range_closed)
  obtain resp where r: "create_response L S (show_int (sint i)) req db =
      Inr (resp, g, word_of_nat b - word_of_nat a + 1)" "file_data g = file_data f" "file_pos g = a"
    "rs_status resp = 206" "field_value (rs_fields resp) ''Content-Length'' = show_nat (b - a + 1)"
    "field_value (rs_fields resp) ''Content-Range'' =
      ''bytes '' @ show_nat a @ ''-'' @ show_nat b @ ''/'' @ show_nat (length (file_data f))"
    by (rule net_io.partial_response_at [OF io size seek _ sel, of req])
      (simp_all only: created ua ub n show_word_def option.distinct prod.inject simp_thms)
  have "length (drop (file_pos g) (file_data g)) < unat (word_of_nat b - word_of_nat a + 1 :: 64 word)"
    unfolding n r(2,3) using past by simp
  from short_response_runs [OF io route meth r(1) this, unfolded r(2,3), of config s] r(1,4-6)
  show ?thesis by (intro exI conjI) (elim conjE, assumption)+
qed

definition past_end_request :: http_request where
  "past_end_request = ref_get [(''Range'', ''bytes='' @ show_nat 2 @ ''-'' @ show_nat 1000)]"

lemma range_past_end_never_finishes_witness:
  "\<exists>resp. field_value (rs_fields resp) ''Content-Length'' = show_nat 999
     \<and> (\<forall>n > 8. \<exists>f' len' s'.
          (resume ref_web ref_lib ref_server ref_db1 ^^ n)
            (dispatch ref_web ref_lib ref_server ref_db1 past_end_request, [], []) = (AwaitBody f' len', s')
          \<and> fst s' = header_bytes ref_web resp @ drop 2 ref_file)
     \<and> (\<forall>fuel. content_handle_request ref_web ref_lib ref_db1 fuel past_end_request
          (show_int (sint (0 :: int64))) ([], []) = None)"
proof -
  have asked: "field_value (rq_fields past_end_request) ''Range'' = ''bytes='' @ show_nat 2 @ ''-'' @ show_nat 1000"
    "rq_method past_end_request \<noteq> Head" "rq_target past_end_request = ''/content/0''"
    by (simp_all add: past_end_request_def ref_get_def)
  have route: "route_of (rq_target past_end_request) = ContentRoute (show_int (sint (0 :: int64)))"
    unfolding asked(3) by code_simp
  have opened: "f_size ref_web 0 = Inr (word_of_nat (length ref_file))" "f_seek ref_web (word_of_nat 2) 0 = Inr 2"
    by (simp_all add: ref_web_def)
  have "2 < length ((\<lambda>_. ref_file) (0 :: nat))" "length ((\<lambda>_. ref_file) (0 :: nat)) \<le> 1000"
    "length (drop 2 ref_file) = 8" by (simp_all add: ref_file_def)
  with range_past_end_never_finishes [OF store_backend_ref ref_util_web net_io_ref opened
      ref_sound1 ref_film_file route asked(1) _ _ _ asked(2), of ref_server "([], [])"] ref_calls_succeed
  show ?thesis by auto
qed




section \<open>Browse\<close>

text \<open>
  C19: browsing an object of a well-formed library. The children of a container: the requested page, that
  is the nodes of the children from the starting index, as many as requested (all of them for a count
  of zero), with their number and the number of all children. The metadata of any object: its one node.
\<close>

theorem browse_returns_page:
  assumes backend: "store_backend S entries snapshot pos" and util: "util L"
    and served: "served S (entries db)"
    and ob: "lib_objects (library_of S (entries db)) i = Some ob"
    and args: "browse_arguments info flag (sint i) start cnt"
    and bounds: "start < 2 ^ 32" "cnt < 2 ^ 32"
    and asked: "flag = ''BrowseDirectChildren'' \<and> children ob = Some ks \<and> length ks < 2 ^ 32
      \<or> flag = ''BrowseMetadata'' \<and> start = 0"
  shows "cds_browse L S config db info =
    (let node = media_node L S (sv_base_url config);
         page = (if cnt = 0 then drop start ks else take cnt (drop start ks));
         child = (\<lambda>k. the (lib_objects (library_of S (entries db)) (key_id (fb_key_root S k))));
         (nodes, total) = (if flag = ''BrowseMetadata'' then ([node ob], 1) else (map (node \<circ> child) page, length ks))
     in Inr (xml_print L (browse_document (length nodes) total
          (xml_print L (didl_document nodes) @ [NUL]))))"
proof -
  have lib: "store_backend.sound_db S entries db" "wf_library S (library_of S (entries db))"
    using served by (simp_all add: served_def store_backend.sound_db_def [OF backend])
  from asked show ?thesis
  proof
    assume c: "flag = ''BrowseDirectChildren'' \<and> children ob = Some ks \<and> length ks < 2 ^ 32"
    with store_backend.cds_browse_children [OF backend util lib ob _ _ bounds, of ks info config] args
    show ?thesis
      by (simp add: listing_page_def listed_nodes_def listed_object_def comp_def)
  next
    assume "flag = ''BrowseMetadata'' \<and> start = 0"
    with store_backend.cds_browse_metadata [OF backend util lib ob _ bounds(2), of info config] args
    show ?thesis by simp
  qed
qed

lemma browse_returns_page_witness:
  "cds_browse ref_web ref_lib ref_server ref_db1 (ref_browse 0) =
     Inr (xml_print ref_web (browse_document 1 1
       (xml_print ref_web (didl_document [media_node ref_web ref_lib ''http://nas:80'' ref_film]) @ [NUL])))"
proof -
  have "browse_arguments (ref_browse 0) ''BrowseDirectChildren'' (sint (0 :: int64)) 0 0"
    using ref_browse_arguments [of 0] by simp
  from browse_returns_page [OF store_backend_ref ref_util_web ref_db1_library(1) ref_db1_objects(1) this _ _
      disjI1 [OF conjI [OF refl conjI [OF ref_root_children]]], of ref_server]
  show ?thesis
    by (simp add: ref_db1_objects ref_server_def default_server_config_def
        ref.roots [unfolded ref_lib_key])
qed

text \<open>
  C20: pages of a fixed size, asked for one after the other, show every child of a container exactly once
  and in order: each Browse is answered with a page, each answer counts the nodes of its page and all
  the children, and the pages together are the nodes of the children.
\<close>

theorem pages_cover_listing:
  assumes backend: "store_backend S entries snapshot pos" and util: "util L"
    and served: "served S (entries db)"
    and ob: "lib_objects (library_of S (entries db)) i = Some ob" "children ob = Some ks"
    and args: "\<And>p. p < pages \<Longrightarrow> browse_arguments (infos p) ''BrowseDirectChildren'' (sint i) (p * cnt) cnt"
    and enough: "0 < cnt" "length ks \<le> pages * cnt" "pages * cnt < 2 ^ 32"
  shows "\<exists>shown. (\<forall>p < pages. cds_browse L S config db (infos p) =
        Inr (xml_print L (browse_document (length (shown p)) (length ks)
          (xml_print L (didl_document (shown p)) @ [NUL]))))
    \<and> concat (map shown [0..<pages]) =
        map (\<lambda>k. media_node L S (sv_base_url config)
               (the (lib_objects (library_of S (entries db)) (key_id (fb_key_root S k))))) ks"
proof -
  have lib: "store_backend.sound_db S entries db" "wf_library S (library_of S (entries db))"
    using served by (simp_all add: served_def store_backend.sound_db_def [OF backend])
  let ?node = "\<lambda>k. media_node L S (sv_base_url config)
    (the (lib_objects (library_of S (entries db)) (key_id (fb_key_root S k))))"
  let ?shown = "\<lambda>p. map ?node (listing_page (p * cnt) cnt ks)"
  have "length ks < 2 ^ 32" using enough(2,3) by (rule le_less_trans)
  then have "cds_browse L S config db (infos p) =
      Inr (xml_print L (browse_document (length (?shown p)) (length ks)
        (xml_print L (didl_document (?shown p)) @ [NUL])))" if "p < pages" for p
    using store_backend.cds_browse_children [OF backend util lib ob args [OF that]
        listing_page_bound [OF that enough(3)], of config]
    by (simp add: listed_nodes_def listed_object_def)
  moreover have "concat (map ?shown [0..<pages]) = map ?node ks"
    using arg_cong [OF listing_pages_cover [OF enough(1,2)], of "map ?node"] by (simp add: map_concat comp_def)
  ultimately show ?thesis by (intro exI [of _ ?shown]) simp
qed

lemma pages_cover_listing_witness:
  "\<exists>shown. cds_browse ref_web ref_lib ref_server ref_db1 (ref_page 0 1) =
       Inr (xml_print ref_web (browse_document (length shown) 1
         (xml_print ref_web (didl_document shown) @ [NUL])))
     \<and> shown = [media_node ref_web ref_lib ''http://nas:80'' ref_film]"
proof -
  have "browse_arguments (ref_page (p * 1) 1) ''BrowseDirectChildren'' (sint (0 :: int64)) (p * 1) 1" for p
    using ref_page_arguments [of "p * 1" 1] by simp
  from pages_cover_listing [OF store_backend_ref ref_util_web ref_db1_library(1) ref_db1_objects(1)
      ref_root_children this, of 1 ref_server]
  show ?thesis
    by (auto simp: ref_db1_objects ref_server_def default_server_config_def ref.roots [unfolded ref_lib_key])
qed

text \<open>
  C21: every object of a well-formed library can be serialised: no exception, no use of a missing key,
  one node each, a \<^verbatim>\<open>container\<close> for a container and an \<^verbatim>\<open>item\<close> for an item, with
  its identifiers and title, a link for each of its resources and for each piece of its artwork, in
  order, and no other links.
\<close>

theorem well_formed_objects_serialize:
  assumes F: "flatbuffers F" and wf: "wf_library F lib" and ob: "lib_objects lib i = Some ob"
  shows "\<exists>name attrs fs. serialize_media_object U F base ob = Inr (Some (Element name attrs fs))
    \<and> name = (if children ob = None then ''item'' else ''container'')
    \<and> attrs = [(''id'', show_int (sint i)), (''parentID'', show_int (sint (mo_parent_id ob))), (''restricted'', ''1'')]
    \<and> (\<exists>title. mo_dc_title ob = put_string title \<and> hd fs = text_element ''dc:title'' (c_str title))
    \<and> links_named ''res'' fs = map (\<lambda>r. link_of F base (rr_ref r)) (resource_list ob)
    \<and> links_named ''upnp:albumArtURI'' fs = map (\<lambda>aw. link_of F base (aw_ref aw)) (artwork_list ob)"
proof -
  note wfo = wf_libraryD(3) [OF wf ob]
  have total: "serialize_media_object U F base ob = Inr (Some (media_node U F base ob))"
    by (rule flatbuffers.serialize_media_object_total [OF F wfo])
  obtain title where title: "mo_dc_title ob = put_string title"
    using wfo by (auto simp: wf_object_def elim: stored_stringE)
  then have t: "as_cstring (mo_dc_title ob) = Inr (c_str title)"
    by (simp add: as_cstring_put_string c_str_def)
  have "\<exists>name attrs fs. x = Element name attrs fs
    \<and> name = (if children ob = None then ''item'' else ''container'') \<and> attrs = common_attributes ob
    \<and> hd fs = text_element ''dc:title'' (c_str title)"
    if "serialize_media_object U F base ob = Inr (Some x)" for x
    using that
    by (auto simp: serialize_media_object_def serialize_common_fields_def t children_def bindE_eq_Inr
        split: ObjectUnion.splits)
  from this [OF total] total obtain name attrs fs where
    node: "serialize_media_object U F base ob = Inr (Some (Element name attrs fs))"
    "name = (if children ob = None then ''item'' else ''container'')" "attrs = common_attributes ob"
    "hd fs = text_element ''dc:title'' (c_str title)" by metis
  from node serialize_media_object_links [OF node(1)] title wf_libraryD(1) [OF wf ob] show ?thesis
    by (intro exI [of _ name] exI [of _ attrs] exI [of _ fs]) (auto simp: common_attributes_def)
qed

lemma well_formed_objects_serialize_witness:
  "\<exists>fs. serialize_media_object ref_web ref_lib ''http://nas:80'' ref_film =
     Inr (Some (Element ''item'' [(''id'', show_int 1), (''parentID'', show_int 0), (''restricted'', ''1'')] fs))
     \<and> length (links_named ''res'' fs) = 1"
proof -
  have F: "flatbuffers ref_lib" by (rule ref.flatbuffers_axioms)
  have wf: "wf_library ref_lib (library_of ref_lib ref_db1)"
    using ref_db1_library(1) by (simp add: served_def)
  have "children ref_film = None" by (simp add: ref_film_def children_def)
  with well_formed_objects_serialize [OF F wf ref_db1_objects(2), of ref_web "''http://nas:80''"]
  show ?thesis by (auto simp: ref_film_def resource_list_def)
qed

text \<open>
  C22: links lead back. The URL a listing gives for a resource, without the server's base URL, is
  routed to the content service, which answers with that resource's file.
\<close>

theorem resource_links_lead_back:
  assumes backend: "store_backend S entries snapshot pos" and util: "util L"
    and sound: "sound_entries S (entries db)"
    and stored: "resource_file L (library_of S (entries db)) i f"
    and rng: "requested_range L req = Inr rng"
  shows "\<exists>sub. route_of (drop (length base) (resource_url base i)) = ContentRoute sub
    \<and> create_response L S sub req db = ranged_response L req rng f"
  using route_of_resource_url [of base i] create_response_file [OF backend util sound stored rng] by blast

lemma resource_links_lead_back_witness:
  "\<exists>sub. route_of (drop (length ''http://nas:80'') (resource_url ''http://nas:80'' 0)) = ContentRoute sub
    \<and> create_response ref_web ref_lib sub (ref_get []) ref_db1 = ranged_response ref_web (ref_get []) (None, None) 0"
proof -
  have "requested_range ref_web (ref_get []) = Inr (None, None)"
    by (rule requested_range_absent) (simp add: ref_get_def)
  from resource_links_lead_back [OF store_backend_ref ref_util_web ref_sound1 ref_film_file this, of "''http://nas:80''"]
  show ?thesis .
qed

section \<open>Dispatch\<close>

text \<open>
  C23: a Browse that the library cannot answer ends the connection. The children or the metadata of an
  object that is not stored, and the children of an item: the store throws a plain
  \<^verbatim>\<open>std::runtime_error\<close>, which neither catch clause around the services takes, so the client gets no
  response at all, where the content directory service defines the error 701 (no such object).
\<close>

theorem browse_missing_drops_connection:
  assumes backend: "store_backend S entries snapshot pos" and util: "util L"
    and sound: "sound_entries S (entries db)"
    and failure: "browse_failure (library_of S (entries db)) flag i = Some what"
    and route: "route_of (rq_target req) = UpnpRoute ''cds''"
    and soap: "parse_soap_request L req = Inr info" "sa_action info = ''Browse''"
    and args: "browse_arguments info flag (sint i) start cnt"
    and bounds: "start < 2 ^ 32" "cnt < 2 ^ 32" "flag = ''BrowseMetadata'' \<longrightarrow> start = 0"
  shows "serve_request L S config db fuel req s = Some (Terminated (RuntimeError what), s)"
proof -
  have "store_backend.sound_db S entries db"
    using sound by (simp add: store_backend.sound_db_def [OF backend])
  from store_backend.cds_browse_fails [OF backend util this failure args bounds]
  have "upnp_reply L S config db req ''cds'' = Inl (RuntimeError what)"
    by (simp add: upnp_reply_def soap)
  then show ?thesis
    by (simp add: serve_request_def route handle_upnp_request_eq handle_exception_def)
qed

lemma browse_missing_drops_connection_witness:
  "serve_request ref_web ref_lib ref_server ref_db1 0 (ref_browse_request 7) ([], []) =
     Some (Terminated (RuntimeError ''Container not found''), ([], []))
   \<and> (\<exists>what. serve_request ref_web ref_lib ref_server ref_db1 0 (ref_browse_request 1) ([], []) =
       Some (Terminated (RuntimeError what), ([], [])))"
proof -
  note dropped = browse_missing_drops_connection [OF store_backend_ref ref_util_web ref_sound1 _
      ref_browse_route ref_browse_parsed, where config = ref_server and fuel = 0 and s = "([], [])"]
  have "lib_objects (library_of ref_lib ref_db1) 7 = None"
    by (simp add: ref_db1_library put_items_spec_def ref_fresh ref_film_def)
  then have none: "browse_failure (library_of ref_lib ref_db1) ''BrowseDirectChildren'' 7 =
      Some ''Container not found''" by (simp add: browse_failure_def)
  have film: "browse_failure (library_of ref_lib ref_db1) ''BrowseDirectChildren'' 1 =
      Some (''Object is not a container. type='' @ show_nat (ObjectUnion_code (mo_data ref_film)))"
    by (simp add: browse_failure_def ref_db1_objects children_def) (simp add: ref_film_def)
  have args: "browse_arguments (ref_browse 7) ''BrowseDirectChildren'' (sint (7 :: int64)) 0 0"
    "browse_arguments (ref_browse 1) ''BrowseDirectChildren'' (sint (1 :: int64)) 0 0"
    using ref_browse_arguments [of 7] ref_browse_arguments [of 1] by simp_all
  from dropped [OF none _ args(1)] dropped [OF film _ args(2)] show ?thesis by (auto simp: ref_browse_def)
qed

section \<open>Discovery\<close>

text \<open>
  C24: a search is answered exactly when it is an \<^verbatim>\<open>M-SEARCH * \<close> with the \<^verbatim>\<open>ssdp:discover\<close>
  marker for the root device or a media server; the answer names what was searched for and the
  server's identifier, and its location, without the base URL, is routed to the device description.
\<close>

theorem search_is_answered:
  "(handle_request D config req \<noteq> None \<longleftrightarrow>
      rq_method req = Msearch \<and> rq_target req = ''*''
      \<and> field_value (rq_fields req) ''MAN'' = ssdp_discover
      \<and> field_value (rq_fields req) ''st'' \<in> {''upnp:rootdevice'', media_server_urn})
   \<and> (\<forall>resp. handle_request D config req = Some resp \<longrightarrow>
        rs_status resp = 200
        \<and> field_value (rs_fields resp) ''st'' = field_value (rq_fields req) ''st''
        \<and> field_value (rs_fields resp) ''usn'' =
            ''uuid:'' @ udp_uuid_string D (sv_uuid config) @ ''::'' @ field_value (rq_fields req) ''st''
        \<and> route_of (drop (length (sv_base_url config)) (field_value (rs_fields resp) ''Location'')) =
            UpnpRoute ''device'')"
proof -
  have "route_of (''/'' @ ''upnp'' @ ''/'' @ ''device'') = UpnpRoute ''device''"
    by (subst route_of_service) simp_all
  then show ?thesis
    using handle_request_Some [of D config req] handle_request_fields [of D config req] by auto
qed

lemma search_is_answered_witness:
  "\<exists>resp. handle_request ref_udp ref_server ref_search = Some resp \<and> rs_status resp = 200"
proof -
  have "handle_request ref_udp ref_server ref_search \<noteq> None"
    unfolding search_is_answered [THEN conjunct1] by (simp add: ref_search_def, code_simp)
  then show ?thesis
    using search_is_answered [of ref_udp ref_server ref_search] by auto
qed

text \<open>
  C25: one round of discovery. A datagram that parses is answered to its sender with the whole
  serialised response of the request handler, or not at all.
\<close>

theorem datagram_is_replied:
  assumes Z: "serializer D pending message"
    and recv: "udp_receive D 1500 k = (Inr (datagram, sender), k')"
    and parsed: "deserialize_request (udp_parser D) fuel datagram = Some (Inr req)"
    and fuel: "\<And>resp. handle_request D config req = Some resp \<Longrightarrow> length (message resp) \<le> fuel"
  shows "discovery_round D config fuel k =
    (case handle_request D config req of
       None \<Rightarrow> Some (Inr (), k')
     | Some resp \<Rightarrow>
         (case udp_send D (message resp) sender k' of
            (Some ec, k'') \<Rightarrow> Some (Inl (SystemError ec), k'')
          | (None, k'') \<Rightarrow> Some (Inr (), k'')))"
  by (rule discovery_round_replies [OF Z recv parsed fuel])

lemma datagram_is_replied_witness:
  "\<exists>resp fuel. discovery_round ref_udp ref_server fuel ([''M-SEARCH''], []) =
     Some (Inr (), ([], [(ref_header resp, 0)]))"
proof -
  obtain resp where resp: "handle_request ref_udp ref_server ref_search = Some resp"
    using ref_search_answered by blast
  let ?fuel = "Suc (length (ref_header resp))"
  have "discovery_round ref_udp ref_server ?fuel ([''M-SEARCH''], []) =
    (case handle_request ref_udp ref_server ref_search of
       None \<Rightarrow> Some (Inr (), ([], []))
     | Some r \<Rightarrow>
         (case udp_send ref_udp (ref_header r) 0 ([], []) of
            (Some ec, k'') \<Rightarrow> Some (Inl (SystemError ec), k'')
          | (None, k'') \<Rightarrow> Some (Inr (), k'')))"
  proof (rule datagram_is_replied [OF ref_udp.serializer_axioms])
    show "udp_receive ref_udp 1500 ([''M-SEARCH''], []) = (Inr (''M-SEARCH'', 0), ([], []))"
      by (simp add: ref_udp_def)
    show "deserialize_request (udp_parser ref_udp) ?fuel ''M-SEARCH'' = Some (Inr ref_search)"
      by (simp add: ref_udp_def ref_parser_def deserialize_request_def)
  qed (use resp in simp)
  with resp show ?thesis by (auto simp: ref_udp_def intro!: exI [of _ resp] exI [of _ ?fuel])
qed

text \<open>
  C26: one malformed datagram ends discovery. The parser's error is thrown out of the service's loop, so
  however many rounds are left, no later datagram is received.
\<close>

theorem malformed_datagram_ends_discovery:
  assumes recv: "udp_receive D 1500 k = (Inr (datagram, sender), k')"
    and bad: "hp_put (udp_parser D) datagram (hp_new (udp_parser D)) = (Inl ec, p)"
  shows "run_service D config (Suc fuel) (Suc rounds) k =
    Some (Inl (SystemError (''Invalid HTTP Request: '' @ ec)), k')"
  by (rule run_service_stops, rule malformed_round [OF recv]) (simp add: deserialize_request_def bad)

lemma malformed_datagram_ends_discovery_witness:
  "run_service ref_udp ref_server (Suc 0) (Suc 5) ([''junk'', ''M-SEARCH''], []) =
     Some (Inl (SystemError (''Invalid HTTP Request: '' @ ''bad method'')), ([''M-SEARCH''], []))"
proof (rule malformed_datagram_ends_discovery [where p = False])
  have "''junk'' \<noteq> ''M-SEARCH''" by code_simp
  then show "hp_put (udp_parser ref_udp) ''junk'' (hp_new (udp_parser ref_udp)) = (Inl ''bad method'', False)"
    by (simp add: ref_udp_def ref_parser_def del: list.inject)
qed (simp add: ref_udp_def)

section \<open>Messages\<close>

text \<open>
  C27: draining a serializer terminates and appends the whole message to the buffer, however small its
  pieces are.
\<close>

theorem serialize_appends_message:
  assumes "serializer Z pending message" and "length (message m) \<le> fuel"
  shows "serialize Z fuel m buffer = Some (Inr (buffer @ message m))"
  using assms by (rule serializer.serialize_message)

lemma serialize_appends_message_witness:
  "serialize ref_udp 100 (new_response 200 11) ''x'' = Some (Inr (''x'' @ ref_header (new_response 200 11)))"
  by (rule serialize_appends_message [OF ref_udp.serializer_axioms]) code_simp

text \<open>
  C28: parsing a request from a datagram terminates, with at most one round per byte and one more.
\<close>

theorem deserialize_request_returns:
  assumes "request_parser P" and "length buffer < fuel"
  shows "deserialize_request P fuel buffer \<noteq> None"
  using assms by (rule request_parser.deserialize_request_terminates)

lemma deserialize_request_returns_witness: "deserialize_request ref_parser 9 ''M-SEARCH'' \<noteq> None"
  by (rule deserialize_request_returns [OF ref_parser.request_parser_axioms]) simp

text \<open>
  C29: a SOAP call is read as it was written. A request whose SOAPACTION header is written from a service
  without a hash and an action without a quote, and whose body holds one element of this action, with
  whatever prefix, around one element per argument, is read as that service, that action and those
  arguments.
\<close>

theorem soapaction_reads_back:
  assumes header: "service \<noteq> []" "CHR ''#'' \<notin> set service" "action \<noteq> []" "CHR 0x22 \<notin> set action"
      "field_value (rq_fields req) ''soapaction'' = quote @ service @ ''#'' @ action @ quote"
    and post: "rq_method req = Post" "starts_with (field_value (rq_fields req) ''Content-Type'') ''text/xml''"
    and body: "xml_load L (rq_body req) = Inr [Element envelope eas [Element body bas
        [Element (prefix @ '':'' @ action) cas (map (\<lambda>(n, t). text_element n t) args)]]]"
      "CHR '':'' \<notin> set prefix"
    and args: "distinct (map fst args)" "\<forall>(n, t) \<in> set args. NUL \<notin> set t"
  shows "\<exists>info. parse_soap_request L req = Inr info \<and> sa_service_id info = service \<and> sa_action info = action
    \<and> (\<forall>(n, t) \<in> set args. child_value n (sa_params info) = t)"
proof -
  let ?call = "Element (prefix @ '':'' @ action) cas (map (\<lambda>(n, t). text_element n t) args)"
  have "parse_soap_request L req = Inr \<lparr>sa_service_id = service, sa_action = action, sa_params = Some ?call\<rparr>"
    by (rule parse_soap_request_call [OF header post body(1) _ local_name_prefixed [OF body(2)]])
      (simp add: document_element_def)
  moreover have "child_value n (Some ?call) = t" if "(n, t) \<in> set args" for n t
    using child_value_arguments [OF args(1) that] args(2) that by auto
  ultimately show ?thesis by auto
qed

lemma soapaction_reads_back_witness:
  "\<exists>info. parse_soap_request ref_web (ref_browse_request 0) = Inr info \<and> sa_action info = ''Browse''
     \<and> child_value ''BrowseFlag'' (sa_params info) = ''BrowseDirectChildren''"
proof -
  let ?args = "[(''ObjectID'', show_int 0), (''BrowseFlag'', ''BrowseDirectChildren''),
    (''StartingIndex'', ''0''), (''RequestedCount'', ''0'')]"
  have names: "\<not> iequals ''Content-Type'' ''soapaction''" "iequals ''SOAPACTION'' ''soapaction''" by code_simp+
  have body: "xml_load ref_web (rq_body (ref_browse_request 0)) =
      Inr [Element ''s:Envelope'' [] [Element ''s:Body'' []
        [Element (''u'' @ '':'' @ ''Browse'') [] (map (\<lambda>(n, t). text_element n t) ?args)]]]"
    by (simp add: ref_web_def ref_load_def ref_browse_request_def ref_action_def)
  have "\<exists>info. parse_soap_request ref_web (ref_browse_request 0) = Inr info
      \<and> sa_service_id info = ''urn:schemas-upnp-org:service:ContentDirectory:1'' \<and> sa_action info = ''Browse''
      \<and> (\<forall>(n, t) \<in> set ?args. child_value n (sa_params info) = t)"
    by (rule soapaction_reads_back [OF _ _ _ _ _ _ _ body])
      (use show_int_plain in \<open>simp_all add: ref_browse_request_def names\<close>)
  then show ?thesis by auto
qed

end
