(* ===== verification/FirstScan.thy ===== *)
theory FirstScan
  imports Fixtures
begin

text \<open>
  A first start on the reference instances, run to its end: one directory with one film, scanned
  into a new database. The steps are evaluated one by one, the database's content being known
  through the specification of the store.
\<close>

definition one_film :: file_system where
  "one_film path = (if path = ''/films'' then Some [(''Alien.mkv'', RegularFile)] else None)"

definition one_film_start :: config where
  "one_film_start =
     default_config\<lparr>cf_directories := [\<lparr>dir_path = ''/films'', dir_scanner = default_movies_config\<rparr>]\<rparr>"

lemma one_film_names: "plain_names one_film"
  by (simp add: plain_names_def one_film_def split: if_splits)

definition alien_info :: file_info where
  "alien_info = \<lparr>fi_mime_type = ''video/x-matroska'', fi_path = ''/films/Alien.mkv''\<rparr>"

lemma alien_mime: "get_mime_type ''/films/Alien.mkv'' = Some ''video/x-matroska''"
  by code_simp

lemma alien_paths: "path_append ''/films'' ''Alien.mkv'' = ''/films/Alien.mkv''"
  "path_filename ''/films/Alien.mkv'' = ''Alien.mkv''" "path_stem ''/films'' = ''films''"
  by code_simp+

lemma alien_video: "is_video_type ''video/x-matroska''"
  by code_simp

lemma one_film_below: "film_below one_film ''/films'' ''/films/Alien.mkv''"
  unfolding film_below_def video_file_def
  by (intro exI [of _ "''/films''"] exI [of _ "[(''Alien.mkv'', RegularFile)]"] exI [of _ "''Alien.mkv''"])
    (simp add: in_tree.root one_film_def alien_mime alien_video alien_paths)

lemma one_film_listing:
  "scan_listing ''/films'' parent [(''Alien.mkv'', RegularFile)] =
     ([], [(''Alien.mkv'', alien_info)], new_composer parent)"
  by (simp add: scan_listing_def Let_def alien_mime alien_paths alien_video alien_info_def)

section \<open>The movies folder\<close>

lemma ref_next_ids: "get_next_id ref_lib ObjectKey ref_db0 = Inr 1" "get_next_id ref_lib ResourceKey ref_db0 = Inr 0"
proof -
  have db: "ref.sound_db ref_db0" using ref_served by (simp add: served_def ref.sound_db_def)
  have ids: "stored_ids ref_lib ObjectKey ref_db0 = {0}" "stored_ids ref_lib ResourceKey ref_db0 = {}"
    by (simp_all add: ref.stored_ids_library ref_fresh)
  show "get_next_id ref_lib ObjectKey ref_db0 = Inr 1"
    using ref.get_next_id_max [OF _ db, of ObjectKey] by (simp add: ids int64_max_def)
  show "get_next_id ref_lib ResourceKey ref_db0 = Inr 0"
    using ref.get_next_id_max [OF _ db, of ResourceKey] by (simp add: ids)
qed

definition folder_db :: ref_db where
  "folder_db = snd (put_items ref_lib 0 [fb_object ref_lib (movies_folder_object 1)] [] ref_db0)"

lemma folder_db_put:
  "put_items ref_lib 0 [fb_object ref_lib (movies_folder_object 1)] [] ref_db0 = (Inr (), folder_db)"
  "served ref_lib folder_db"
  "lib_objects (library_of ref_lib folder_db) 1 = Some (movies_folder_object 1)"
  "lib_objects (library_of ref_lib folder_db) 2 = None"
  "lib_resources (library_of ref_lib folder_db) = Map.empty"
proof -
  have db: "ref.sound_db ref_db0" "wf_library ref_lib (library_of ref_lib ref_db0)"
    using ref_served by (simp_all add: served_def ref.sound_db_def)
  have new: "new_items ref_lib (library_of ref_lib ref_db0) 0
     (map (fb_object_root ref_lib) [fb_object ref_lib (movies_folder_object 1)])
     (map (\<lambda>(k, b). (k, fb_resource_root ref_lib b)) [])"
    by (simp add: new_items_def ref_fresh movies_folder_object_def children_def root_object_def
        wf_object_def artwork_list_def resource_list_def)
  obtain db' where
    "put_items ref_lib 0 [fb_object ref_lib (movies_folder_object 1)] [] ref_db0 = (Inr (), db')"
    "ref.sound_db db'" "wf_library ref_lib (library_of ref_lib db')"
    "library_of ref_lib db' = put_items_spec ref_lib 0 [movies_folder_object 1] [] (library_of ref_lib ref_db0)"
    using ref.put_items_wf [OF db new] by (auto simp: ref_writes)
  then show "put_items ref_lib 0 [fb_object ref_lib (movies_folder_object 1)] [] ref_db0 = (Inr (), folder_db)"
    "served ref_lib folder_db"
    "lib_objects (library_of ref_lib folder_db) 1 = Some (movies_folder_object 1)"
    "lib_objects (library_of ref_lib folder_db) 2 = None"
    "lib_resources (library_of ref_lib folder_db) = Map.empty"
    by (simp_all add: folder_db_def served_def ref.sound_db_def put_items_spec_def ref_fresh
        movies_folder_object_def)
qed

definition folder_scanner :: "ref_db scanner" where
  "folder_scanner = \<lparr>sc_store = folder_db, movies_folder = 1, next_resource_id = 0, next_object_id = 2\<rparr>"

lemma small_increments: "increment (0 :: int64) = Inr 1" "increment (1 :: int64) = Inr 2" "increment (2 :: int64) = Inr 3"
  by (simp_all add: increment_def int64_max_def)

lemma ref_movies_folder:
  "get_movies_folder_id ref_lib ((new_scanner ref_db0)\<lparr>next_resource_id := 0, next_object_id := 1\<rparr>) =
     (Inr 1, folder_scanner)"
proof -
  have db: "ref.sound_db ref_db0" using ref_served by (simp add: served_def ref.sound_db_def)
  have root: "lib_objects (library_of ref_lib ref_db0) 0 = Some root_object" "children root_object = Some []"
    by (simp_all add: ref_fresh) (simp add: root_object_def children_def)
  have "store_list ref_lib 0 ref_db0 = Inr \<lparr>db_it = create_iterator ref_lib ref_db0, objects = []\<rparr>"
    by (rule ref.store_list_library [OF db root])
  then show ?thesis
    by (simp add: get_movies_folder_id_def new_scanner_def bindP_def next_object_key_def small_increments
        with_store_def folder_db_put(1) folder_scanner_def)
qed

section \<open>The film\<close>

definition alien_object :: MediaObject where
  "alien_object =
     composed_object ref_lib ref_util ((new_composer 1)\<lparr>folder_name := ''films''\<rparr>) ''Alien.mkv'' 2
       [CreateResourceRef (fb_key ref_lib (ResourceKey 0)) alien_info] []"

lemma compose_alien:
  "run_composer (compose_all ref_lib ref_util [(''Alien.mkv'', alien_info)])
     ((new_composer 1)\<lparr>folder_name := ''films''\<rparr>) folder_scanner =
   (Inr ([fb_object ref_lib alien_object],
         (new_composer 1)\<lparr>folder_name := ''films'', resources := [(0, fb_resource ref_lib (file_resource alien_info))]\<rparr>),
    folder_scanner\<lparr>next_resource_id := 1, next_object_id := 3\<rparr>)"
  by (simp add: run_composer_def bindP_def compose_def Let_def store_resource_def on_scanner_def
      serialize_resource_def next_resource_key_def next_object_key_def small_increments folder_scanner_def
      returnP_def new_composer_def resource_prefix_of_def lower_bound_def folder_artwork_fallback_def
      get_folder_artwork_def folder_artwork_candidates_def map_find_def alien_object_def
      file_resource_def serialize_key_def)

lemma alien_new:
  "new_items ref_lib (library_of ref_lib folder_db) 1 (map (fb_object_root ref_lib) [fb_object ref_lib alien_object])
     (map (\<lambda>(k, b). (k, fb_resource_root ref_lib b)) [(0, fb_resource ref_lib (file_resource alien_info))])"
proof -
  have "children alien_object = None" "artwork_list alien_object = []"
    "resource_list alien_object = [CreateResourceRef (fb_key ref_lib (ResourceKey 0)) alien_info]"
    by (simp_all add: alien_object_def children_def artwork_list_def resource_list_def put_sorted_vector_def)
  moreover have "children (movies_folder_object 1) \<noteq> None"
    by (simp add: movies_folder_object_def children_def)
  ultimately show ?thesis
    by (simp add: new_items_def folder_db_put wf_object_def wf_resource_def file_resource_def
        resource_ref_def CreateResourceRef_def alien_object_def new_composer_def)
qed

lemma alien_put:
  obtains db' where "put_items ref_lib 1 [fb_object ref_lib alien_object]
      [(0, fb_resource ref_lib (file_resource alien_info))] folder_db = (Inr (), db')"
    and "lib_resources (library_of ref_lib db') 0 = Some (file_resource alien_info)"
proof -
  have db: "ref.sound_db folder_db" "wf_library ref_lib (library_of ref_lib folder_db)"
    using folder_db_put(2) by (simp_all add: served_def ref.sound_db_def)
  obtain db' where put: "put_items ref_lib 1 [fb_object ref_lib alien_object]
      [(0, fb_resource ref_lib (file_resource alien_info))] folder_db = (Inr (), db')"
    "library_of ref_lib db' = put_items_spec ref_lib 1 (map (fb_object_root ref_lib) [fb_object ref_lib alien_object])
       (map (\<lambda>(k, b). (k, fb_resource_root ref_lib b)) [(0, fb_resource ref_lib (file_resource alien_info))])
       (library_of ref_lib folder_db)"
    using ref.put_items_wf [OF db alien_new] by (auto simp: ref_writes)
  then have "lib_resources (library_of ref_lib db') 0 = Some (file_resource alien_info)"
    by (simp add: put_items_spec_def)
  with put(1) that show thesis by blast
qed

section \<open>The start\<close>

lemma one_film_scan:
  obtains sc where "scan_directory ref_lib ref_util one_film ''/films''
      (default_movies_config\<lparr>use_collections := False\<rparr>) 1 folder_scanner = (Inr [], sc)"
    and "lib_resources (library_of ref_lib (sc_store sc)) 0 = Some (file_resource alien_info)"
proof -
  obtain db' where put: "put_items ref_lib 1 [fb_object ref_lib alien_object]
      [(0, fb_resource ref_lib (file_resource alien_info))] folder_db = (Inr (), db')"
    "lib_resources (library_of ref_lib db') 0 = Some (file_resource alien_info)"
    by (rule alien_put)
  have "(folder_scanner\<lparr>next_resource_id := 1, next_object_id := 3\<rparr>) =
      \<lparr>sc_store = folder_db, movies_folder = 1, next_resource_id = 1, next_object_id = 3\<rparr>"
    by (simp add: folder_scanner_def)
  with put compose_alien that [of "\<lparr>sc_store = db', movies_folder = 1, next_resource_id = 1, next_object_id = 3\<rparr>"]
  show thesis
    by (simp add: scan_directory_def one_film_def one_film_listing Let_def add_collection_def
        default_movies_config_def bindP_def returnP_def alien_paths with_store_def new_composer_def)
qed

lemma one_film_stored:
  obtains db' where "prepare_store ref_lib ref_util one_film 1 one_film_start = Some (Inr (Inr (), db'))"
    and "resource_file ref_web (library_of ref_lib db') 0 0"
proof -
  obtain sc where sc: "scan_directory ref_lib ref_util one_film ''/films''
      (default_movies_config\<lparr>use_collections := False\<rparr>) 1 folder_scanner = (Inr [], sc)"
    "lib_resources (library_of ref_lib (sc_store sc)) 0 = Some (file_resource alien_info)"
    by (rule one_film_scan)
  then have "scan_all ref_lib ref_util one_film (Suc 0) ''/films'' default_movies_config (new_scanner ref_db0) =
      Some (Inr (), sc)"
    using ref_next_ids ref_movies_folder by (simp add: scan_all_def new_scanner_def)
  moreover have "resource_file ref_web (library_of ref_lib (sc_store sc)) 0 0"
    using sc(2) by (auto simp: resource_file_def file_resource_def alien_info_def ref_web_def)
  ultimately show thesis
    using that by (simp add: prepare_store_def ref_open one_film_start_def)
qed

lemma one_film_run:
  obtains db' where "prepare_store ref_lib ref_util one_film 1 one_film_start = Some (Inr (Inr (), db'))"
  using one_film_stored by metis

text \<open>The same start while the directory cannot be read: the scan ends after the movies folder.\<close>

lemma unreadable_run:
  obtains e where "prepare_store ref_lib ref_util (\<lambda>_. None) 1 one_film_start = Some (Inr (Inl e, folder_db))"
proof -
  obtain e where "scan_directory ref_lib ref_util (\<lambda>_. None) ''/films''
      (default_movies_config\<lparr>use_collections := False\<rparr>) 1 folder_scanner = (Inl e, folder_scanner)"
    by (simp add: scan_directory_def raiseP_def)
  then have "scan_all ref_lib ref_util (\<lambda>_. None) (Suc 0) ''/films'' default_movies_config (new_scanner ref_db0) =
      Some (Inl e, folder_scanner)"
    using ref_next_ids ref_movies_folder by (simp add: scan_all_def new_scanner_def)
  then show thesis
    using that by (simp add: prepare_store_def ref_open one_film_start_def folder_scanner_def)
qed

end
