(* ===== verification/EventLoop.thy ===== *)
theory EventLoop
  imports Coroutine Discovery Startup Logging
begin

text \<open>
  The running program: \<^verbatim>\<open>server::run_server\<close> of \<^verbatim>\<open>src/server.cpp\<close>, the start of
  \<^verbatim>\<open>discovery_service::run_service\<close> and the event loop of \<^verbatim>\<open>src/main.cpp\<close>. The coroutines run on
  one thread, from one of their points of suspension to the next, in the order the event loop
  chooses. An \<open>event\<close> is the completion of an operation that a coroutine waits for, with what the
  system answered; \<open>perform\<close> runs the coroutine it resumes. A round of discovery, which has its socket
  to itself, is one event. A detached coroutine that an exception
  leaves has ended, and nothing else notices.
\<close>

section \<open>The multicast socket\<close>

datatype socket_option =
    ReuseAddress bool
  | JoinGroup "nat list"
  | Hops nat

text \<open>A socket's functions; an error code they fail with is thrown.\<close>

record 'k udp_sockets =
  us_open :: "string + 'k"
  us_set_option :: "socket_option \<Rightarrow> 'k \<Rightarrow> string + 'k"
  us_bind :: "nat \<Rightarrow> 'k \<Rightarrow> string + 'k"

fun throwing :: "string + 'a \<Rightarrow> 'a result" where
  "throwing (Inl ec) = Inl (SystemError ec)"
| "throwing (Inr x) = Inr x"

definition open_multicast_socket :: "'k udp_sockets \<Rightarrow> 'k result" where
  "open_multicast_socket Net =
     bindE (throwing (us_open Net)) (\<lambda>k1.
     bindE (throwing (us_set_option Net (ReuseAddress True) k1)) (\<lambda>k2.
     bindE (throwing (us_bind Net 1900 k2)) (\<lambda>k3.
     bindE (throwing (us_set_option Net (JoinGroup [239, 255, 255, 250]) k3)) (\<lambda>k4.
       throwing (us_set_option Net (Hops 4) k4)))))"

section \<open>State\<close>

datatype server_task = ServerQueued | Accepting | ServerEnded exn

datatype 'k discovery_task = DiscoveryQueued | Receiving 'k | DiscoveryEnded exn

text \<open>
  \<open>pr_config\<close> is the configuration the services refer to: the server writes the port and the base URL
  into it when it starts. A connection's coroutine stays in its place after it ended.
\<close>

record ('f, 's, 'k) program =
  pr_running :: bool
  pr_config :: server_config
  pr_server :: server_task
  pr_connections :: "('f point \<times> 's) list"
  pr_discovery :: "'k discovery_task"

text \<open>Both services are spawned, in this order, before the event loop runs.\<close>

definition initial_program :: "server_config \<Rightarrow> ('f, 's, 'k) program" where
  "initial_program config =
     \<lparr>pr_running = True, pr_config = config, pr_server = ServerQueued, pr_connections = [],
      pr_discovery = DiscoveryQueued\<rparr>"

text \<open>
  The program up to the event loop, from the command line: an exception ends it.
\<close>

definition main_start ::
  "'c command_lib_scheme \<Rightarrow> ('db, 'it, 'm) store_lib_scheme \<Rightarrow> 'u util_lib_scheme \<Rightarrow> file_system \<Rightarrow> nat
    \<Rightarrow> string list \<Rightarrow> (logger \<times> 'db \<times> ('f, 's, 'k) program) result option" where
  "main_start K S U fs fuel argv =
     (case load_configuration_file K argv of
        Inl e \<Rightarrow> Some (Inl e)
      | Inr config \<Rightarrow>
          let logger = intialize_logging (cf_logging config)
          in case prepare_store S U fs fuel config of
               None \<Rightarrow> None
             | Some (Inl e) \<Rightarrow> Some (Inl e)
             | Some (Inr (Inl e, db)) \<Rightarrow> Some (Inl e)
             | Some (Inr (Inr _, db)) \<Rightarrow> Some (Inr (logger, db, initial_program (cf_server config))))"

section \<open>Events\<close>

text \<open>
  \<open>StartServer\<close> carries the port the acceptor was bound to, \<open>AcceptConnection\<close> the new socket,
  \<open>StartDiscovery\<close> the socket functions. The queue of the event loop is first in first out, so the
  server's coroutine has started before discovery's.
\<close>

datatype ('s, 'k) event =
    StartServer "string + 16 word"
  | AcceptConnection "string + 's"
  | ResumeConnection nat
  | StartDiscovery "'k udp_sockets"
  | ReceiveDatagram
  | StopSignal

definition run_server_start :: "string + 16 word \<Rightarrow> ('f, 's, 'k) program \<Rightarrow> ('f, 's, 'k) program" where
  "run_server_start acceptor st =
     (case throwing acceptor of
        Inl e \<Rightarrow> st\<lparr>pr_server := ServerEnded e\<rparr>
      | Inr bound_port \<Rightarrow>
          st\<lparr>pr_config := start_listening bound_port (pr_config st), pr_server := Accepting\<rparr>)"

definition run_server_accept :: "string + 's \<Rightarrow> ('f, 's, 'k) program \<Rightarrow> ('f, 's, 'k) program" where
  "run_server_accept accepted st =
     (case throwing accepted of
        Inl e \<Rightarrow> st\<lparr>pr_server := ServerEnded e\<rparr>
      | Inr socket \<Rightarrow> st\<lparr>pr_connections := pr_connections st @ [(AwaitRequest, socket)]\<rparr>)"

definition run_discovery_start :: "'k udp_sockets \<Rightarrow> ('f, 's, 'k) program \<Rightarrow> ('f, 's, 'k) program" where
  "run_discovery_start sockets st =
     (case open_multicast_socket sockets of
        Inl e \<Rightarrow> st\<lparr>pr_discovery := DiscoveryEnded e\<rparr>
      | Inr k \<Rightarrow> st\<lparr>pr_discovery := Receiving k\<rparr>)"

definition run_discovery_round ::
  "('k, 'e, 'r, 'p, 'n) udp_lib_scheme \<Rightarrow> nat \<Rightarrow> ('f, 's, 'k) program \<Rightarrow> ('f, 's, 'k) program option" where
  "run_discovery_round D fuel st =
     (case pr_discovery st of
        Receiving k \<Rightarrow>
          (case discovery_round D (pr_config st) fuel k of
             None \<Rightarrow> None
           | Some (Inl e, k') \<Rightarrow> Some (st\<lparr>pr_discovery := DiscoveryEnded e\<rparr>)
           | Some (Inr _, k') \<Rightarrow> Some (st\<lparr>pr_discovery := Receiving k'\<rparr>))
      | _ \<Rightarrow> None)"

definition run_connection ::
  "('f, 's, 'm) web_lib_scheme \<Rightarrow> ('db, 'it, 'n) store_lib_scheme \<Rightarrow> 'db \<Rightarrow> nat
    \<Rightarrow> ('f, 's, 'k) program \<Rightarrow> ('f, 's, 'k) program" where
  "run_connection L S db i st =
     st\<lparr>pr_connections :=
          (pr_connections st)[i := resume L S (pr_config st) db (pr_connections st ! i)]\<rparr>"

text \<open>An event that no coroutine waits for does not happen.\<close>

fun enabled :: "('s, 'k) event \<Rightarrow> ('f, 's, 'k) program \<Rightarrow> bool" where
  "enabled (StartServer _) st = (pr_server st = ServerQueued)"
| "enabled (AcceptConnection _) st = (pr_server st = Accepting)"
| "enabled (ResumeConnection i) st =
     (i < length (pr_connections st) \<and> \<not> ended (fst (pr_connections st ! i)))"
| "enabled (StartDiscovery _) st = (pr_server st \<noteq> ServerQueued \<and> pr_discovery st = DiscoveryQueued)"
| "enabled ReceiveDatagram st = True"
| "enabled StopSignal st = True"

definition perform ::
  "('f, 's, 'm) web_lib_scheme \<Rightarrow> ('db, 'it, 'n) store_lib_scheme \<Rightarrow> ('k, 'e, 'r, 'p, 'q) udp_lib_scheme
    \<Rightarrow> 'db \<Rightarrow> nat \<Rightarrow> ('s, 'k) event \<Rightarrow> ('f, 's, 'k) program \<Rightarrow> ('f, 's, 'k) program option" where
  "perform L S D db fuel ev st =
     (if \<not> pr_running st \<or> \<not> enabled ev st then None
      else case ev of
             StartServer acceptor \<Rightarrow> Some (run_server_start acceptor st)
           | AcceptConnection accepted \<Rightarrow> Some (run_server_accept accepted st)
           | ResumeConnection i \<Rightarrow> Some (run_connection L S db i st)
           | StartDiscovery sockets \<Rightarrow> Some (run_discovery_start sockets st)
           | ReceiveDatagram \<Rightarrow> run_discovery_round D fuel st
           | StopSignal \<Rightarrow> Some (st\<lparr>pr_running := False\<rparr>))"

section \<open>Executions\<close>

inductive execution ::
  "('f, 's, 'm) web_lib_scheme \<Rightarrow> ('db, 'it, 'n) store_lib_scheme \<Rightarrow> ('k, 'e, 'r, 'p, 'q) udp_lib_scheme
    \<Rightarrow> 'db \<Rightarrow> nat \<Rightarrow> ('f, 's, 'k) program \<Rightarrow> ('s, 'k) event list \<Rightarrow> ('f, 's, 'k) program \<Rightarrow> bool"
  for L S D db fuel st0
where
  started: "execution L S D db fuel st0 [] st0"
| happens: "execution L S D db fuel st0 evs st \<Longrightarrow> perform L S D db fuel ev st = Some st' \<Longrightarrow>
    execution L S D db fuel st0 (evs @ [ev]) st'"

inductive_cases execution_NilE: "execution L S D db fuel st0 [] st"
inductive_cases execution_snocE: "execution L S D db fuel st0 (evs @ [ev]) st"

text \<open>Performing a list of events.\<close>

fun perform_all ::
  "('f, 's, 'm) web_lib_scheme \<Rightarrow> ('db, 'it, 'n) store_lib_scheme \<Rightarrow> ('k, 'e, 'r, 'p, 'q) udp_lib_scheme
    \<Rightarrow> 'db \<Rightarrow> nat \<Rightarrow> ('s, 'k) event list \<Rightarrow> ('f, 's, 'k) program \<Rightarrow> ('f, 's, 'k) program option" where
  "perform_all L S D db fuel [] st = Some st"
| "perform_all L S D db fuel (ev # evs) st =
     (case perform L S D db fuel ev st of
        None \<Rightarrow> None
      | Some st' \<Rightarrow> perform_all L S D db fuel evs st')"

lemma execution_append:
  "execution L S D db fuel st0 pre st1 \<Longrightarrow> perform_all L S D db fuel evs st1 = Some st' \<Longrightarrow>
     execution L S D db fuel st0 (pre @ evs) st'"
proof (induction evs arbitrary: pre st1)
  case Nil
  then show ?case by simp
next
  case (Cons ev evs)
  then obtain st2 where "perform L S D db fuel ev st1 = Some st2" "perform_all L S D db fuel evs st2 = Some st'"
    by (auto split: option.splits)
  with Cons.IH [OF execution.happens [OF Cons.prems(1)], of ev st2] show ?case by simp
qed

lemma execution_perform_all:
  assumes "perform_all L S D db fuel evs st = Some st'"
  shows "execution L S D db fuel st evs st'"
  using execution_append [OF execution.started assms] by simp

text \<open>A connection that does not end can take its steps one after the other.\<close>

lemma resume_ended: "ended (fst c) \<Longrightarrow> (resume L S config db ^^ n) c = c"
proof (induction n)
  case (Suc n)
  then show ?case by (cases c; cases "fst c") simp_all
qed simp

lemma perform_connection_steps:
  assumes "pr_running st" "i < length (pr_connections st)"
    and "(resume L S (pr_config st) db ^^ n) (pr_connections st ! i) = c" "\<not> ended (fst c)"
  shows "perform_all L S D db fuel (replicate n (ResumeConnection i)) st =
    Some (st\<lparr>pr_connections := (pr_connections st)[i := c]\<rparr>)"
  using assms
proof (induction n arbitrary: st)
  case (Suc n)
  have going: "\<not> ended (fst (pr_connections st ! i))"
  proof
    assume "ended (fst (pr_connections st ! i))"
    with resume_ended [OF this, where n = "Suc n"] Suc.prems(3,4) show False by metis
  qed
  have "(resume L S (pr_config st) db ^^ n) (resume L S (pr_config st) db (pr_connections st ! i)) = c"
    using Suc.prems(3) by (simp add: funpow_swap1)
  with Suc.IH [of "run_connection L S db i st"] Suc.prems going show ?case
    by (simp add: perform_def run_connection_def)
next
  case 0
  then have "c = pr_connections st ! i" by simp
  then show ?case by simp
qed

lemma perform_cases:
  assumes "perform L S D db fuel ev st = Some st'"
  obtains acceptor where "ev = StartServer acceptor" "pr_server st = ServerQueued"
      "st' = run_server_start acceptor st"
  | accepted where "ev = AcceptConnection accepted" "pr_server st = Accepting"
      "st' = run_server_accept accepted st"
  | i where "ev = ResumeConnection i" "i < length (pr_connections st)"
      "\<not> ended (fst (pr_connections st ! i))" "st' = run_connection L S db i st"
  | sockets where "ev = StartDiscovery sockets" "pr_server st \<noteq> ServerQueued"
      "pr_discovery st = DiscoveryQueued" "st' = run_discovery_start sockets st"
  | task where "ev = ReceiveDatagram" "pr_discovery st \<noteq> DiscoveryQueued" "task \<noteq> DiscoveryQueued"
      "st' = st\<lparr>pr_discovery := task\<rparr>"
  | "ev = StopSignal" "st' = st\<lparr>pr_running := False\<rparr>"
proof (cases ev)
  case ReceiveDatagram
  with assms that(5) show thesis
    by (auto simp: perform_def run_discovery_round_def split: if_splits option.splits sum.splits prod.splits
        discovery_task.splits)
qed (use assms that in \<open>auto simp: perform_def split: if_splits\<close>)

text \<open>The sockets accepted, the steps of a connection, and the port the server listens on.\<close>

fun accepted_sockets :: "('s, 'k) event list \<Rightarrow> 's list" where
  "accepted_sockets [] = []"
| "accepted_sockets (AcceptConnection (Inr s) # evs) = s # accepted_sockets evs"
| "accepted_sockets (_ # evs) = accepted_sockets evs"

definition steps_of :: "nat \<Rightarrow> ('s, 'k) event list \<Rightarrow> nat" where
  "steps_of i evs = length (filter (\<lambda>ev. ev = ResumeConnection i) evs)"

fun listening_port :: "('s, 'k) event list \<Rightarrow> 16 word option" where
  "listening_port [] = None"
| "listening_port (StartServer (Inr port) # evs) = Some port"
| "listening_port (_ # evs) = listening_port evs"

lemma accepted_sockets_append [simp]: "accepted_sockets (evs @ evs') = accepted_sockets evs @ accepted_sockets evs'"
  by (induction evs rule: accepted_sockets.induct) auto

lemma steps_of_simps [simp]:
  "steps_of i [] = 0"
  "steps_of i (evs @ [ev]) = steps_of i evs + (if ev = ResumeConnection i then 1 else 0)"
  by (simp_all add: steps_of_def)

lemma steps_of_append: "steps_of i (evs @ evs') = steps_of i evs + steps_of i evs'"
  by (simp add: steps_of_def)

lemma listening_port_append [simp]:
  "listening_port (evs @ evs') = (case listening_port evs of None \<Rightarrow> listening_port evs' | Some p \<Rightarrow> Some p)"
  by (induction evs rule: listening_port.induct) auto

definition running_config :: "server_config \<Rightarrow> ('s, 'k) event list \<Rightarrow> server_config" where
  "running_config config evs =
     (case listening_port evs of None \<Rightarrow> config | Some port \<Rightarrow> start_listening port config)"

text \<open>
  What an execution leaves: the configuration is the loaded one until the server listens, and no
  connection exists before. Discovery starts after the server.
\<close>

definition run_invariant ::
  "('f, 's, 'm) web_lib_scheme \<Rightarrow> ('db, 'it, 'n) store_lib_scheme \<Rightarrow> 'db \<Rightarrow> server_config
    \<Rightarrow> ('s, 'k) event list \<Rightarrow> ('f, 's, 'k) program \<Rightarrow> bool" where
  "run_invariant L S db config evs st \<longleftrightarrow>
     pr_config st = running_config config evs
     \<and> (pr_server st = ServerQueued \<longrightarrow> pr_discovery st = DiscoveryQueued \<and> listening_port evs = None)
     \<and> (pr_server st = Accepting \<longrightarrow> listening_port evs \<noteq> None)
     \<and> (listening_port evs = None \<longrightarrow> pr_connections st = [])
     \<and> length (pr_connections st) = length (accepted_sockets evs)
     \<and> (\<forall>i < length (pr_connections st). pr_connections st ! i =
          (resume L S (pr_config st) db ^^ steps_of i evs) (AwaitRequest, accepted_sockets evs ! i))
     \<and> (\<forall>i \<ge> length (pr_connections st). steps_of i evs = 0)"

lemma run_invariant_initial: "run_invariant L S db config [] (initial_program config)"
  by (simp add: run_invariant_def initial_program_def running_config_def)

lemma run_invariant_perform:
  assumes inv: "run_invariant L S db config evs st" and step: "perform L S D db fuel ev st = Some st'"
  shows "run_invariant L S db config (evs @ [ev]) st'"
  using step
proof (cases rule: perform_cases)
  case (1 acceptor)
  with inv show ?thesis
    by (cases acceptor) (auto simp: run_invariant_def run_server_start_def running_config_def)
next
  case (2 accepted)
  with inv show ?thesis
    by (cases accepted) (auto simp: run_invariant_def run_server_accept_def running_config_def nth_append
        split: option.splits)
next
  case (3 i)
  with inv show ?thesis
    by (auto simp: run_invariant_def run_connection_def running_config_def nth_list_update split: option.splits)
next
  case (4 sockets)
  with inv show ?thesis
    by (cases "open_multicast_socket sockets")
      (auto simp: run_invariant_def run_discovery_start_def running_config_def split: option.splits)
next
  case (5 task)
  with inv show ?thesis
    by (auto simp: run_invariant_def running_config_def split: option.splits)
next
  case 6
  with inv show ?thesis
    by (auto simp: run_invariant_def running_config_def split: option.splits)
qed

lemma execution_invariant:
  assumes "execution L S D db fuel (initial_program config) evs st"
  shows "run_invariant L S db config evs st"
  using assms by (induction rule: execution.induct) (auto intro: run_invariant_initial run_invariant_perform)

text \<open>
  Where a connection is after more events: its own steps among them, on the same configuration.
\<close>

lemma execution_later:
  assumes run: "execution L S D db fuel (initial_program config) evs st"
    and later: "execution L S D db fuel (initial_program config) (evs @ evs') st'"
    and i: "i < length (pr_connections st)"
  shows "pr_connections st' ! i =
    (resume L S (pr_config st) db ^^ steps_of i evs') (pr_connections st ! i)"
proof -
  note inv = execution_invariant [OF run, unfolded run_invariant_def]
  note inv' = execution_invariant [OF later, unfolded run_invariant_def]
  have "listening_port evs \<noteq> None" using inv i by auto
  then have "pr_config st' = pr_config st" using inv inv' by (auto simp: running_config_def)
  with inv inv' i show ?thesis
    by (simp add: nth_append steps_of_append funpow_add [symmetric, THEN fun_cong, unfolded comp_def] add.commute)
qed

text \<open>
  Steps of a connection that do not end it can be taken at once, and whatever happens between them
  they lead to the same state.
\<close>

lemma execution_steps:
  assumes run: "execution L S D db fuel (initial_program config) evs st" and running: "pr_running st"
    and i: "i < length (pr_connections st)"
    and steps: "(resume L S (pr_config st) db ^^ n) (pr_connections st ! i) = (AwaitRequest, s')"
  shows "(\<exists>st'. execution L S D db fuel (initial_program config) (evs @ replicate n (ResumeConnection i)) st')
    \<and> (\<forall>evs' st'. execution L S D db fuel (initial_program config) (evs @ evs') st' \<and> steps_of i evs' = n
        \<longrightarrow> pr_connections st' ! i = (AwaitRequest, s'))"
proof (intro conjI allI impI)
  from perform_connection_steps [OF running i steps, of D fuel]
  show "\<exists>st'. execution L S D db fuel (initial_program config) (evs @ replicate n (ResumeConnection i)) st'"
    using execution_append [OF run] by simp (rule exI)
next
  fix evs' st'
  assume "execution L S D db fuel (initial_program config) (evs @ evs') st' \<and> steps_of i evs' = n"
  then show "pr_connections st' ! i = (AwaitRequest, s')"
    using execution_later [OF run _ i] steps by metis
qed

end
