(* ===== verification/Views.thy ===== *)
theory Views
  imports Browse
begin

text \<open>
  The views the serialisation iterates over: \<^verbatim>\<open>fb_vector_view\<close> of \<^verbatim>\<open>src/store/fb_vector_view.h\<close>, over a
  vector that may be absent, and \<^verbatim>\<open>list_result_view\<close> of \<^verbatim>\<open>src/store/store_service.h\<close>, whose cursors share
  one database iterator. Both are modelled cursor operation by cursor operation. The locale
  \<open>cursor_range\<close> is what an iteration needs of them; within it, a loop from one cursor to another
  visits exactly the elements between their positions. \<open>Store\<close> and \<open>XmlSerialization\<close> work with the
  lists of elements; this theory shows that nothing is lost by it.
\<close>

section \<open>Iteration\<close>

text \<open>
  The loop that \<^verbatim>\<open>for_each\<close> and \<^verbatim>\<open>count_if\<close> run over a pair of cursors, on fuel, and its counterpart
  on the list of elements.
\<close>

fun for_each_cursor ::
  "nat \<Rightarrow> ('c \<Rightarrow> 'c \<Rightarrow> bool) \<Rightarrow> ('c \<Rightarrow> 'c) \<Rightarrow> ('c \<Rightarrow> ('s, 'a) proc) \<Rightarrow> ('a \<Rightarrow> ('s, unit) proc)
    \<Rightarrow> 'c \<Rightarrow> 'c \<Rightarrow> 's \<Rightarrow> (unit result \<times> 's) option" where
  "for_each_cursor 0 equal step read func first final s = None"
| "for_each_cursor (Suc fuel) equal step read func first final s =
     (if equal first final then Some (Inr (), s)
      else case bindP (read first) func s of
             (Inl e, s') \<Rightarrow> Some (Inl e, s')
           | (Inr _, s') \<Rightarrow> for_each_cursor fuel equal step read func (step first) final s')"

fun for_each_in ::
  "('x \<Rightarrow> ('s, 'a) proc) \<Rightarrow> ('a \<Rightarrow> ('s, unit) proc) \<Rightarrow> 'x list \<Rightarrow> ('s, unit) proc" where
  "for_each_in read func [] = returnP ()"
| "for_each_in read func (x # xs) = bindP (bindP (read x) func) (\<lambda>_. for_each_in read func xs)"

locale cursor_range =
  fixes equal :: "'c \<Rightarrow> 'c \<Rightarrow> bool" and step :: "'c \<Rightarrow> 'c" and read :: "'c \<Rightarrow> ('s, 'a) proc"
    and stands_at :: "nat \<Rightarrow> 'c \<Rightarrow> bool" and elements :: "'x list" and read_element :: "'x \<Rightarrow> ('s, 'a) proc"
  assumes equal_at: "stands_at m c \<Longrightarrow> stands_at n d \<Longrightarrow> equal c d \<longleftrightarrow> m = n"
    and step_at: "stands_at n c \<Longrightarrow> n < length elements \<Longrightarrow> stands_at (Suc n) (step c)"
    and read_at: "stands_at n c \<Longrightarrow> n < length elements \<Longrightarrow> read c = read_element (elements ! n)"
begin

lemma for_each_range:
  "stands_at m first \<Longrightarrow> stands_at n final \<Longrightarrow> m \<le> n \<Longrightarrow> n \<le> length elements \<Longrightarrow> n - m < fuel \<Longrightarrow>
     for_each_cursor fuel equal step read func first final s =
       Some (for_each_in read_element func (take (n - m) (drop m elements)) s)"
proof (induction fuel arbitrary: m first s)
  case 0
  then show ?case by simp
next
  case (Suc fuel)
  show ?case
  proof (cases "m = n")
    case True
    with Suc.prems equal_at show ?thesis by (simp add: returnP_def)
  next
    case False
    with Suc.prems have less: "m < n" "m < length elements" by simp_all
    have go: "\<not> equal first final" using equal_at Suc.prems(1,2) False by blast
    have list: "take (n - m) (drop m elements) = elements ! m # take (n - Suc m) (drop (Suc m) elements)"
      using less by (simp add: Cons_nth_drop_Suc [symmetric] Suc_diff_Suc take_Cons')
    have "for_each_cursor fuel equal step read func (step first) final t =
        Some (for_each_in read_element func (take (n - Suc m) (drop (Suc m) elements)) t)" for t
      by (rule Suc.IH [OF step_at [OF Suc.prems(1) less(2)]]) (use Suc.prems less in auto)
    then show ?thesis
      by (simp add: go list read_at [OF Suc.prems(1) less(2)])
        (simp add: bindP_def [of "bindP (read_element (elements ! m)) func"] split: prod.splits sum.splits)
  qed
qed

lemma for_each_all:
  assumes "stands_at 0 first" and "stands_at (length elements) final" and "length elements < fuel"
  shows "for_each_cursor fuel equal step read func first final s = Some (for_each_in read_element func elements s)"
  using for_each_range [OF assms(1,2)] assms(3) by simp

end

section \<open>Vectors that may be absent\<close>

text \<open>An iterator of a vector is the vector and an index; a default iterator belongs to none.\<close>

record 'a fb_vector_view =
  fb_data :: "'a list option"

record 'a fb_cursor =
  fb_it :: "('a list \<times> nat) option"

definition fb_read :: "'a fb_cursor \<Rightarrow> 'a result" where
  "fb_read c =
     (case fb_it c of
        Some (xs, i) \<Rightarrow> if i < length xs then Inr (xs ! i) else Inl Undefined
      | None \<Rightarrow> Inl Undefined)"

definition fb_next :: "'a fb_cursor \<Rightarrow> 'a fb_cursor" where
  "fb_next c = c\<lparr>fb_it := map_option (\<lambda>(xs, i). (xs, Suc i)) (fb_it c)\<rparr>"

definition fb_equal :: "'a fb_cursor \<Rightarrow> 'a fb_cursor \<Rightarrow> bool" where
  "fb_equal c rhs \<longleftrightarrow> fb_it c = fb_it rhs"

definition fb_begin_cursor :: "'a fb_vector_view \<Rightarrow> 'a fb_cursor" where
  "fb_begin_cursor v =
     (case fb_data v of Some xs \<Rightarrow> \<lparr>fb_it = Some (xs, 0)\<rparr> | None \<Rightarrow> \<lparr>fb_it = None\<rparr>)"

definition fb_end_cursor :: "'a fb_vector_view \<Rightarrow> 'a fb_cursor" where
  "fb_end_cursor v =
     (case fb_data v of Some xs \<Rightarrow> \<lparr>fb_it = Some (xs, length xs)\<rparr> | None \<Rightarrow> \<lparr>fb_it = None\<rparr>)"

definition fb_elements :: "'a fb_vector_view \<Rightarrow> 'a list" where
  "fb_elements v = (case fb_data v of None \<Rightarrow> [] | Some xs \<Rightarrow> xs)"

definition fb_at :: "'a fb_vector_view \<Rightarrow> nat \<Rightarrow> 'a fb_cursor \<Rightarrow> bool" where
  "fb_at v n c \<longleftrightarrow>
     (case fb_data v of Some xs \<Rightarrow> fb_it c = Some (xs, n) | None \<Rightarrow> fb_it c = None \<and> n = 0)"

interpretation fb_view:
  cursor_range fb_equal fb_next "\<lambda>c s. (fb_read c, s)" "fb_at v" "fb_elements v" "\<lambda>x s. (Inr x, s)"
  for v :: "'a fb_vector_view"
  by unfold_locales
    (auto simp: fb_at_def fb_equal_def fb_next_def fb_read_def fb_elements_def split: option.splits)

lemma fb_view_each:
  assumes "length (fb_elements v) < fuel"
  shows "for_each_cursor fuel fb_equal fb_next (\<lambda>c s. (fb_read c, s)) func (fb_begin_cursor v) (fb_end_cursor v) s =
    Some (for_each_in (\<lambda>x s. (Inr x, s)) func (fb_elements v) s)"
  using assms
  by (intro fb_view.for_each_all)
    (auto simp: fb_at_def fb_begin_cursor_def fb_end_cursor_def fb_elements_def split: option.splits)

text \<open>
  Appending to a node what each element gives, as the lambdas of \<^verbatim>\<open>serialize_media_object\<close> do.
\<close>

definition append_nodes :: "('a \<Rightarrow> xml list result) \<Rightarrow> 'a \<Rightarrow> (xml list, unit) proc" where
  "append_nodes f x nodes =
     (case f x of Inl e \<Rightarrow> (Inl e, nodes) | Inr new \<Rightarrow> (Inr (), nodes @ new))"

lemma for_each_append_nodes:
  "case concat_results f xs of
     Inl e \<Rightarrow> \<exists>nodes'. for_each_in (\<lambda>x s. (Inr x, s)) (append_nodes f) xs nodes = (Inl e, nodes')
   | Inr new \<Rightarrow> for_each_in (\<lambda>x s. (Inr x, s)) (append_nodes f) xs nodes = (Inr (), nodes @ new)"
proof (induction xs arbitrary: nodes)
  case Nil
  then show ?case by (simp add: returnP_def)
next
  case (Cons x xs)
  show ?case
  proof (cases "f x")
    case (Inl e)
    then show ?thesis by (simp add: bindP_def append_nodes_def)
  next
    case (Inr new)
    with Cons.IH [of "nodes @ new"] show ?thesis
      by (cases "concat_results f xs") (simp_all add: bindP_def append_nodes_def)
  qed
qed

text \<open>So the artwork and the resources of an object may be taken as lists, empty when absent.\<close>

lemma concat_results_through_view:
  assumes "length (case vec of None \<Rightarrow> [] | Some xs \<Rightarrow> xs) < fuel"
  shows "case concat_results f (case vec of None \<Rightarrow> [] | Some xs \<Rightarrow> xs) of
      Inl e \<Rightarrow> \<exists>nodes'. for_each_cursor fuel fb_equal fb_next (\<lambda>c s. (fb_read c, s)) (append_nodes f)
          (fb_begin_cursor \<lparr>fb_data = vec\<rparr>) (fb_end_cursor \<lparr>fb_data = vec\<rparr>) nodes = Some (Inl e, nodes')
    | Inr new \<Rightarrow> for_each_cursor fuel fb_equal fb_next (\<lambda>c s. (fb_read c, s)) (append_nodes f)
          (fb_begin_cursor \<lparr>fb_data = vec\<rparr>) (fb_end_cursor \<lparr>fb_data = vec\<rparr>) nodes = Some (Inr (), nodes @ new)"
  using assms for_each_append_nodes [of f "case vec of None \<Rightarrow> [] | Some xs \<Rightarrow> xs" nodes]
    fb_view_each [of "\<lparr>fb_data = vec\<rparr>" fuel "append_nodes f" nodes]
  by (simp add: fb_elements_def split: sum.splits)

section \<open>Listings\<close>

text \<open>
  A cursor of a listing is an index into the view's keys, and whether it can read through the view's
  database iterator: the end cursor cannot. Reading one past the keys is undefined.
\<close>

record list_cursor =
  key_it :: int
  on_db :: bool

definition list_read ::
  "('db, 'it, 'm) store_lib_scheme \<Rightarrow> 'it list_result_view \<Rightarrow> list_cursor \<Rightarrow> ('it, MediaObject) proc" where
  "list_read S view c it =
     (if \<not> on_db c \<or> key_it c < 0 \<or> int (length (objects view)) \<le> key_it c then (Inl Undefined, it)
      else cursor_read S (objects view ! nat (key_it c)) it)"

definition list_next :: "list_cursor \<Rightarrow> list_cursor" where
  "list_next c = c\<lparr>key_it := key_it c + 1\<rparr>"

definition list_prev :: "list_cursor \<Rightarrow> list_cursor" where
  "list_prev c = c\<lparr>key_it := key_it c - 1\<rparr>"

definition list_equal :: "list_cursor \<Rightarrow> list_cursor \<Rightarrow> bool" where
  "list_equal c other \<longleftrightarrow> key_it c = key_it other"

definition list_distance_to :: "list_cursor \<Rightarrow> list_cursor \<Rightarrow> int" where
  "list_distance_to c other = key_it other - key_it c"

definition list_advance :: "int \<Rightarrow> list_cursor \<Rightarrow> list_cursor" where
  "list_advance n c = c\<lparr>key_it := key_it c + n\<rparr>"

definition list_begin_cursor :: "'it list_result_view \<Rightarrow> list_cursor" where
  "list_begin_cursor view = \<lparr>key_it = 0, on_db = True\<rparr>"

definition list_end_cursor :: "'it list_result_view \<Rightarrow> list_cursor" where
  "list_end_cursor view = \<lparr>key_it = int (length (objects view)), on_db = False\<rparr>"

definition list_at :: "'it list_result_view \<Rightarrow> nat \<Rightarrow> list_cursor \<Rightarrow> bool" where
  "list_at view n c \<longleftrightarrow>
     key_it c = int n \<and> n \<le> length (objects view) \<and> (n < length (objects view) \<longrightarrow> on_db c)"

text \<open>The random access operations agree with stepping.\<close>

lemma list_cursor_laws:
  "list_prev (list_next c) = c" "list_next (list_prev c) = c"
  "list_advance (int n) c = (list_next ^^ n) c" "list_advance (- int n) c = (list_prev ^^ n) c"
  "list_distance_to c (list_advance k c) = k"
  "list_equal c d \<longleftrightarrow> list_distance_to c d = 0"
proof -
  have "(list_next ^^ n) c = list_advance (int n) c"
    by (induction n) (simp_all add: list_advance_def list_next_def)
  then show "list_advance (int n) c = (list_next ^^ n) c" by simp
  have "(list_prev ^^ n) c = list_advance (- int n) c"
    by (induction n) (simp_all add: list_advance_def list_prev_def)
  then show "list_advance (- int n) c = (list_prev ^^ n) c" by simp
qed (auto simp: list_prev_def list_next_def list_advance_def list_distance_to_def list_equal_def)

text \<open>
  What \<^verbatim>\<open>views::drop\<close> and \<^verbatim>\<open>views::take\<close> give for a random access range, by their documentation: a
  begin cursor moved forward by \<open>n\<close>, but not behind the end (where it may be the end cursor itself),
  and the end of the first \<open>n\<close> elements from a cursor on.
\<close>

definition drops :: "'it list_result_view \<Rightarrow> nat \<Rightarrow> list_cursor \<Rightarrow> bool" where
  "drops view n first \<longleftrightarrow>
     (let b = list_begin_cursor view; e = list_end_cursor view
      in if int n < list_distance_to b e then first = list_advance (int n) b
         else first = list_advance (list_distance_to b e) b \<or> first = e)"

definition takes :: "'it list_result_view \<Rightarrow> list_cursor \<Rightarrow> nat \<Rightarrow> list_cursor \<Rightarrow> bool" where
  "takes view first n final \<longleftrightarrow>
     (let e = list_end_cursor view
      in if int n < list_distance_to first e then final = list_advance (int n) first
         else final = list_advance (list_distance_to first e) first \<or> final = e)"

lemma drops_at:
  assumes "drops view n first"
  shows "list_at view (min n (length (objects view))) first"
  using assms
  by (auto simp: drops_def list_at_def list_begin_cursor_def list_end_cursor_def list_distance_to_def
      list_advance_def Let_def split: if_splits)

lemma takes_at:
  assumes "takes view first n final" and "list_at view m first"
  shows "list_at view (min (m + n) (length (objects view))) final"
  using assms
  by (auto simp: takes_def list_at_def list_end_cursor_def list_distance_to_def list_advance_def Let_def
      split: if_splits)

section \<open>A Browse response through cursors\<close>

text \<open>
  \<^verbatim>\<open>count_if\<close> with \<^verbatim>\<open>serialize_media_object\<close>: the state is the database iterator with the nodes appended
  and the number of objects that gave one.
\<close>

definition read_object ::
  "('db, 'it, 'm) store_lib_scheme \<Rightarrow> 'it list_result_view \<Rightarrow> list_cursor
    \<Rightarrow> ('it \<times> xml list \<times> nat, MediaObject) proc" where
  "read_object S view c s = (case list_read S view c (fst s) of (r, it) \<Rightarrow> (r, it, snd s))"

definition read_key ::
  "('db, 'it, 'm) store_lib_scheme \<Rightarrow> bytes \<Rightarrow> ('it \<times> xml list \<times> nat, MediaObject) proc" where
  "read_key S k s = (case cursor_read S k (fst s) of (r, it) \<Rightarrow> (r, it, snd s))"

definition count_object ::
  "'u util_lib_scheme \<Rightarrow> 'n fb_lib_scheme \<Rightarrow> string \<Rightarrow> MediaObject \<Rightarrow> ('it \<times> xml list \<times> nat, unit) proc" where
  "count_object U F content_base ob s =
     (case s of (it, nodes, n) \<Rightarrow>
        (case serialize_media_object U F content_base ob of
           Inl e \<Rightarrow> (Inl e, s)
         | Inr None \<Rightarrow> (Inr (), s)
         | Inr (Some node) \<Rightarrow> (Inr (), it, nodes @ [node], n + 1)))"

text \<open>
  \<^verbatim>\<open>browse_response\<close> with the cursors that \<open>drops\<close> and \<open>takes\<close> give for its index and count.
\<close>

definition browse_through_cursors ::
  "('f, 's, 'm) web_lib_scheme \<Rightarrow> ('db, 'it, 'n) store_lib_scheme \<Rightarrow> nat \<Rightarrow> 'it list_result_view
    \<Rightarrow> list_cursor \<Rightarrow> list_cursor \<Rightarrow> string \<Rightarrow> bytes result option" where
  "browse_through_cursors L S fuel view first final base_url =
     map_option (\<lambda>(r, it, nodes, returned).
         bindE r (\<lambda>_. Inr (xml_print L (browse_document returned
           (nat (list_distance_to (list_begin_cursor view) (list_end_cursor view)))
           (append_null (xml_print L (didl_document nodes)))))))
       (for_each_cursor fuel list_equal list_next (read_object S view) (count_object L S base_url)
          first final (db_it view, [], 0))"

interpretation list_view:
  cursor_range list_equal list_next "read_object S view" "list_at view" "objects view" "read_key S"
  for S :: "('db, 'it, 'm) store_lib_scheme" and view :: "'it list_result_view"
  by unfold_locales
    (auto simp: list_at_def list_equal_def list_next_def read_object_def read_key_def list_read_def fun_eq_iff)

lemma for_each_key:
  "case serialize_listing U S content_base ks it of
     Inl e \<Rightarrow> \<exists>s'. for_each_in (read_key S) (count_object U S content_base) ks (it, nodes, n) = (Inl e, s')
   | Inr (new, k) \<Rightarrow> \<exists>it'. for_each_in (read_key S) (count_object U S content_base) ks (it, nodes, n) =
       (Inr (), it', nodes @ new, n + k)"
proof (induction ks arbitrary: it nodes n)
  case Nil
  then show ?case by (simp add: returnP_def)
next
  case (Cons key ks)
  obtain r it1 where r: "cursor_read S key it = (r, it1)" by fastforce
  show ?case
  proof (cases r)
    case (Inl e)
    with r show ?thesis by (simp add: bindP_def read_key_def)
  next
    case (Inr ob)
    show ?thesis
    proof (cases "serialize_media_object U S content_base ob")
      case (Inl e)
      with r Inr show ?thesis by (simp add: bindP_def read_key_def count_object_def)
    next
      case (Inr node)
      note ob = \<open>r = Inr ob\<close>
      show ?thesis
      proof (cases node)
        case None
        with Cons.IH [of it1 nodes n] r ob Inr show ?thesis
          by (cases "serialize_listing U S content_base ks it1")
            (auto simp: bindP_def read_key_def count_object_def)
      next
        case (Some x)
        with Cons.IH [of it1 "nodes @ [x]" "n + 1"] r ob Inr show ?thesis
          by (cases "serialize_listing U S content_base ks it1")
            (auto simp: bindP_def read_key_def count_object_def)
      qed
    qed
  qed
qed

lemma slice_min:
  "take (min (min a len + b) len - min a len) (drop (min a len) xs) = take b (drop a xs)" if "len = length xs"
proof (cases "a \<le> len")
  case True
  then show ?thesis using that by (cases "a + b \<le> len") (auto simp: min_def)
next
  case False
  with that show ?thesis by simp
qed

lemma browse_cursors_listing:
  assumes first: "drops view (unat start_index) first"
    and final: "takes view first (unat (if requested_count = 0 then word_of_nat (length (objects view))
        else requested_count)) final"
    and fuel: "length (objects view) < fuel"
  shows "browse_through_cursors L S fuel view first final base_url =
    Some (browse_response L S view start_index requested_count base_url)"
proof -
  define req where "req = unat (if requested_count = 0 then word_of_nat (length (objects view)) else requested_count)"
  let ?len = "length (objects view)"
  let ?slice = "requested_slice start_index requested_count (objects view)"
  note at = drops_at [OF first] takes_at [OF final drops_at [OF first], folded req_def]
  have slice: "?slice = take (min (min (unat start_index) ?len + req) ?len - min (unat start_index) ?len)
      (drop (min (unat start_index) ?len) (objects view))"
    by (simp add: requested_slice_def req_def Let_def slice_min)
  have "for_each_cursor fuel list_equal list_next (read_object S view) (count_object L S base_url)
      first final (db_it view, [], 0) =
    Some (for_each_in (read_key S) (count_object L S base_url) ?slice (db_it view, [], 0))"
    unfolding slice by (rule list_view.for_each_range [OF at]) (use fuel in auto)
  with for_each_key [where U = L and S = S and content_base = base_url and ks = ?slice and it = "db_it view" and nodes = "[]" and n = 0] show ?thesis
    by (cases "serialize_listing L S base_url ?slice (db_it view)")
      (auto simp: browse_through_cursors_def browse_response_def list_distance_to_def list_begin_cursor_def
        list_end_cursor_def)
qed

end
