(* ===== verification/ProgramProperties.thy ===== *)
theory ProgramProperties
  imports ServiceProperties FirstScan EventLoop Views
begin

text \<open>
  The properties of the running program: every connection's coroutine, whatever runs between its
  steps, behaves as it does alone; what clients are told about the server; and the program from its
  configuration file to the bytes a client gets.
\<close>

section \<open>An execution\<close>

text \<open>
  For the witnesses: the server listens, two clients connect, their steps interleave, and the first one
  asks for the welcome page and closes.
\<close>

definition ref_events :: "(ref_stream, ref_socket) event list" where
  "ref_events =
     [StartServer (Inr 80), AcceptConnection (Inr ([], [ref_get_root])), ResumeConnection 0,
      AcceptConnection (Inr ([], [ref_get_root])), ResumeConnection 1, ResumeConnection 0, ResumeConnection 0]"

definition ref_welcome :: bytes where
  "ref_welcome = message_bytes ref_web (make_error_response (beast_version ref_web) 200 welcome_page ref_get_root)"

lemma ref_execution:
  obtains st where "execution ref_web ref_lib ref_udp ref_db1 0 (initial_program ref_server) ref_events st"
    and "pr_connections st = [(Ended None, ref_welcome, []), (AwaitWrite ref_welcome, [], [])]"
    and "pr_config st = start_listening 80 ref_server"
proof -
  obtain st where st: "perform_all ref_web ref_lib ref_udp ref_db1 0 ref_events (initial_program ref_server) = Some st"
    "pr_connections st = [(Ended None, ref_welcome, []), (AwaitWrite ref_welcome, [], [])]"
    "pr_config st = start_listening 80 ref_server"
    by (simp add: ref_events_def perform_def initial_program_def run_server_start_def run_server_accept_def
        run_connection_def ref_stream_simps dispatch_def ref_welcome_def)
  show thesis by (rule that [OF execution_perform_all [OF st(1)] st(2-)])
qed

lemma ref_events_simps:
  "accepted_sockets ref_events = [([], [ref_get_root]), ([], [ref_get_root])]"
  "steps_of 0 ref_events = 3" "steps_of 1 ref_events = 1" "listening_port ref_events = Some 80"
  "running_config c ref_events = start_listening 80 c"
  by (simp_all add: ref_events_def steps_of_def running_config_def)

section \<open>Coroutines\<close>

text \<open>
  C37: the steps of a connection's coroutine are its calls. The sequential model of a connection, with
  enough fuel, ends in a state of the stream exactly when the coroutine, resumed often enough, ends in
  it: neither the fuel nor the bound on requests hides an end, and none is added.
\<close>

theorem connection_steps_equal_calls:
  "(\<exists>fuel requests. handle_connections L S config db fuel requests s = Some s') \<longleftrightarrow>
   (\<exists>n e. (resume L S config db ^^ n) (AwaitRequest, s) = (Ended e, s'))"
proof
  assume "\<exists>fuel requests. handle_connections L S config db fuel requests s = Some s'"
  then obtain e where "reaches L S config db (AwaitRequest, s) (Ended e, s')"
    using handle_connections_reaches by (elim exE) fast
  then show "\<exists>n e. (resume L S config db ^^ n) (AwaitRequest, s) = (Ended e, s')"
    unfolding reaches_def by (elim exE) (intro exI)
next
  assume "\<exists>n e. (resume L S config db ^^ n) (AwaitRequest, s) = (Ended e, s')"
  then show "\<exists>fuel requests. handle_connections L S config db fuel requests s = Some s'"
    using finish_of_steps by fastforce
qed

text \<open>
  C5: connections run alone. In every execution of the program, whatever was accepted, received and
  resumed in between and in whatever order, a connection is in the state that its own steps alone lead
  to from its socket, on the configuration that was in force when the server started to listen; and
  one that has ended has done what the sequential model of a connection does.
\<close>

theorem connections_run_alone:
  assumes run: "execution L S D db fuel (initial_program config) evs st"
  shows "pr_connections st =
      map (\<lambda>i. (resume L S (running_config config evs) db ^^ steps_of i evs)
                (AwaitRequest, accepted_sockets evs ! i)) [0..<length (accepted_sockets evs)]
    \<and> (\<forall>i < length (pr_connections st). \<forall>e s'. pr_connections st ! i = (Ended e, s') \<longrightarrow>
        (\<exists>fuel requests. handle_connections L S (running_config config evs) db fuel requests
          (accepted_sockets evs ! i) = Some s'))"
proof -
  note inv = execution_invariant [OF run, unfolded run_invariant_def]
  have conns: "pr_connections st =
      map (\<lambda>i. (resume L S (running_config config evs) db ^^ steps_of i evs)
                (AwaitRequest, accepted_sockets evs ! i)) [0..<length (accepted_sockets evs)]"
    using inv by (intro nth_equalityI) simp_all
  have "\<exists>fuel requests. handle_connections L S (running_config config evs) db fuel requests
      (accepted_sockets evs ! i) = Some s'"
    if "i < length (pr_connections st)" "pr_connections st ! i = (Ended e, s')" for i e s'
    using that inv finish_of_steps [of "steps_of i evs" L S "running_config config evs" db
        "(AwaitRequest, accepted_sockets evs ! i)" e s']
    by fastforce
  with conns show ?thesis by blast
qed

lemma connections_run_alone_witness:
  "\<exists>fuel requests. handle_connections ref_web ref_lib (start_listening 80 ref_server) ref_db1 fuel requests
     ([], [ref_get_root]) = Some (ref_welcome, [])"
proof -
  obtain st where st: "execution ref_web ref_lib ref_udp ref_db1 0 (initial_program ref_server) ref_events st"
    "pr_connections st = [(Ended None, ref_welcome, []), (AwaitWrite ref_welcome, [], [])]"
    by (rule ref_execution)
  from connections_run_alone [OF st(1), THEN conjunct2, rule_format, of 0] st(2) show ?thesis
    by (simp add: ref_events_simps)
qed

text \<open>
  C4: interleaved connections send their answers. At every moment of every execution, whatever calls
  fail, a connection has sent the complete answers of the requests it has read, in order, except for
  the last of them, of whose answer it may have sent a part; and while it waits for the next request
  there is nothing left of that one either.
\<close>

theorem interleaved_connections_send_answers:
  assumes io: "net_io L file_data file_pos sent"
    and run: "execution L S D db fuel (initial_program config) evs st"
    and i: "i < length (pr_connections st)"
  shows "\<exists>bs. sent (snd (pr_connections st ! i)) = sent (accepted_sockets evs ! i) @ bs
    \<and> partly_answered (answer L file_data file_pos S (running_config config evs) db)
        (requests_read L S (running_config config evs) db (steps_of i evs) (AwaitRequest, accepted_sockets evs ! i)) bs
    \<and> (fst (pr_connections st ! i) = AwaitRequest \<longrightarrow>
        answered (answer L file_data file_pos S (running_config config evs) db)
          (requests_read L S (running_config config evs) db (steps_of i evs) (AwaitRequest, accepted_sockets evs ! i)) bs)"
proof -
  note inv = execution_invariant [OF run, unfolded run_invariant_def]
  obtain pt s' where at: "pr_connections st ! i = (pt, s')" by fastforce
  with inv i have "(resume L S (running_config config evs) db ^^ steps_of i evs)
      (AwaitRequest, accepted_sockets evs ! i) = (pt, s')" by metis
  from steps_sent_so_far [OF io this] at show ?thesis by (auto intro: sent_so_far_partly)
qed

lemma interleaved_connections_send_answers_witness:
  "\<exists>st bs. execution ref_web ref_lib ref_udp ref_db1 0 (initial_program ref_server) ref_events st
     \<and> fst (snd (pr_connections st ! 0)) = bs \<and> bs \<noteq> []
     \<and> partly_answered (answer ref_web (\<lambda>_. ref_file) (\<lambda>f. f) ref_lib (start_listening 80 ref_server) ref_db1)
         [ref_get_root] bs"
proof -
  obtain st where st: "execution ref_web ref_lib ref_udp ref_db1 0 (initial_program ref_server) ref_events st"
    "pr_connections st = [(Ended None, ref_welcome, []), (AwaitWrite ref_welcome, [], [])]"
    by (rule ref_execution)
  have "requests_read ref_web ref_lib (start_listening 80 ref_server) ref_db1 3 (AwaitRequest, [], [ref_get_root]) =
      [ref_get_root]"
    by (simp add: numeral_3_eq_3 read_now_def ref_stream_simps dispatch_def)
  moreover have "ref_welcome \<noteq> []" by (simp add: ref_welcome_def ref_stream_simps)
  ultimately show ?thesis
    using interleaved_connections_send_answers [OF net_io_ref st(1), of 0] st
    by (auto simp: ref_events_simps)
qed

lemma answer_steps:
  assumes io: "net_io L file_data file_pos sent" and ok: "calls_succeed L"
    and comes: "read_request L s = (Inr req, s1)"
    and answered: "answer L file_data file_pos S config db req = Some bs"
    and within: "\<forall>sub r. route_of (rq_target req) = ContentRoute sub \<longrightarrow> create_response L S sub req db = Inr r \<longrightarrow>
        announces_within file_data file_pos r \<and> body_fuel (unat (snd (snd r))) \<le> blocks"
  obtains n s' where "n \<le> blocks + 2" and "sent s' = sent s @ bs"
    and "(resume L S config db ^^ n) (AwaitRequest, s) = (AwaitRequest, s')"
proof -
  have "sent s1 = sent s" using net_io.read_request_keeps [OF io] comes by (metis snd_conv)
  moreover have "case answer L file_data file_pos S config db req of
      Some bs \<Rightarrow> \<exists>s'. serve_request L S config db blocks req s1 = Some (Continue, s') \<and> sent s' = sent s1 @ bs
    | None \<Rightarrow> \<exists>e. serve_request L S config db blocks req s1 = Some (Terminated e, s1)"
    by (rule serve_request_progress [OF io ok within [rule_format]])
  ultimately obtain s' where s': "serve_request L S config db blocks req s1 = Some (Continue, s')"
    "sent s' = sent s @ bs"
    using answered by auto
  from serve_request_steps [OF s'(1)] obtain n where n: "n \<le> Suc blocks"
    "(resume L S config db ^^ n) (dispatch L S config db req, s1) = (AwaitRequest, s')"
    by (elim exE conjE)
  show thesis
    by (rule that [of "Suc n", OF _ s'(2)]) (use n in \<open>simp_all add: comes funpow_swap1\<close>)
qed

text \<open>
  C6: a request is answered after a bounded number of steps of its own connection, whatever the rest
  of the program does in between. In every execution, if a connection waits for a request, no call
  fails, the request that comes next has an answer and, where this is a content response, the file
  behind it holds all that the response announces (which it does not for the ranges of C17 and C18), then
  there is a number of steps, at most two more than the blocks of the body, after which the connection
  has sent that answer and waits again: it can take these steps at once, and after any later events
  with this many steps of the connection among them it is in the same state. The blocks are any
  number that \<open>body_fuel\<close> of the announced length does not exceed.
\<close>

theorem answered_in_bounded_steps:
  assumes io: "net_io L file_data file_pos sent" and ok: "calls_succeed L"
    and run: "execution L S D db dfuel (initial_program config) evs st" and running: "pr_running st"
    and i: "i < length (pr_connections st)" and waits: "pr_connections st ! i = (AwaitRequest, s)"
    and comes: "read_request L s = (Inr req, s1)"
    and answered: "answer L file_data file_pos S (pr_config st) db req = Some bs"
    and within: "\<And>sub r. route_of (rq_target req) = ContentRoute sub \<Longrightarrow> create_response L S sub req db = Inr r
        \<Longrightarrow> announces_within file_data file_pos r \<and> body_fuel (unat (snd (snd r))) \<le> blocks"
  shows "\<exists>n s'. n \<le> blocks + 2 \<and> sent s' = sent s @ bs
    \<and> (\<exists>st'. execution L S D db dfuel (initial_program config) (evs @ replicate n (ResumeConnection i)) st')
    \<and> (\<forall>evs' st'. execution L S D db dfuel (initial_program config) (evs @ evs') st' \<and> steps_of i evs' = n
        \<longrightarrow> pr_connections st' ! i = (AwaitRequest, s'))"
proof -
  have "\<forall>sub r. route_of (rq_target req) = ContentRoute sub \<longrightarrow> create_response L S sub req db = Inr r \<longrightarrow>
      announces_within file_data file_pos r \<and> body_fuel (unat (snd (snd r))) \<le> blocks"
    by (intro allI impI within)
  from answer_steps [OF io ok comes answered this] obtain n s' where n: "n \<le> blocks + 2" "sent s' = sent s @ bs"
    and steps: "(resume L S (pr_config st) db ^^ n) (pr_connections st ! i) = (AwaitRequest, s')"
    unfolding waits by blast
  with execution_steps [OF run running i steps] show ?thesis by (intro exI [of _ n] exI [of _ s']) simp
qed

lemma answered_in_bounded_steps_witness:
  "\<exists>st n s'. execution ref_web ref_lib ref_udp ref_db1 0 (initial_program ref_server) (take 2 ref_events) st
     \<and> n \<le> 2 \<and> fst s' = ref_welcome
     \<and> (\<exists>st'. execution ref_web ref_lib ref_udp ref_db1 0 (initial_program ref_server)
          (take 2 ref_events @ replicate n (ResumeConnection 0)) st' \<and> pr_connections st' ! 0 = (AwaitRequest, s'))"
proof -
  let ?execution = "execution ref_web ref_lib ref_udp ref_db1 0 (initial_program ref_server)"
  obtain st where "perform_all ref_web ref_lib ref_udp ref_db1 0 (take 2 ref_events) (initial_program ref_server) = Some st"
    and st: "pr_running st" "pr_connections st = [(AwaitRequest, [], [ref_get_root])]"
    by (simp add: ref_events_def perform_def initial_program_def run_server_start_def run_server_accept_def)
  then have run: "?execution (take 2 ref_events) st" by (rule_tac execution_perform_all)
  have answer: "answer ref_web (\<lambda>_. ref_file) (\<lambda>f. f) ref_lib (pr_config st) ref_db1 ref_get_root = Some ref_welcome"
    by (simp add: answer_def ref_get_root_route ref_welcome_def)
  have "\<exists>n s'. n \<le> 0 + 2 \<and> fst s' = fst ([], [ref_get_root]) @ ref_welcome
    \<and> (\<exists>st'. ?execution (take 2 ref_events @ replicate n (ResumeConnection 0)) st')
    \<and> (\<forall>evs' st'. ?execution (take 2 ref_events @ evs') st' \<and> steps_of 0 evs' = n
        \<longrightarrow> pr_connections st' ! 0 = (AwaitRequest, s'))"
    by (rule answered_in_bounded_steps [OF net_io_ref ref_calls_succeed run st(1) _ _ _ answer])
      (simp_all add: st(2) ref_stream_simps ref_get_root_route)
  then obtain n s' st' where "n \<le> 0 + 2" "fst s' = fst ([], [ref_get_root]) @ ref_welcome"
    "?execution (take 2 ref_events @ replicate n (ResumeConnection 0)) st'"
    "\<forall>evs' st'. ?execution (take 2 ref_events @ evs') st' \<and> steps_of 0 evs' = n
        \<longrightarrow> pr_connections st' ! 0 = (AwaitRequest, s')"
    by (elim exE conjE) (rule that)
  then have "n \<le> 2" "fst s' = ref_welcome" by simp_all
  moreover have "steps_of 0 (replicate n (ResumeConnection 0 :: (ref_stream, ref_socket) event)) = n"
    by (simp add: steps_of_def)
  moreover note \<open>?execution (take 2 ref_events @ replicate n (ResumeConnection 0)) st'\<close>
    \<open>\<forall>evs' st'. ?execution (take 2 ref_events @ evs') st' \<and> steps_of 0 evs' = n
        \<longrightarrow> pr_connections st' ! 0 = (AwaitRequest, s')\<close>
  ultimately show ?thesis using run by metis
qed

section \<open>What clients are told\<close>

text \<open>
  C38: the announced location is where the server listens, or it leads nowhere. The server writes its
  address into the configuration that discovery reads, and discovery starts after it. In every
  execution, when discovery waits for a datagram and one that parses arrives, its round sends the sender
  nothing if the datagram is no search, and otherwise one whole response, whose location names the host
  and the port that the acceptor was bound to; then discovery waits again (unless sending fails). When the
  acceptor could not be bound (the port is taken), the exception ended the server's detached coroutine
  and nothing else: discovery does the same, with a location that has neither host nor port.
\<close>

theorem announced_location:
  assumes load: "load_configuration K data = Inr config"
    and run: "execution L S D db fuel (initial_program (cf_server config)) evs st" and running: "pr_running st"
    and Z: "serializer D pending message"
    and waits: "pr_discovery st = Receiving k"
    and recv: "udp_receive D 1500 k = (Inr (datagram, sender), k')"
    and parsed: "deserialize_request (udp_parser D) fuel datagram = Some (Inr req)"
    and room: "\<And>resp. handle_request D (running_config (cf_server config) evs) req = Some resp \<Longrightarrow>
        length (message resp) \<le> fuel"
  shows "case handle_request D (running_config (cf_server config) evs) req of
      None \<Rightarrow> perform L S D db fuel ReceiveDatagram st = Some (st\<lparr>pr_discovery := Receiving k'\<rparr>)
    | Some resp \<Rightarrow>
        field_value (rs_fields resp) ''Location'' =
          (case listening_port evs of
             None \<Rightarrow> ''/upnp/device''
           | Some port \<Rightarrow>
               ''http://'' @ sv_host_name (cf_server config) @ '':'' @ show_nat (unat port) @ ''/upnp/device'')
        \<and> perform L S D db fuel ReceiveDatagram st =
            (case udp_send D (message resp) sender k' of
               (None, k'') \<Rightarrow> Some (st\<lparr>pr_discovery := Receiving k''\<rparr>)
             | (Some ec, k'') \<Rightarrow> Some (st\<lparr>pr_discovery := DiscoveryEnded (SystemError ec)\<rparr>))"
proof -
  let ?c = "running_config (cf_server config) evs"
  have c: "pr_config st = ?c" using execution_invariant [OF run] by (simp add: run_invariant_def)
  note reply = discovery_round_replies [OF Z recv parsed, where config = ?c, OF room]
  have perform: "perform L S D db fuel ReceiveDatagram st = run_discovery_round D fuel st"
    using running by (simp add: perform_def)
  show ?thesis
  proof (cases "handle_request D ?c req")
    case None
    with reply waits show ?thesis by (simp add: perform run_discovery_round_def c)
  next
    case (Some resp)
    have "field_value (rs_fields resp) ''Location'' = (case listening_port evs of
        None \<Rightarrow> ''/upnp/device''
      | Some port \<Rightarrow>
          ''http://'' @ sv_host_name (cf_server config) @ '':'' @ show_nat (unat port) @ ''/upnp/device'')"
      using handle_request_fields(2) [OF Some] load_configuration_base_url [OF load]
      by (auto simp: running_config_def start_listening_def Let_def split: option.splits)
    with Some reply waits show ?thesis
      by (auto simp: perform run_discovery_round_def c split: prod.splits option.splits)
  qed
qed

text \<open>The witness: the port is taken, and a search is answered all the same.\<close>

definition ref_sockets :: "ref_socket udp_sockets" where
  "ref_sockets =
     \<lparr>us_open = Inr ([''M-SEARCH''], []), us_set_option = (\<lambda>_ k. Inr k), us_bind = (\<lambda>_ k. Inr k)\<rparr>"

definition unbound_events :: "(ref_stream, ref_socket) event list" where
  "unbound_events = [StartServer (Inl ''Address already in use''), StartDiscovery ref_sockets]"

lemma unbound_execution:
  obtains st where "execution ref_web ref_lib ref_udp ref_db1 fuel (initial_program c) unbound_events st"
    and "pr_running st" and "pr_discovery st = Receiving ([''M-SEARCH''], [])"
proof -
  obtain st where st: "perform_all ref_web ref_lib ref_udp ref_db1 fuel unbound_events (initial_program c) = Some st"
    "pr_running st" "pr_discovery st = Receiving ([''M-SEARCH''], [])"
    by (simp add: unbound_events_def perform_def initial_program_def run_server_start_def
        run_discovery_start_def open_multicast_socket_def ref_sockets_def)
  show thesis by (rule that [OF execution_perform_all [OF st(1)] st(2-)])
qed

lemma announced_location_witness:
  "\<exists>config fuel st resp. load_configuration ref_config_lib (TomlTable 0 []) = Inr config
     \<and> execution ref_web ref_lib ref_udp ref_db1 fuel (initial_program (cf_server config)) unbound_events st
     \<and> field_value (rs_fields resp) ''Location'' = ''/upnp/device''
     \<and> perform ref_web ref_lib ref_udp ref_db1 fuel ReceiveDatagram st =
         Some (st\<lparr>pr_discovery := Receiving ([], [(ref_header resp, 0)])\<rparr>)"
proof -
  obtain config where config: "load_configuration ref_config_lib (TomlTable 0 []) = Inr config"
    by (simp add: load_configuration_def try_get_def)
  have unbound: "listening_port unbound_events = None" "running_config c unbound_events = c" for c
    by (simp_all add: unbound_events_def running_config_def)
  obtain resp where resp: "handle_request ref_udp (running_config (cf_server config) unbound_events) ref_search = Some resp"
    using ref_search_answered by blast
  let ?fuel = "Suc (length (ref_header resp))"
  obtain st where st: "execution ref_web ref_lib ref_udp ref_db1 ?fuel (initial_program (cf_server config)) unbound_events st"
    "pr_running st" "pr_discovery st = Receiving ([''M-SEARCH''], [])"
    by (rule unbound_execution)
  have recv: "udp_receive ref_udp 1500 ([''M-SEARCH''], []) = (Inr (''M-SEARCH'', 0), ([], []))"
    by (simp add: ref_udp_def)
  have parsed: "deserialize_request (udp_parser ref_udp) ?fuel ''M-SEARCH'' = Some (Inr ref_search)"
    by (simp add: ref_udp_def ref_parser_def deserialize_request_def)
  have sends: "udp_send ref_udp bs 0 ([], []) = (None, [], [(bs, 0)])" for bs
    by (simp add: ref_udp_def)
  have "length (ref_header r) \<le> ?fuel"
    if "handle_request ref_udp (running_config (cf_server config) unbound_events) ref_search = Some r" for r
    using that resp by simp
  from announced_location [OF config st(1,2) ref_udp.serializer_axioms st(3) recv parsed this]
  have "field_value (rs_fields resp) ''Location'' = ''/upnp/device''"
    "perform ref_web ref_lib ref_udp ref_db1 ?fuel ReceiveDatagram st =
       Some (st\<lparr>pr_discovery := Receiving ([], [(ref_header resp, 0)])\<rparr>)"
    by (simp_all add: resp [unfolded unbound] unbound sends)
  with config st(1) show ?thesis by blast
qed

section \<open>From the configuration file to the bytes of a film\<close>

lemma answer_file:
  assumes backend: "store_backend S entries snapshot pos" and util: "util L"
    and io: "net_io L file_data file_pos sent" and ok: "calls_succeed L"
    and sound: "sound_entries S (entries db)" and stored: "resource_file L (library_of S (entries db)) j f"
    and route: "route_of (rq_target req) = ContentRoute (show_int (sint j))"
    and meth: "rq_method req \<noteq> Head" and whole: "field_value (rq_fields req) ''Range'' = []"
  obtains resp where "answer L file_data file_pos S config db req = Some (header_bytes L resp @ file_data f)"
    and "rs_status resp = 200"
    and "field_value (rs_fields resp) ''Content-Length'' = show_nat (length (file_data f))"
    and "\<forall>sub r. route_of (rq_target req) = ContentRoute sub \<longrightarrow> create_response L S sub req db = Inr r \<longrightarrow>
        announces_within file_data file_pos r \<and> body_fuel (unat (snd (snd r))) \<le> body_fuel (length (file_data f))"
proof -
  have resp: "create_response L S (show_int (sint j)) req db = ranged_response L req (None, None) f"
    by (rule create_response_file [OF backend util sound stored requested_range_absent [OF whole]])
  obtain r len where r: "ranged_response L req (None, None) f = Inr (r, f, len)"
    "unat len = length (file_data f)" "rs_status r = 200"
    "field_value (rs_fields r) ''Content-Length'' = show_nat (length (file_data f))"
    by (rule net_io.full_response [OF io ok])
  have start: "file_pos f = 0" by (rule net_io.resource_file_pos [OF io stored])
  show thesis
    by (rule that [OF _ r(3,4)])
      (use route resp r(1,2) meth start in
        \<open>simp_all add: answer_def reply_bytes_def content_bytes_def announces_within_def\<close>)
qed

text \<open>
  C3: a started program sends the files of its library. The configuration is loaded, the new database is
  filled by the scan, the services run on the well-formed library that the scan left, connections
  come and go. In every execution, when a connection waits for a request and the next one asks for a
  resource of the library by the URL that listings give for it, with another method than HEAD and
  without a Range header, and no call fails, then after a number of steps of its own, which the
  file's length bounds, the connection has sent a header of status 200 with the length of the file and
  then the whole file, and waits again. It can take these steps at once, and whatever else happens
  between them it is in that state after them.
\<close>

theorem started_program_sends_files:
  assumes backend: "store_backend S entries snapshot pos" and util: "util L"
    and io: "net_io L file_data file_pos sent" and ok: "calls_succeed L"
    and load: "load_configuration_file K argv = Inr config"
    and new: "open_db S (cf_db_path config) = Inr (False, db0)"
    and start: "main_start K S U fs fuel argv = Some (Inr (log, db, st0))"
    and run: "execution L S D db dfuel st0 evs st" and running: "pr_running st"
    and n: "n < length (pr_connections st)" and waits: "pr_connections st ! n = (AwaitRequest, s)"
    and comes: "read_request L s = (Inr req, s1)"
    and stored: "resource_file L (library_of S (entries db)) j f"
    and asked: "rq_target req =
        drop (length (sv_base_url (pr_config st))) (resource_url (sv_base_url (pr_config st)) j)"
    and whole: "rq_method req \<noteq> Head" "field_value (rq_fields req) ''Range'' = []"
  shows "served S (entries db)
    \<and> (\<exists>steps resp s'. steps \<le> body_fuel (length (file_data f)) + 2
        \<and> rs_status resp = 200
        \<and> field_value (rs_fields resp) ''Content-Length'' = show_nat (length (file_data f))
        \<and> sent s' = sent s @ header_bytes L resp @ file_data f
        \<and> (\<exists>st'. execution L S D db dfuel st0 (evs @ replicate steps (ResumeConnection n)) st')
        \<and> (\<forall>evs' st'. execution L S D db dfuel st0 (evs @ evs') st' \<and> steps_of n evs' = steps
            \<longrightarrow> pr_connections st' ! n = (AwaitRequest, s')))"
proof -
  have prepared: "prepare_store S U fs fuel config = Some (Inr (Inr (), db))"
    and st0: "st0 = initial_program (cf_server config)"
    using start by (auto simp: main_start_def load Let_def split: option.splits sum.splits)
  have served: "served S (entries db)" using store_backend.prepare_store_fresh [OF backend new prepared] by blast
  then have sound: "sound_entries S (entries db)" by (simp add: served_def)
  have route: "route_of (rq_target req) = ContentRoute (show_int (sint j))"
    using asked route_of_resource_url by simp
  obtain resp where resp:
    "answer L file_data file_pos S (pr_config st) db req = Some (header_bytes L resp @ file_data f)"
    "rs_status resp = 200" "field_value (rs_fields resp) ''Content-Length'' = show_nat (length (file_data f))"
    and within: "\<forall>sub r. route_of (rq_target req) = ContentRoute sub \<longrightarrow> create_response L S sub req db = Inr r \<longrightarrow>
      announces_within file_data file_pos r \<and> body_fuel (unat (snd (snd r))) \<le> body_fuel (length (file_data f))"
    by (rule answer_file [OF backend util io ok sound stored route whole])
  obtain steps s' where steps: "steps \<le> body_fuel (length (file_data f)) + 2"
    "sent s' = sent s @ header_bytes L resp @ file_data f"
    "(resume L S (pr_config st) db ^^ steps) (pr_connections st ! n) = (AwaitRequest, s')"
    using answer_steps [OF io ok comes resp(1) within] unfolding waits by blast
  from execution_steps [OF run [unfolded st0] running n steps(3)] steps(1,2) resp(2,3) served show ?thesis
    unfolding st0 by (intro conjI exI [of _ steps] exI [of _ resp] exI [of _ s']) simp_all
qed

text \<open>The witness: a first start with one film, and a client that asks for it.\<close>

definition film_toml :: toml where
  "film_toml = TomlTable 0 [(''content'', TomlArray
     [TomlTable 1 [(''type'', TomlString ''movies''), (''path'', TomlString ''/films'')]])]"

definition film_command :: command_lib where
  "film_command =
     config_lib.extend ref_config_lib
       \<lparr>command_line = (\<lambda>options argv. Inr [(''config'', last argv)]),
        parse_toml = (\<lambda>path. if path = ''eems.toml'' then Inr film_toml else Inl (LibraryError ''no file''))\<rparr>"

definition film_argv :: "string list" where
  "film_argv = [''eems'', ''-c'', ''eems.toml'']"

lemma film_toml_config:
  obtains config where "load_configuration_file film_command film_argv = Inr config"
    and "cf_directories config = cf_directories one_film_start"
    and "cf_db_path config = cf_db_path one_film_start"
  by (simp add: load_configuration_file_def film_command_def film_argv_def config_lib.defs load_configuration_def try_get_def film_toml_def toml_find_string_def load_movies_config_def
      one_film_start_def default_config_def)

definition film_request :: http_request where
  "film_request = (ref_get [])\<lparr>rq_target := ''/content/'' @ show_int (sint (0 :: int64))\<rparr>"

definition film_events :: "(ref_stream, ref_socket) event list" where
  "film_events = [StartServer (Inr 80), AcceptConnection (Inr ([], [film_request]))]"

lemma film_request_simps:
  "route_of (rq_target film_request) = ContentRoute (show_int (sint (0 :: int64)))"
  "rq_method film_request \<noteq> Head" "field_value (rq_fields film_request) ''Range'' = []"
  "rq_target film_request = drop (length base) (resource_url base 0)"
proof -
  show target: "rq_target film_request = drop (length base) (resource_url base 0)" for base
    by (simp add: film_request_def resource_url_def)
  show "route_of (rq_target film_request) = ContentRoute (show_int (sint (0 :: int64)))"
    unfolding target [of "[]"] by (rule route_of_resource_url)
  show "rq_method film_request \<noteq> Head" "field_value (rq_fields film_request) ''Range'' = []"
    by (simp_all add: film_request_def ref_get_def)
qed

lemma film_execution:
  obtains st where "execution ref_web ref_lib ref_udp db 0 (initial_program c) film_events st"
    and "pr_running st" and "pr_connections st = [(AwaitRequest, [], [film_request])]"
proof -
  obtain st where st: "perform_all ref_web ref_lib ref_udp db 0 film_events (initial_program c) = Some st"
    "pr_running st" "pr_connections st = [(AwaitRequest, [], [film_request])]"
    by (simp add: film_events_def perform_def initial_program_def run_server_start_def run_server_accept_def)
  show thesis by (rule that [OF execution_perform_all [OF st(1)] st(2-)])
qed

lemma started_program_sends_files_witness:
  "\<exists>config log db st0 steps resp st' s'.
     load_configuration_file film_command film_argv = Inr config
     \<and> main_start film_command ref_lib ref_util one_film 1 film_argv = Some (Inr (log, db, st0))
     \<and> execution ref_web ref_lib ref_udp db 0 st0 (film_events @ replicate steps (ResumeConnection 0)) st'
     \<and> steps \<le> 4 \<and> rs_status resp = 200
     \<and> pr_connections st' ! 0 = (AwaitRequest, s') \<and> fst s' = ref_header resp @ ref_file"
proof -
  obtain config where config: "load_configuration_file film_command film_argv = Inr config"
    "cf_directories config = cf_directories one_film_start" "cf_db_path config = cf_db_path one_film_start"
    by (rule film_toml_config)
  obtain db where db: "prepare_store ref_lib ref_util one_film 1 one_film_start = Some (Inr (Inr (), db))"
    "resource_file ref_web (library_of ref_lib db) 0 0"
    by (rule one_film_stored)
  have "prepare_store ref_lib ref_util one_film 1 config = Some (Inr (Inr (), db))"
    using db(1) unfolding prepare_store_def config(2,3) .
  with config(1) have start: "main_start film_command ref_lib ref_util one_film 1 film_argv =
      Some (Inr (intialize_logging (cf_logging config), db, initial_program (cf_server config)))"
    by (simp add: main_start_def Let_def)
  have new: "open_db ref_lib (cf_db_path config) = Inr (False, ref_db0)" by (rule ref_open)
  let ?execution = "execution ref_web ref_lib ref_udp db 0 (initial_program (cf_server config))"
  obtain st where st: "?execution film_events st" "pr_running st"
    "pr_connections st = [(AwaitRequest, [], [film_request])]"
    by (rule film_execution)
  have waits: "0 < length (pr_connections st)" "pr_connections st ! 0 = (AwaitRequest, [], [film_request])"
    "read_request ref_web ([], [film_request]) = (Inr film_request, [], [])"
    by (simp_all add: st(3) ref_stream_simps)
  obtain steps resp s' st' where sends: "steps \<le> body_fuel (length ref_file) + 2" "rs_status resp = 200"
    "fst s' = fst ([], [film_request]) @ header_bytes ref_web resp @ ref_file"
    "?execution (film_events @ replicate steps (ResumeConnection 0)) st'"
    "\<forall>evs' st'. ?execution (film_events @ evs') st' \<and> steps_of 0 evs' = steps
        \<longrightarrow> pr_connections st' ! 0 = (AwaitRequest, s')"
    using started_program_sends_files [OF store_backend_ref ref_util_web net_io_ref ref_calls_succeed config(1)
        new start st(1,2) waits db(2) film_request_simps(4,2,3)] by metis
  have "steps_of 0 (replicate steps (ResumeConnection 0 :: (ref_stream, ref_socket) event)) = steps"
    by (simp add: steps_of_def)
  with sends(4,5) have "pr_connections st' ! 0 = (AwaitRequest, s')" by blast
  moreover have "steps \<le> 4" "fst s' = ref_header resp @ ref_file"
    using sends(1,3) by (simp_all add: body_fuel_def ref_file_def) (simp_all add: ref_web_def)
  moreover note config(1) start sends(2,4)
  ultimately show ?thesis by (intro exI conjI)
qed

text \<open>
  C7: a later start serves what the first one stored, and nothing else. When the database exists and
  still holds what the first scan left, the program starts on exactly that library, which is
  well-formed and reachable from the root, without an exception and whatever the directories hold
  now. So after a first scan that an exception ended (\<open>r\<close> is then that exception), what it had not
  reached is not listed by any later start either.
\<close>

theorem restart_serves_stored_library:
  assumes backend: "store_backend S entries snapshot pos"
    and new: "open_db S (cf_db_path config) = Inr (False, db0)"
    and first: "prepare_store S U fs fuel config = Some (Inr (r, db1))"
    and load: "load_configuration_file K argv = Inr config'"
    and reopened: "opening False False (cf_db_path config') = OpenOk db2" "entries db2 = entries db1"
  shows "main_start K (S\<lparr>ldb_open := opening\<rparr>) U' fs' fuel' argv =
      Some (Inr (intialize_logging (cf_logging config'), db2, initial_program (cf_server config')))
    \<and> served (S\<lparr>ldb_open := opening\<rparr>) (entries db2)
    \<and> library_of (S\<lparr>ldb_open := opening\<rparr>) (entries db2) = library_of S (entries db1)
    \<and> (\<forall>i \<in> dom (lib_objects (library_of S (entries db1))).
          reachable (S\<lparr>ldb_open := opening\<rparr>) (library_of S (entries db1)) i)"
proof -
  let ?S = "S\<lparr>ldb_open := opening\<rparr>"
  have "served S (entries db1)" using store_backend.prepare_store_fresh [OF backend new first] by simp
  then have served: "served ?S (entries db2)" by (simp add: reopened(2))
  then have "wf_library ?S (library_of S (entries db1))" by (simp only: served_def reopened reopened_library)
  from wf_library_reachable [OF this]
  have "\<forall>i \<in> dom (lib_objects (library_of S (entries db1))). reachable ?S (library_of S (entries db1)) i"
    by blast
  moreover have "prepare_store ?S U' fs' fuel' config' = Some (Inr (Inr (), db2))"
    by (rule prepare_store_existing) (simp add: reopened(1))
  ultimately show ?thesis using served by (simp add: main_start_def load reopened(2))
qed

text \<open>
  The witness: the directory cannot be read at the first start; at the second it can and holds a film,
  and the library still has no resource.
\<close>

lemma restart_serves_stored_library_witness:
  "\<exists>e log st0. prepare_store ref_lib ref_util (\<lambda>_. None) 1 one_film_start = Some (Inr (Inl e, folder_db))
     \<and> main_start film_command (ref_lib\<lparr>ldb_open := \<lambda>_ _ _. OpenOk folder_db\<rparr>) ref_util one_film 1 film_argv =
         Some (Inr (log, folder_db, st0))
     \<and> film_below one_film ''/films'' ''/films/Alien.mkv''
     \<and> lib_resources (library_of (ref_lib\<lparr>ldb_open := \<lambda>_ _ _. OpenOk folder_db\<rparr>) folder_db) = Map.empty"
proof -
  obtain config where config: "load_configuration_file film_command film_argv = Inr config"
    by (rule film_toml_config)
  obtain e where first: "prepare_store ref_lib ref_util (\<lambda>_. None) 1 one_film_start = Some (Inr (Inl e, folder_db))"
    by (rule unreadable_run)
  note restart = restart_serves_stored_library [OF store_backend_ref ref_open first config,
      of "\<lambda>_ _ _. OpenOk folder_db" folder_db ref_util one_film 1]
  have "main_start film_command (ref_lib\<lparr>ldb_open := \<lambda>_ _ _. OpenOk folder_db\<rparr>) ref_util one_film 1 film_argv =
      Some (Inr (intialize_logging (cf_logging config), folder_db, initial_program (cf_server config)))"
    by (rule conjunct1 [OF restart [OF refl refl]])
  with first one_film_below folder_db_put(5) show ?thesis by (intro exI conjI) simp_all
qed

section \<open>Listings and adapters\<close>

text \<open>
  C39: serialising a listing through its cursors is serialising the list of its objects. With the
  cursors that \<^verbatim>\<open>views::drop\<close> and \<^verbatim>\<open>views::take\<close> give, the loop of \<^verbatim>\<open>count_if\<close> ends, visits the
  requested part in order through the one database iterator, and never reads through the end cursor,
  whose iterator is null: the response is the one of the model that works on lists.
\<close>

theorem listing_through_cursors:
  assumes first: "drops view (unat start_index) first"
    and final: "takes view first (unat (if requested_count = 0 then word_of_nat (length (objects view))
        else requested_count)) final"
    and fuel: "length (objects view) < fuel"
  shows "browse_through_cursors L S fuel view first final base_url =
    Some (browse_response L S view start_index requested_count base_url)"
  by (rule browse_cursors_listing [OF first final fuel])

definition ref_view where
  "ref_view = \<lparr>db_it = create_iterator ref_lib ref_db1, objects = [enc_key (ObjectKey 1), enc_key (ObjectKey 1)]\<rparr>"

lemma listing_through_cursors_witness:
  "browse_through_cursors ref_web ref_lib 3 ref_view (list_next (list_begin_cursor ref_view)) (list_end_cursor ref_view) ''http://nas:80'' =
     Some (browse_response ref_web ref_lib ref_view 1 0 ''http://nas:80'')"
proof (rule listing_through_cursors)
  show "drops ref_view (unat (1 :: 32 word)) (list_next (list_begin_cursor ref_view))"
    by (simp add: drops_def ref_view_def list_distance_to_def list_begin_cursor_def list_end_cursor_def
        list_advance_def list_next_def)
  show "takes ref_view (list_next (list_begin_cursor ref_view))
      (unat (if (0 :: 32 word) = 0 then word_of_nat (length (objects ref_view)) else (0 :: 32 word))) (list_end_cursor ref_view)"
    by (simp add: takes_def ref_view_def list_distance_to_def list_begin_cursor_def list_end_cursor_def
        list_next_def)
qed (simp add: ref_view_def)

text \<open>
  C40: an adapted operation completes with one result. Whatever values of its signature an operation
  completes with, from whatever arguments, if the signature is an error code with at most one value,
  the handler made from the token gets exactly one argument, a result: the error if the code is set, and
  the value (or none) otherwise; it has the type of the changed signature; every other signature is left as it is, and its completions are
  accepted by no overload.
\<close>

theorem adapted_completion:
  fixes completion :: "'a list \<Rightarrow> 'v cvalue list"
  assumes "fits ty (completion args) sig"
  shows "if adaptable sig
    then \<exists>ec v. completion args = ErrorCode ec # (case v of None \<Rightarrow> [] | Some x \<Rightarrow> [x])
      \<and> fits ty [ResultOf (case ec of Some e \<Rightarrow> Inl e | None \<Rightarrow> Inr v)] (as_result_signature sig)
      \<and> (\<forall>(make :: 't \<Rightarrow> signature \<Rightarrow> ('v, 'r) handler) tok.
            initiate (\<lambda>t sig' start. start (make t sig')) sig (\<lambda>h xs. h (completion xs)) (as_result tok) args =
            make tok (as_result_signature sig) [ResultOf (case ec of Some e \<Rightarrow> Inl e | None \<Rightarrow> Inr v)])
    else as_result_signature sig = sig
      \<and> (\<forall>(make :: 't \<Rightarrow> signature \<Rightarrow> ('v, 'r) handler) tok.
            initiate (\<lambda>t sig' start. start (make t sig')) sig (\<lambda>h xs. h (completion xs)) (as_result tok) args = None)"
proof (cases "adaptable sig")
  case True
  from handler_call_fits [OF True assms] obtain ec v
    where "completion args = ErrorCode ec # (case v of None \<Rightarrow> [] | Some x \<Rightarrow> [x])"
      "fits ty [ResultOf (result_of ec v)] (as_result_signature sig)"
      "\<And>h :: ('v, 'r) handler. handler_call (handler_of h) (completion args) = h [ResultOf (result_of ec v)]" by blast
  note result = this [unfolded result_of_def]
  from True result show ?thesis
    by (intro if_P [THEN iffD2] exI [of _ ec] exI [of _ v]) (auto simp: initiate_def init_wrapper_def as_result_def)
next
  case False
  have "handler_call (handler_of h) (completion args) = None" for h :: "('v, 'r) handler"
    by (rule handler_call_rejects [OF False assms])
  with handler_call_rejects(1) [OF False assms] False show ?thesis
    by (simp add: initiate_def init_wrapper_def as_result_def)
qed

lemma adapted_completion_witness:
  "\<exists>ec v. [ErrorCode None, OtherValue (length ''abc'')] = ErrorCode ec # (case v of None \<Rightarrow> [] | Some x \<Rightarrow> [x])
     \<and> fits (\<lambda>_. ''size_t'') [ResultOf (case ec of Some e \<Rightarrow> Inl e | None \<Rightarrow> Inr v)] [ResultType (Some (OtherType ''size_t''))]"
proof -
  let ?read = "\<lambda>bs. [ErrorCode None, OtherValue (length bs)]"
  have "fits (\<lambda>_. ''size_t'') (?read ''abc'') [ErrorCodeType, OtherType ''size_t'']"
    by (simp add: fits_def)
  from adapted_completion [where completion = ?read, OF this] show ?thesis by (auto simp: adaptable_def)
qed

end
