(* ===== verification/Spec2Isabelle.thy ===== *)
theory Spec2Isabelle
  imports ProgramProperties
begin

text \<open>
  This development models eems, a media server for a home network: it scans directories of films into
  a library kept in LevelDB, announces itself by SSDP, lets UPnP clients browse the library over
  SOAP, and serves the files over HTTP with ranges.

  \<^bold>\<open>Parts and theories.\<close> Sources are below \<^verbatim>\<open>src/\<close> of the repository. A theory named in
  brackets holds lemmas about the one before it.

  \<^item> \<open>Prelude\<close>: exceptions as values (\<open>exn\<close>, with \<^verbatim>\<open>http_error\<close> and \<^verbatim>\<open>upnp_error\<close>), results
    and state-passing procedures, C strings, decimal numerals, signed 64-bit increments (whose
    overflow is the value \<open>Undefined\<close>).
  \<^item> \<open>Schema\<close>: the tables of \<^verbatim>\<open>store/schema.fbs\<close> and the converters of
    \<^verbatim>\<open>store/fb_converters.h\<close>; the FlatBuffers encoding is a parameter (locale \<open>flatbuffers\<close>).
  \<^item> \<open>LevelDB\<close>: the interface to the database (locale \<open>leveldb\<close>), entries in comparator order.
  \<^item> \<open>Store\<close> [\<open>Library\<close>, \<open>Refinement\<close>]: \<^verbatim>\<open>store/store_service.cpp\<close> and \<^verbatim>\<open>.h\<close>. \<open>Library\<close> is its
    abstract specification, a map of objects and a map of resources with \<open>put_items_spec\<close> and
    \<open>wf_library\<close>; \<open>Refinement\<close> shows that the operations implement it.
  \<^item> \<open>StdMap\<close>, \<open>Libraries\<close>, \<open>Paths\<close>: what the sources use of \<^verbatim>\<open>std::map\<close>, of Spirit's parsers
    (\<^verbatim>\<open>spirit.h\<close>), Boost's trim and the calendar (locale \<open>util\<close>), and of
    \<^verbatim>\<open>std::filesystem::path\<close>.
  \<^item> \<open>Titles\<close>, \<open>Scanner\<close> [\<open>ScanTree\<close>, \<open>Composer\<close>, \<open>ScanSafe\<close>]: \<^verbatim>\<open>scanner/movie_scanner.cpp\<close> and
    \<^verbatim>\<open>.h\<close>. The file system is a function from paths to listings; \<open>ScanTree\<close> specifies the tree
    below a directory and the videos in it.
  \<^item> \<open>Config\<close>, \<open>Logging\<close>, \<open>Startup\<close>: \<^verbatim>\<open>config.cpp\<close> with its headers, \<^verbatim>\<open>logging.cpp\<close>, and
    the first scan of \<^verbatim>\<open>main.cpp\<close>. The configuration record is flat: \<open>cf_directories\<close> is
    \<^verbatim>\<open>data.content_directories\<close> and \<open>cf_db_path\<close> is \<^verbatim>\<open>db.db_path\<close>.
  \<^item> \<open>Http\<close>, \<open>NetLib\<close>: \<^verbatim>\<open>http_messages.h\<close> and \<^verbatim>\<open>.cpp\<close>, and the interface to files and streams
    (locale \<open>net_io\<close>): what a file holds, where its handle stands, what a stream has sent. The expiry
    that is set before each read of a request is an operation of the stream (\<open>read_request\<close>).
  \<^item> \<open>Content\<close> [\<open>Serving\<close>]: \<^verbatim>\<open>content_service.cpp\<close>, ranges on 64-bit words and the body loop.
  \<^item> \<open>Xml\<close>, \<open>XmlSerialization\<close>, \<open>Soap\<close>, \<open>Upnp\<close> [\<open>Browse\<close>]: \<^verbatim>\<open>xml_serialization.cpp\<close>,
    \<^verbatim>\<open>soap.cpp\<close> and \<^verbatim>\<open>upnp.cpp\<close>.
  \<^item> \<open>Server\<close> [\<open>Links\<close>, \<open>Answers\<close>]: \<^verbatim>\<open>server.cpp\<close>. \<open>answer\<close> specifies the bytes a request is
    answered with, as a function of the database and the files.
  \<^item> \<open>HttpSerialize\<close>, \<open>Discovery\<close>: \<^verbatim>\<open>http_serialize.h\<close> and \<^verbatim>\<open>discovery_service.cpp\<close>.
  \<^item> \<open>Coroutine\<close> [\<open>ShortBody\<close>], \<open>EventLoop\<close>: the coroutine of a connection as small steps from one \<^verbatim>\<open>co_await\<close> to
    the next, and the rest of \<^verbatim>\<open>main.cpp\<close>, \<^verbatim>\<open>server::run_server\<close> and the start of discovery as the
    events that resume the coroutines, in any order.
  \<^item> \<open>AsResult\<close>, \<open>Views\<close>: \<^verbatim>\<open>as_result.h\<close>, and the cursors of \<^verbatim>\<open>fb_vector_view.h\<close> and of
    \<^verbatim>\<open>list_result_view\<close> in \<^verbatim>\<open>store_service.h\<close> (locale \<open>cursor_range\<close>).
  \<^item> \<open>Reference\<close>, \<open>ReferenceUtil\<close>, \<open>ReferenceNet\<close>, \<open>Fixtures\<close>, \<open>FirstScan\<close>: executable instances
    of the interfaces (an encoding, a database in memory, parsers, streams), concrete values and a
    first start evaluated to its end. They show
    that the interfaces' laws can hold together with the code, and the witnesses are about them.
  \<^item> \<open>ServiceProperties\<close>, \<open>ProgramProperties\<close> and this theory: the properties, with their witnesses.

  \<^bold>\<open>State.\<close> A C++ object whose methods change it is a record that the modelled methods take and
  return: \<open>scanner\<close> (the counters and the store), \<open>object_composer\<close>, the database \<open>'db\<close> itself, and
  for the services the stream \<open>'s\<close> they write to. A method that can throw is a \<open>proc\<close>: it returns
  \<open>Inl\<close> the exception or \<open>Inr\<close> its value, with the state it left behind in both cases. Integers
  that can overflow are words of their width; where the code computes with \<^verbatim>\<open>std::uintmax_t\<close> the
  model computes with \<open>64 word\<close>, wrap-around included.

  \<^bold>\<open>What the lemmas show.\<close> \<open>Refinement\<close>: every store operation on every branch, as a function of the
  library. \<open>Composer\<close>: the item composer equals a specification that chooses files by filtering.
  \<open>ScanSafe\<close>: the scan's invariant (counters above every stored identifier, containers for every
  pending directory, a well-formed library), kept by every step, exceptions included; that a scan
  which ends normally has listed every video below its root; and its termination. \<open>Titles\<close>: where the
  year of a name is found, and the title left of it. \<open>Serving\<close>: slices, whole files, and the cases
  where the body loop cannot end; \<open>ShortBody\<close>: what a connection sends in these cases, whatever calls
  fail, and where it stays. \<open>Browse\<close>:
  listings of well-formed libraries, the links in them, their pages, and what a Browse that cannot be
  answered throws. \<open>Startup\<close>: a first start, and the starts after it. \<open>Answers\<close>: the handlers against \<open>answer\<close>, for a request and, by
  rule induction, for a connection. \<open>Coroutine\<close>: the small steps against these calls, in both
  directions, the number of steps a request takes, and what has been sent at every point of suspension.
  \<open>EventLoop\<close>: the invariant of executions, which gives every connection as the result of its own
  steps alone, and that a connection which does not end can always take its steps. \<open>Views\<close>: loops over
  cursors are loops over lists. \<open>Config\<close>: what a loaded configuration is.

  \<^bold>\<open>Loops and fuel.\<close> \<open>None\<close> is running out of fuel. The scan of a tree needs one unit per directory
  (\<open>tree_weight\<close>). The body loop needs \<open>body_fuel\<close>: one unit per block of 4096 bytes and one to leave
  the loop; there are requests for which no fuel is enough while no call fails, and the theorems say so
  and what the small steps, which need no fuel, do then. The loop over
  the requests of a connection takes a bound on their number; \<open>serves\<close>, without a bound, is the
  relation of the reachable states; and \<open>resume\<close>, which needs neither, ends in exactly the states that
  some fuel and some bound reach. A loop over cursors needs one unit per element and one more. The
  loops over datagram buffers need one unit per byte and one
  more; \<open>run_service\<close> is the first rounds of an endless loop.

  \<^bold>\<open>Interleaving.\<close> The program has one thread. A coroutine runs undisturbed from one point of suspension to
  the next, so an execution is a list of events, each the completion of what some coroutine waits for;
  nothing is assumed of their order but that the two services start in the order they were spawned in.
  What the system answers (ports, sockets, error codes) is in the events or in the parameters, and is
  arbitrary. The services share the database, which no handler writes, and the configuration, which
  the server writes once, before its first suspension.

  \<^bold>\<open>Restarts.\<close> A later process has the same library functions, but for what opening a path gives it
  (\<open>S\<lparr>ldb_open := opening\<rparr>\<close>); that LevelDB kept the entries is a hypothesis where it is used.

  \<^bold>\<open>Not modelled.\<close> The log messages; Boost's parser of the command line and toml11's of the file, which
  are parameters; time: the 30 second expiry is set on the stream, and when it passes is the stream's
  affair, so the calls that then fail are among those that fail at any point; the texts of \<^verbatim>\<open>cds.xml\<close>
  and \<^verbatim>\<open>cm.xml\<close>, which are arguments; and what is printed of an XML document, where the printer is
  a parameter. \<^verbatim>\<open>fs.h\<close>, \<^verbatim>\<open>net.h\<close>, \<^verbatim>\<open>ranges.h\<close> and \<^verbatim>\<open>asio/\<close> hold namespace aliases and the
  compilation of header-only libraries.
\<close>

section \<open>Properties\<close>

text \<open>
  C1: scanning a directory tree keeps the library well-formed. From a database that serves a
  well-formed library, whatever the files are called and whenever the scan stops (at the end, or by
  an exception), the database still serves a well-formed library, every container is still one,
  and the root still holds containers only; and unless the backend refuses a write the scan fails
  only on an unreadable directory or the overflow of an identifier.
\<close>

theorem scan_keeps_library_well_formed:
  assumes backend: "store_backend S entries snapshot pos"
    and served: "served S (entries db)" "root_of_containers (library_of S (entries db))"
    and free: "int64_max \<notin> dom (lib_objects (library_of S (entries db)))"
      "int64_max \<notin> dom (lib_resources (library_of S (entries db)))"
    and run: "scan_all S U fs fuel root config (new_scanner db) = Some (r, sc')"
  shows "served S (entries (sc_store sc')) \<and> root_of_containers (library_of S (entries (sc_store sc')))
    \<and> (\<forall>i. has_container (library_of S (entries db)) i
            \<longrightarrow> has_container (library_of S (entries (sc_store sc'))) i)
    \<and> (writes_ok S \<longrightarrow> (\<forall>e. r = Inl e \<longrightarrow> scan_exn e))"
proof -
  have "store_backend.scan_start S entries (new_scanner db)"
    using served free
    by (simp add: store_backend.scan_start_def [OF backend] store_backend.sound_db_def [OF backend]
        served_def new_scanner_def)
  note safe = store_backend.scan_all_safe [OF backend this run]
  have "sc_store (new_scanner db) = db" by (simp add: new_scanner_def)
  with safe show ?thesis
    by (simp add: served_def store_backend.sound_db_def [OF backend]
        store_backend.scan_start_def [OF backend])
qed

text \<open>A witness: a directory with one film, scanned into a new database.\<close>

definition film_tree :: file_system where
  "film_tree path =
     (if path = ''/films''
      then Some [(''Alien (1979).mkv'', RegularFile), (''Alien (1979).srt'', RegularFile),
                 (''extras'', Directory)]
      else if path = ''/films/extras'' then Some [] else None)"

definition film_weight :: "string \<Rightarrow> nat" where
  "film_weight path = (if path = ''/films'' then 2 else 1)"

lemma film_tree_weight: "tree_weight film_tree film_weight"
  by (auto simp: tree_weight_def film_tree_def film_weight_def subdirectories_def path_append_def
      split: option.splits)

definition films_config :: movies_library_config where
  "films_config = \<lparr>use_folder_names = True, use_collections = True\<rparr>"

lemma film_scan:
  obtains r sc' where
    "scan_all ref_lib ref_util film_tree 2 ''/films'' films_config (new_scanner ref_db0) = Some (r, sc')"
  using scan_all_terminates [OF film_tree_weight, of "''/films''" 2 ref_lib ref_util films_config "new_scanner ref_db0"]
  by (auto simp: film_weight_def)

lemma scan_keeps_library_well_formed_witness:
  "\<exists>r sc'. scan_all ref_lib ref_util film_tree 2 ''/films'' films_config (new_scanner ref_db0) = Some (r, sc')
     \<and> served ref_lib (sc_store sc')"
proof -
  obtain r sc' where run:
    "scan_all ref_lib ref_util film_tree 2 ''/films'' films_config (new_scanner ref_db0) = Some (r, sc')"
    by (rule film_scan)
  have root: "root_of_containers (library_of ref_lib ref_db0)"
    by (simp add: ref_fresh root_of_containers_def root_object_def children_def)
  have "served ref_lib (sc_store sc')"
    using scan_keeps_library_well_formed [OF store_backend_ref ref_served root _ _ run]
    by (simp add: ref_fresh int64_max_def)
  with run show ?thesis by blast
qed

text \<open>
  C2: films on disk are found and served. When a first start ends without an exception, on a backend
  that refuses no write, then for every video file below a configured directory there is an item a
  client reaches by browsing from the root, its first resource is that file, the first link in the
  node that listings show for it is the resource's URL, and this, without the base URL, is routed to
  the content service, which answers from the file.
\<close>

theorem first_start_films_are_served:
  assumes backend: "store_backend S entries snapshot pos" and ok: "writes_ok S"
    and new: "open_db S (cf_db_path config) = Inr (False, db)"
    and run: "prepare_store S U fs fuel config = Some (Inr (Inr (), db'))"
    and names: "plain_names fs" and dir: "dir \<in> set (cf_directories config)"
    and film: "film_below fs (dir_path dir) path"
    and util: "util L" and file_ok: "NUL \<notin> set path" "f_open L path = FileOpen f"
    and rng: "requested_range L req = Inr rng"
  shows "\<exists>i ob ref refs j sub attrs fields.
    reachable S (library_of S (entries db')) i \<and> lib_objects (library_of S (entries db')) i = Some ob
    \<and> mo_data ob = MediaItem (Some (ref # refs)) \<and> rr_ref ref = fb_key S (ResourceKey j)
    \<and> serialize_media_object L S base ob = Inr (Some (Element ''item'' attrs fields))
    \<and> hd (links_named ''res'' fields) = c_str (resource_url base j)
    \<and> route_of (drop (length base) (resource_url base j)) = ContentRoute sub
    \<and> create_response L S sub req db' = ranged_response L req rng f"
proof -
  have served: "served S (entries db')"
    using store_backend.prepare_store_fresh [OF backend new run] by blast
  obtain i ob ref refs j r where item: "lib_objects (library_of S (entries db')) i = Some ob"
    "mo_data ob = MediaItem (Some (ref # refs))" "rr_ref ref = fb_key S (ResourceKey j)"
    and res: "lib_resources (library_of S (entries db')) j = Some r" "res_location r = Some (put_string path)"
    using store_backend.prepare_store_films [OF backend new run ok names dir film]
    unfolding listed_film_def by blast
  have F: "flatbuffers S" using backend by (simp add: store_backend_def)
  have wf: "wf_library S (library_of S (entries db'))" using served by (simp add: served_def)
  obtain attrs fields where node:
    "serialize_media_object L S base ob = Inr (Some (Element ''item'' attrs fields))"
    using flatbuffers.item_node [OF F wf_libraryD(3) [OF wf item(1)] item(2)] by blast
  have "hd (links_named ''res'' fields) = c_str (resource_url base j)"
    using serialize_media_object_links(1) [OF node] item(2,3) flatbuffers.key_root [OF F]
    by (simp add: resource_list_def link_of_def)
  moreover have "reachable S (library_of S (entries db')) i"
    by (rule wf_library_reachable) (use served item in \<open>auto simp: served_def\<close>)
  moreover have "resource_file L (library_of S (entries db')) j f"
    using res file_ok by (auto simp: resource_file_def)
  then have "create_response L S (show_int (sint j)) req db' = ranged_response L req rng f"
    by (intro create_response_file [OF backend util _ _ rng]) (use served in \<open>simp add: served_def\<close>)
  ultimately show ?thesis using item node route_of_resource_url [of base j] by blast
qed

lemma first_start_films_are_served_witness:
  "\<exists>db' i ob ref refs j sub.
     prepare_store ref_lib ref_util one_film 1 one_film_start = Some (Inr (Inr (), db'))
     \<and> reachable ref_lib (library_of ref_lib db') i \<and> lib_objects (library_of ref_lib db') i = Some ob
     \<and> mo_data ob = MediaItem (Some (ref # refs)) \<and> rr_ref ref = fb_key ref_lib (ResourceKey j)
     \<and> route_of (drop (length ''http://nas:80'') (resource_url ''http://nas:80'' j)) = ContentRoute sub
     \<and> create_response ref_web ref_lib sub (ref_get []) db' = ranged_response ref_web (ref_get []) (None, None) 0"
proof -
  obtain db' where run: "prepare_store ref_lib ref_util one_film 1 one_film_start = Some (Inr (Inr (), db'))"
    by (rule one_film_run)
  have ok: "writes_ok ref_lib" by (simp add: writes_ok_def ref_writes)
  have dir: "\<lparr>dir_path = ''/films'', dir_scanner = default_movies_config\<rparr> \<in> set (cf_directories one_film_start)"
    by (simp add: one_film_start_def)
  have film: "film_below one_film (dir_path \<lparr>dir_path = ''/films'', dir_scanner = default_movies_config\<rparr>) ''/films/Alien.mkv''"
    using one_film_below by simp
  have opened: "f_open ref_web ''/films/Alien.mkv'' = FileOpen 0" by (simp add: ref_web_def)
  have rng: "requested_range ref_web (ref_get []) = Inr (None, None)"
    by (rule requested_range_absent) (simp add: ref_get_def)
  have "NUL \<notin> set ''/films/Alien.mkv''" by simp
  from first_start_films_are_served [OF store_backend_ref ok ref_open run one_film_names dir film
      ref_util_web this opened rng, of "''http://nas:80''"] run
  show ?thesis by blast
qed

text \<open>
  C8: the scan of a finite directory tree ends. With one unit of fuel per directory (any weight that
  gives a directory more than its subdirectories together bounds their number), \<open>scan_all\<close>
  returns.
\<close>

theorem scan_returns:
  assumes "tree_weight fs w" and "w root \<le> fuel"
  shows "scan_all S U fs fuel root config sc \<noteq> None"
  using assms by (rule scan_all_terminates)

lemma scan_returns_witness:
  "scan_all ref_lib ref_util film_tree 2 ''/films'' films_config (new_scanner ref_db0) \<noteq> None"
  by (rule scan_returns [OF film_tree_weight]) (simp add: film_weight_def)

text \<open>
  C9: \<open>put_items\<close> implements its specification. Given new items for a container of a well-formed
  library, it returns normally and the library becomes \<open>put_items_spec\<close>, which is well-formed
  again; if the backend refuses the batch nothing is changed at all.
\<close>

theorem put_items_refines_spec:
  assumes backend: "store_backend S entries snapshot pos"
    and served: "served S (entries db)"
    and new: "new_items S (library_of S (entries db)) parent (map (fb_object_root S) items)
        (map (\<lambda>(k, b). (k, fb_resource_root S b)) res)"
  shows "\<exists>db'. put_items S parent items res db = (Inr (), db') \<and> served S (entries db')
    \<and> (library_of S (entries db') =
          put_items_spec S parent (map (fb_object_root S) items)
            (map (\<lambda>(k, b). (k, fb_resource_root S b)) res) (library_of S (entries db))
        \<or> entries db' = entries db \<and> \<not> writes_ok S)"
proof -
  have db: "store_backend.sound_db S entries db" and wf: "wf_library S (library_of S (entries db))"
    using served by (simp_all add: served_def store_backend.sound_db_def [OF backend])
  show ?thesis
    using store_backend.put_items_wf [OF backend db wf new] unfolding writes_ok_def served_def
      store_backend.sound_db_def [OF backend] by (metis option.distinct(1))
qed

definition movies_folder_1 :: bytes where
  "movies_folder_1 = fb_object ref_lib (movies_folder_object 1)"

lemma movies_folder_1_new:
  "new_items ref_lib (library_of ref_lib ref_db0) 0 (map (fb_object_root ref_lib) [movies_folder_1])
     (map (\<lambda>(k, b). (k, fb_resource_root ref_lib b)) [])"
  by (simp add: new_items_def ref_fresh movies_folder_1_def movies_folder_object_def children_def
      root_object_def wf_object_def artwork_list_def resource_list_def)

lemma put_items_refines_spec_witness:
  "\<exists>db'. put_items ref_lib 0 [movies_folder_1] [] ref_db0 = (Inr (), db') \<and> served ref_lib db'
     \<and> lib_objects (library_of ref_lib db') 1 = Some (movies_folder_object 1)"
proof -
  obtain db' where db': "put_items ref_lib 0 [movies_folder_1] [] ref_db0 = (Inr (), db')" "served ref_lib db'"
    "library_of ref_lib db' = put_items_spec ref_lib 0 (map (fb_object_root ref_lib) [movies_folder_1])
       (map (\<lambda>(k, b). (k, fb_resource_root ref_lib b)) []) (library_of ref_lib ref_db0)
     \<or> db' = ref_db0 \<and> \<not> writes_ok ref_lib"
    using put_items_refines_spec [OF store_backend_ref ref_served movies_folder_1_new] by blast
  moreover have "writes_ok ref_lib" by (simp add: writes_ok_def ref_writes)
  ultimately show ?thesis
    using put_items_spec_item [OF movies_folder_1_new, of "movies_folder_object 1"]
    by (auto simp: movies_folder_1_def movies_folder_object_def)
qed

text \<open>
  C10: a rejected batch changes nothing. If \<open>put_items\<close> throws, because the parent is missing or is no
  container or because an item names another parent, the database is the one it was called with.
\<close>

theorem put_items_rejects_unchanged:
  assumes backend: "store_backend S entries snapshot pos"
    and sound: "sound_entries S (entries db)"
  shows "put_items S parent items res db =
    (case lib_objects (library_of S (entries db)) parent of
       None \<Rightarrow> (Inl (RuntimeError ''Container not found''), db)
     | Some po \<Rightarrow>
         if children po = None
         then (Inl (RuntimeError (''Object is not a container. type='' @
                 show_nat (ObjectUnion_code (mo_data po)))), db)
         else case read_container_meta po of
                Inl e \<Rightarrow> (Inl e, db)
              | Inr meta \<Rightarrow>
                  if \<exists>buf \<in> set items. mo_parent_id (fb_object_root S buf) \<noteq> parent
                  then (Inl (LogicError ''Parent mismatch''), db)
                  else (Inr (), snd (ldb_write S
                     (map (\<lambda>(k, b). (fb_key S (ResourceKey k), b)) res
                      @ map (\<lambda>b. (fb_key S (ObjectKey (mo_id (fb_object_root S b))), b)) items
                      @ [(fb_key S (ObjectKey parent),
                          serialize_container S (the (children po) @
                            map (\<lambda>b. fb_key S (ObjectKey (mo_id (fb_object_root S b)))) items) meta)]) db)))"
  by (rule store_backend.put_items_cases [OF backend])
    (simp add: sound store_backend.sound_db_def [OF backend])

lemma put_items_rejects_unchanged_witness:
  "put_items ref_lib 5 [movies_folder_1] [] ref_db0 = (Inl (RuntimeError ''Container not found''), ref_db0)
   \<and> put_items ref_lib 0 [fb_object ref_lib ((movies_folder_object 1)\<lparr>mo_parent_id := 7\<rparr>)] [] ref_db0
       = (Inl (LogicError ''Parent mismatch''), ref_db0)"
proof -
  have sound: "sound_entries ref_lib ref_db0" using ref_served by (simp add: served_def)
  obtain meta where "read_container_meta root_object = Inr meta"
    by (rule read_container_meta_stored) (auto simp: root_object_def)
  then show ?thesis
    using put_items_rejects_unchanged [OF store_backend_ref sound, of 5 "[movies_folder_1]" "[]"]
      put_items_rejects_unchanged [OF store_backend_ref sound, of 0
        "[fb_object ref_lib ((movies_folder_object 1)\<lparr>mo_parent_id := 7\<rparr>)]" "[]"]
    by (simp add: ref_fresh children_def) (simp add: root_object_def)
qed

text \<open>
  C11: fresh identifiers. \<open>get_next_id\<close> returns 0 when no object (or resource) is stored and otherwise
  one more than the largest stored identifier of that kind, so that no stored one is overwritten.
\<close>

theorem get_next_id_is_fresh:
  assumes backend: "store_backend S entries snapshot pos"
    and mk: "mk = ObjectKey \<or> mk = ResourceKey"
    and sound: "sound_entries S (entries db)"
    and free: "int64_max \<notin> stored_ids S mk (entries db)"
  shows "(if stored_ids S mk (entries db) = {} then get_next_id S mk db = Inr 0
    else \<exists>m \<in> stored_ids S mk (entries db). get_next_id S mk db = Inr (m + 1)
      \<and> (\<forall>i \<in> stored_ids S mk (entries db). sint i \<le> sint m))
    \<and> (\<forall>n. get_next_id S mk db = Inr n \<longrightarrow> (\<forall>i \<in> stored_ids S mk (entries db). sint i < sint n))"
proof -
  have db: "store_backend.sound_db S entries db"
    using sound by (simp add: store_backend.sound_db_def [OF backend])
  note m = store_backend.get_next_id_max [OF backend mk db free]
  have "\<forall>i \<in> stored_ids S mk (entries db). sint i < sint n" if n: "get_next_id S mk db = Inr n" for n
    by (rule store_backend.get_next_id_fresh [OF backend mk db free]) (use n in auto)
  with m show ?thesis by blast
qed

lemma get_next_id_is_fresh_witness:
  "get_next_id ref_lib ObjectKey ref_db0 = Inr 1 \<and> get_next_id ref_lib ResourceKey ref_db0 = Inr 0"
proof -
  have sound: "sound_entries ref_lib ref_db0" using ref_served by (simp add: served_def)
  have ids: "stored_ids ref_lib ObjectKey ref_db0 = {0}" "stored_ids ref_lib ResourceKey ref_db0 = {}"
    by (simp_all add: ref.stored_ids_library ref_fresh)
  have "int64_max \<notin> stored_ids ref_lib ObjectKey ref_db0" by (simp add: ids int64_max_def)
  from get_next_id_is_fresh [OF store_backend_ref _ sound this]
  have "get_next_id ref_lib ObjectKey ref_db0 = Inr 1" by (simp add: ids)
  moreover have "get_next_id ref_lib ResourceKey ref_db0 = Inr 0"
    using get_next_id_is_fresh [OF store_backend_ref _ sound, of ResourceKey] by (simp add: ids)
  ultimately show ?thesis by blast
qed

text \<open>
  C12: the comparator decides the linear order of library keys: object keys before resource keys, each
  by its signed identifier, a key without union value first.
\<close>

theorem Compare_decides_key_order:
  "Compare F a b =
     (if fb_key_root F a < fb_key_root F b then -1
      else if fb_key_root F a = fb_key_root F b then 0 else 1)"
  by (rule Compare_order)

section \<open>The first start\<close>

text \<open>
  C30: the first start leaves a library a client can browse. When the database was just created,
  whatever the configured directories hold and wherever the scan stops, at its end or by an exception,
  it leaves a well-formed library in which every stored object is reached from the root by following
  the children of containers. The services run on this library if the scan ended normally; after an
  exception, which ends the program, the next start does (C7). Unless the backend refuses a write, the
  exception is an unreadable directory or the overflow of an identifier.
\<close>

theorem first_start_serves_library:
  assumes backend: "store_backend S entries snapshot pos"
    and new: "open_db S (cf_db_path config) = Inr (False, db)"
    and run: "prepare_store S U fs fuel config = Some (Inr (r, db'))"
  shows "served S (entries db')
    \<and> (\<forall>i \<in> dom (lib_objects (library_of S (entries db'))). reachable S (library_of S (entries db')) i)
    \<and> (writes_ok S \<longrightarrow> (\<forall>e. r = Inl e \<longrightarrow> scan_exn e))"
proof -
  note fresh = store_backend.prepare_store_fresh [OF backend new run]
  then have "wf_library S (library_of S (entries db'))" by (simp add: served_def)
  from wf_library_reachable [OF this] fresh show ?thesis by blast
qed

text \<open>A witness: the film of the other witnesses, found by a first start.\<close>

definition films_start :: config where
  "films_start = default_config\<lparr>cf_directories := [\<lparr>dir_path = ''/films'', dir_scanner = films_config\<rparr>]\<rparr>"

lemma films_start_run:
  obtains r db' where "prepare_store ref_lib ref_util film_tree 2 films_start = Some (Inr (r, db'))"
proof -
  have "scan_libraries ref_lib ref_util film_tree 2 (cf_directories films_start) (new_scanner ref_db0) \<noteq> None"
    by (rule scan_libraries_terminates [OF film_tree_weight]) (simp add: films_start_def film_weight_def)
  then show thesis using that by (auto simp: prepare_store_def ref_open)
qed

lemma first_start_serves_library_witness:
  "\<exists>r db'. prepare_store ref_lib ref_util film_tree 2 films_start = Some (Inr (r, db'))
     \<and> served ref_lib db' \<and> (\<forall>e. r = Inl e \<longrightarrow> scan_exn e)"
proof -
  obtain r db' where run: "prepare_store ref_lib ref_util film_tree 2 films_start = Some (Inr (r, db'))"
    by (rule films_start_run)
  from first_start_serves_library [OF store_backend_ref ref_open this] run show ?thesis
    by (auto simp: writes_ok_def ref_writes)
qed

text \<open>
  C31: the start ends, when each configured tree is finite: with fuel for the largest of them.
\<close>

theorem start_returns:
  assumes "tree_weight fs w" and "\<forall>dir \<in> set (cf_directories config). w (dir_path dir) \<le> fuel"
  shows "prepare_store S U fs fuel config \<noteq> None"
  using scan_libraries_terminates [OF assms]
  by (auto simp: prepare_store_def split: sum.splits)

lemma start_returns_witness: "prepare_store ref_lib ref_util film_tree 2 films_start \<noteq> None"
  by (rule start_returns [OF film_tree_weight]) (simp add: films_start_def film_weight_def)

section \<open>Items and titles\<close>

text \<open>
  C32: the composer of an item, with its loops from \<^verbatim>\<open>lower_bound\<close> to the first other prefix, their
  breaks and fallbacks and the resource keys allocated on the way, is equal to its specification:
  the video, then the artwork whose names extend the item's (or else the folder's), then the
  subtitles, are stored in this order, and the object refers to them. The equality is on results and
  states, exceptions included.
\<close>

theorem compose_equals_spec:
  assumes "map_sorted (artwork_map (fst st))" and "map_sorted (subtitles_map (fst st))"
  shows "compose F U p st = compose_spec F U p st"
  by (rule compose_eq_spec [OF assms])

definition film_composer :: object_composer where
  "film_composer =
     composer_subtitles ''/films/Alien.srt'' ''text/srt''
       (composer_artwork ''/films/Alien.jpg'' ''image/jpeg''
         \<lparr>folder_name = ''films'', resources = [], subtitles_map = [], artwork_map = [], parent_id = 0\<rparr>)"

lemma compose_equals_spec_witness:
  "compose ref_lib ref_util (''Alien.mkv'', \<lparr>fi_mime_type = ''video/x-matroska'', fi_path = ''/films/Alien.mkv''\<rparr>)
     (film_composer, new_scanner ref_db0) =
   compose_spec ref_lib ref_util (''Alien.mkv'', \<lparr>fi_mime_type = ''video/x-matroska'', fi_path = ''/films/Alien.mkv''\<rparr>)
     (film_composer, new_scanner ref_db0)"
  by (rule compose_equals_spec) (simp_all add: film_composer_def composer_subtitles_def composer_artwork_def)

text \<open>
  C33: the title and the year of an item. Every dot and underscore of the file name that a word character
  follows is replaced by a space, and nothing else. If this name has a numeral from 1000 to 2999 (four
  digits; nothing is asked of what stands around them), the year is the leftmost of these, and the title
  is what stands before the digits, without the opening bracket right before them if there is one;
  otherwise the year is 0 and the title is the whole name. The title is trimmed, and it never contains
  such a numeral; a name that begins with one has the empty title.
\<close>

theorem normalized_title:
  assumes "util U"
  shows "let s = replace_wordsep (c_str t); (title, year) = normalize_title U t
    in separators_replaced (c_str t) s
      \<and> (if has_year s then \<exists>d n. year_found s d n \<and> year = int n \<and> trimmed (take (title_end s d) s) title
        else year = 0 \<and> trimmed s title)
      \<and> \<not> has_year title \<and> ((\<exists>n. names_year s n) \<longrightarrow> title = [])"
proof -
  let ?s = "replace_wordsep (c_str t)"
  obtain title year where t: "normalize_title U t = (title, year)" by fastforce
  show ?thesis
  proof (cases "has_year ?s")
    case True
    from util.normalize_title_found [OF assms this] t obtain d n where d: "year_found ?s d n"
      "year = int n" "trimmed (take (title_end ?s d) ?s) title" "\<not> has_year (take (title_end ?s d) ?s)" by auto
    have "title = []" if "\<exists>n. names_year ?s n"
    proof -
      from that d(1) have "d = 0" by (cases d) (auto simp: year_found_def)
      with d(3) show ?thesis by (simp add: trimmed_def title_end_def)
    qed
    with True d trimmed_has_year t show ?thesis by (auto simp: Let_def replace_wordsep_separators)
  next
    case False
    have "\<not> (\<exists>n. names_year ?s n)" using False unfolding has_year_def by (metis append_Nil)
    with False util.normalize_title_plain [OF assms False] trimmed_has_year t show ?thesis
      by (auto simp: Let_def replace_wordsep_separators)
  qed
qed

lemma normalized_title_witness:
  "\<exists>d n. year_found ''Alien (1979)'' d n \<and> snd (normalize_title ref_util ''Alien (1979)'') = int n
     \<and> trimmed (take (title_end ''Alien (1979)'' d) ''Alien (1979)'') (fst (normalize_title ref_util ''Alien (1979)''))"
proof -
  have name: "replace_wordsep (c_str ''Alien (1979)'') = ''Alien (1979)''" by code_simp
  have "''Alien (1979)'' = ''Alien ('' @ ''1979)''" by simp
  moreover have "names_year ''1979)'' 1979" unfolding names_year_def by code_simp
  ultimately have "has_year ''Alien (1979)''" unfolding has_year_def by blast
  then show ?thesis
    using normalized_title [OF ref_util.util_axioms, of "''Alien (1979)''"]
    by (simp only: name Let_def if_True split_beta)
qed

section \<open>Containers\<close>

text \<open>
  C34: what is written of a container is read back: its metadata, and its children in order.
\<close>

theorem container_reads_back:
  assumes "flatbuffers F"
  shows "read_container_meta (fb_object_root F (serialize_container F contents meta)) = Inr meta
    \<and> children (fb_object_root F (serialize_container F contents meta)) = Some contents"
  using flatbuffers.container_meta_roundtrip [OF assms] flatbuffers.container_root [OF assms]
  by (simp add: children_def)

lemma container_reads_back_witness:
  "children (fb_object_root ref_lib (serialize_container ref_lib [enc_key (ObjectKey 1)] root_container)) =
     Some [enc_key (ObjectKey 1)]"
  using container_reads_back [OF ref.flatbuffers_axioms, of "[enc_key (ObjectKey 1)]" root_container] by simp

section \<open>Configuration\<close>

text \<open>
  C35: a loaded configuration is complete, and its directories are those of the file. The host name,
  the server's name and its identifier are set, from the file or derived from the host name. The
  content section is read completely or rejected: every table of it describes a movies library, and
  the directories are those of the tables, in order (none if the section is absent). Every directory
  looks for collections, whatever its table says: there is no key for it.
\<close>

theorem loaded_configuration_is_complete:
  assumes names: "net_host_name K \<noteq> []" "\<And>n. uuid_name_dns K n \<noteq> nil_uuid"
    and load: "load_configuration K data = Inr c"
  shows "sv_host_name (cf_server c) \<noteq> [] \<and> sv_name (cf_server c) \<noteq> [] \<and> sv_uuid (cf_server c) \<noteq> nil_uuid
    \<and> (\<exists>t. toml_table data = Inr t
        \<and> (case map_of t ''content'' of
             None \<Rightarrow> cf_directories c = []
           | Some section \<Rightarrow> \<exists>tables. section = TomlArray tables \<and> (\<forall>x \<in> set tables. directory_of x \<noteq> None)
               \<and> cf_directories c = map (the \<circ> directory_of) tables))
    \<and> (\<forall>d \<in> set (cf_directories c). use_collections (dir_scanner d))"
proof -
  obtain t server where t: "toml_table data = Inr t" "cf_server c = complete_server_config K server"
    using load by (auto elim: load_configuration_sections)
  have "\<forall>d \<in> set (cf_directories c). use_collections (dir_scanner d)"
    by (rule load_configuration_directories [OF load])
  with t complete_server_config_complete [OF names, of server] load_configuration_content [OF load t(1)]
  show ?thesis by auto
qed

lemma loaded_configuration_is_complete_witness:
  "\<exists>c. load_configuration ref_config_lib (TomlTable 0 [(''content'', TomlArray
        [TomlTable 1 [(''type'', TomlString ''movies''), (''path'', TomlString ''/films'')]])]) = Inr c
     \<and> sv_name (cf_server c) \<noteq> []
     \<and> cf_directories c = [\<lparr>dir_path = ''/films'', dir_scanner = default_movies_config\<rparr>]"
proof -
  let ?table = "TomlTable 1 [(''type'', TomlString ''movies''), (''path'', TomlString ''/films'')]"
  have table: "directory_of ?table = Some \<lparr>dir_path = ''/films'', dir_scanner = default_movies_config\<rparr>"
    by (simp add: directory_of_def toml_find_string_def load_movies_config_def try_get_def)
  obtain c where c: "load_configuration ref_config_lib (TomlTable 0 [(''content'', TomlArray [?table])]) = Inr c"
    by (simp add: load_configuration_def try_get_def toml_find_string_def load_movies_config_def default_config_def)
  have "net_host_name ref_config_lib \<noteq> []" "\<And>n. uuid_name_dns ref_config_lib n \<noteq> nil_uuid"
    by (simp_all add: ref_config_lib_def nil_uuid_def numeral_eq_Suc)
  from loaded_configuration_is_complete [OF this c] c table show ?thesis by auto
qed

text \<open>
  C36: the configured port is taken modulo \<open>2 ^ 16\<close>, whatever 64-bit value the file gives; the value is
  not checked.
\<close>

theorem configured_port_wraps:
  assumes "load_server_config K data config = Inr c"
    and "map_of data ''port'' = Some (TomlInteger p)"
  shows "uint (sv_listen_port c) = sint p mod 2 ^ 16"
  using load_server_config_port [OF assms] by (simp add: uint_ucast_sint)

lemma configured_port_wraps_witness:
  "\<exists>c. load_server_config ref_config_lib [(''port'', TomlInteger 65616)] default_server_config = Inr c
     \<and> uint (sv_listen_port c) = 80"
proof -
  obtain c where c: "load_server_config ref_config_lib [(''port'', TomlInteger 65616)] default_server_config = Inr c"
    by (simp add: load_server_config_def try_get_def)
  from configured_port_wraps [OF c, of 65616] c show ?thesis by simp
qed

end
